(* ===== verification/Prelude.thy ===== *)
theory Prelude
  imports Complex_Main "HOL-Library.Word" "HOL-Library.Signed_Division"
begin

text \<open>
  Shared ground of the development: the machine types of the Rust sources, the byte-string
  operations of the standard library the sources call, decimal formatting and parsing, and
  the collections of facts the component theories feed to the simplifier.

  A Rust \<^verbatim>\<open>String\<close> or \<^verbatim>\<open>&str\<close> is its UTF-8 byte sequence, held as a HOL
  \<^typ>\<open>string\<close> (a HOL \<^typ>\<open>char\<close> is one byte); \<^verbatim>\<open>len()\<close>, indexing and comparison
  are the byte operations of the source.  A Rust signed integer is an \<^typ>\<open>int\<close> and an
  operation that can leave its range on some input wraps explicitly with \<open>wrap_i64\<close>
  (the release profile sets no overflow checks); an unsigned integer used bitwise
  is a \<^typ>\<open>'a word\<close>; a count that only grows is a \<^typ>\<open>nat\<close>.  Rust's \<^verbatim>\<open>/\<close> and
  \<^verbatim>\<open>%\<close> truncate towards zero: they are \<open>sdiv\<close> and \<open>smod\<close>.
\<close>

unbundle bit_operations_syntax

named_theorems ascii_simps \<open>byte classes of the Rust standard library\<close>
named_theorems journal_simps \<open>the SQL statements of the journal as list operations\<close>
named_theorems step_frame \<open>what a scheduling step leaves alone\<close>

type_synonym u8 = "8 word"
type_synonym u32 = "32 word"
type_synonym u64 = "64 word"
type_synonym bytes = "u8 list"

subsection \<open>Signed 64-bit arithmetic\<close>

definition i64_min :: int where "i64_min = - (2 ^ 63)"
definition i64_max :: int where "i64_max = 2 ^ 63 - 1"

definition in_i64 :: "int \<Rightarrow> bool" where
  "in_i64 x \<longleftrightarrow> i64_min \<le> x \<and> x \<le> i64_max"

text \<open>Two's complement wrap-around of a result that does not fit.\<close>

definition wrap_i64 :: "int \<Rightarrow> int" where
  "wrap_i64 x = (x + 2 ^ 63) mod 2 ^ 64 - 2 ^ 63"

lemma wrap_i64_id [simp]: "in_i64 x \<Longrightarrow> wrap_i64 x = x"
  by (simp add: wrap_i64_def in_i64_def i64_min_def i64_max_def)

lemma wrap_i64_range: "in_i64 (wrap_i64 x)"
  using pos_mod_bound[of "2^64" "x + 2^63"] pos_mod_sign[of "2^64" "x + 2^63"]
  by (simp add: wrap_i64_def in_i64_def i64_min_def i64_max_def)

text \<open>The same at 32 bits.\<close>

definition wrap_i32 :: "int \<Rightarrow> int" where
  "wrap_i32 x = (x + 2 ^ 31) mod 2 ^ 32 - 2 ^ 31"

lemma wrap_i32_id: "- (2 ^ 31) \<le> x \<Longrightarrow> x < 2 ^ 31 \<Longrightarrow> wrap_i32 x = x"
  by (simp add: wrap_i32_def)

text \<open>\<^verbatim>\<open>floor\<close>-free truncating division on non-negative operands is the usual one.\<close>

lemma sdiv_nonneg: "0 \<le> (a::int) \<Longrightarrow> 0 < b \<Longrightarrow> a sdiv b = a div b"
  by (auto simp: signed_divide_int_def sgn_if)

lemma smod_nonneg: "0 \<le> (a::int) \<Longrightarrow> 0 < b \<Longrightarrow> a smod b = a mod b"
  by (auto simp: signed_modulo_int_def signed_divide_int_def sgn_if minus_div_mult_eq_mod)

subsection \<open>Byte classes\<close>

definition byte_of :: "char \<Rightarrow> nat" where
  "byte_of c = of_char c"

text \<open>\<^verbatim>\<open>u8::is_ascii_whitespace\<close>: space, tab, line feed, form feed, carriage return.\<close>

definition is_ascii_whitespace :: "char \<Rightarrow> bool" where
  "is_ascii_whitespace c \<longleftrightarrow> byte_of c \<in> {32, 9, 10, 12, 13}"

definition is_ascii_digit :: "char \<Rightarrow> bool" where
  "is_ascii_digit c \<longleftrightarrow> 48 \<le> byte_of c \<and> byte_of c \<le> 57"

definition is_ascii_uppercase :: "char \<Rightarrow> bool" where
  "is_ascii_uppercase c \<longleftrightarrow> 65 \<le> byte_of c \<and> byte_of c \<le> 90"

definition is_ascii_lowercase :: "char \<Rightarrow> bool" where
  "is_ascii_lowercase c \<longleftrightarrow> 97 \<le> byte_of c \<and> byte_of c \<le> 122"

definition is_ascii_hexdigit :: "char \<Rightarrow> bool" where
  "is_ascii_hexdigit c \<longleftrightarrow> is_ascii_digit c \<or> (65 \<le> byte_of c \<and> byte_of c \<le> 70)
     \<or> (97 \<le> byte_of c \<and> byte_of c \<le> 102)"

definition to_ascii_lower :: "char \<Rightarrow> char" where
  "to_ascii_lower c = (if is_ascii_uppercase c then char_of (byte_of c + 32) else c)"

definition to_ascii_upper :: "char \<Rightarrow> char" where
  "to_ascii_upper c = (if is_ascii_lowercase c then char_of (byte_of c - 32) else c)"

lemmas ascii_defs [ascii_simps] =
  is_ascii_whitespace_def is_ascii_digit_def is_ascii_uppercase_def is_ascii_lowercase_def
  is_ascii_hexdigit_def to_ascii_lower_def to_ascii_upper_def byte_of_def

text \<open>\<^verbatim>\<open>char::to_digit(16)\<close> on a byte.\<close>

definition to_digit16 :: "char \<Rightarrow> nat option" where
  "to_digit16 c =
     (let b = byte_of c in
      if 48 \<le> b \<and> b \<le> 57 then Some (b - 48)
      else if 97 \<le> b \<and> b \<le> 102 then Some (b - 87)
      else if 65 \<le> b \<and> b \<le> 70 then Some (b - 55)
      else None)"

lemma to_digit16_bound: "to_digit16 c = Some d \<Longrightarrow> d < 16"
  by (auto simp: to_digit16_def Let_def split: if_splits)

lemma to_digit16_hex: "(\<exists>d. to_digit16 c = Some d) \<longleftrightarrow> is_ascii_hexdigit c"
  by (auto simp: to_digit16_def Let_def is_ascii_hexdigit_def is_ascii_digit_def)

definition digit_val :: "char \<Rightarrow> nat" where
  "digit_val c = byte_of c - 48"

lemma digit_val_bound: "is_ascii_digit c \<Longrightarrow> digit_val c \<le> 9"
  by (auto simp: digit_val_def is_ascii_digit_def)

subsection \<open>Substring search\<close>

fun starts_with :: "string \<Rightarrow> string \<Rightarrow> bool" where
  "starts_with s [] = True"
| "starts_with [] (p # ps) = False"
| "starts_with (c # s) (p # ps) = (c = p \<and> starts_with s ps)"

fun str_contains :: "string \<Rightarrow> string \<Rightarrow> bool" where
  "str_contains [] p = (p = [])"
| "str_contains (c # s) p = (starts_with (c # s) p \<or> str_contains s p)"

lemma starts_with_iff: "starts_with s p \<longleftrightarrow> (\<exists>t. s = p @ t)"
  by (induction s p rule: starts_with.induct) auto

lemma str_contains_iff: "str_contains s p \<longleftrightarrow> (\<exists>a b. s = a @ p @ b)"
proof (induction s)
  case Nil
  then show ?case by simp
next
  case (Cons c s)
  have "(\<exists>a b. c # s = a @ p @ b) \<longleftrightarrow> (\<exists>b. c # s = p @ b) \<or> (\<exists>a b. s = a @ p @ b)"
    by (metis (no_types, lifting) append.left_neutral append_Cons append_eq_Cons_conv)
  with Cons show ?case by (auto simp: starts_with_iff)
qed

lemma str_contains_self [simp]: "str_contains (a @ p @ b) p"
  by (auto simp: str_contains_iff)

text \<open>
  \<^verbatim>\<open>str::trim().is_empty()\<close>: every character of the (UTF-8) text has the Unicode
  White\_Space property.  The alternatives are the encodings of U+0009..U+000D, U+0020, U+0085,
  U+00A0, U+1680, U+2000..U+200A, U+2028, U+2029, U+202F, U+205F and U+3000.
\<close>

definition unicode_ws2 :: "nat \<Rightarrow> nat \<Rightarrow> bool" where
  "unicode_ws2 a b \<longleftrightarrow> a = 194 \<and> (b = 133 \<or> b = 160)"

definition unicode_ws3 :: "nat \<Rightarrow> nat \<Rightarrow> nat \<Rightarrow> bool" where
  "unicode_ws3 a b c \<longleftrightarrow>
     (a = 225 \<and> b = 154 \<and> c = 128)
   \<or> (a = 226 \<and> b = 128 \<and> (128 \<le> c \<and> c \<le> 138 \<or> c = 168 \<or> c = 169 \<or> c = 175))
   \<or> (a = 226 \<and> b = 129 \<and> c = 159)
   \<or> (a = 227 \<and> b = 128 \<and> c = 128)"

fun trim_is_empty :: "string \<Rightarrow> bool" where
  "trim_is_empty [] = True"
| "trim_is_empty [a] = (byte_of a \<in> {9, 10, 11, 12, 13, 32})"
| "trim_is_empty [a, b] =
     (if byte_of a \<in> {9, 10, 11, 12, 13, 32} then trim_is_empty [b]
      else unicode_ws2 (byte_of a) (byte_of b))"
| "trim_is_empty (a # b # c # s) =
     (if byte_of a \<in> {9, 10, 11, 12, 13, 32} then trim_is_empty (b # c # s)
      else if unicode_ws2 (byte_of a) (byte_of b) then trim_is_empty (c # s)
      else if unicode_ws3 (byte_of a) (byte_of b) (byte_of c) then trim_is_empty s
      else False)"

subsection \<open>Decimal text\<close>

text \<open>\<^verbatim>\<open>to_string()\<close> / \<^verbatim>\<open>{}\<close> on an unsigned integer, and the zero-padded form
  \<^verbatim>\<open>{:02}\<close>, \<^verbatim>\<open>{:04}\<close>.\<close>

definition digit_char :: "nat \<Rightarrow> char" where
  "digit_char d = char_of (48 + d)"

fun show_nat :: "nat \<Rightarrow> string" where
  "show_nat n = (if n < 10 then [digit_char n] else show_nat (n div 10) @ [digit_char (n mod 10)])"

declare show_nat.simps [simp del]

definition show_int :: "int \<Rightarrow> string" where
  "show_int i = (if i < 0 then CHR ''-'' # show_nat (nat (- i)) else show_nat (nat i))"

definition pad_left :: "nat \<Rightarrow> string \<Rightarrow> string" where
  "pad_left w s = replicate (w - length s) (CHR ''0'') @ s"

text \<open>\<^verbatim>\<open>{:0w}\<close> puts the sign before the padding.\<close>

definition show_pad :: "nat \<Rightarrow> int \<Rightarrow> string" where
  "show_pad w i =
     (if i < 0 then CHR ''-'' # pad_left (w - 1) (show_nat (nat (- i)))
      else pad_left w (show_nat (nat i)))"

fun digits_value :: "nat \<Rightarrow> string \<Rightarrow> nat" where
  "digits_value acc [] = acc"
| "digits_value acc (c # s) = digits_value (acc * 10 + digit_val c) s"

lemma byte_of_digit_char [simp]: "d < 10 \<Longrightarrow> byte_of (digit_char d) = 48 + d"
  by (simp add: byte_of_def digit_char_def of_char_of)

lemma digit_char_digit [simp]: "d < 10 \<Longrightarrow> is_ascii_digit (digit_char d)"
  by (simp add: is_ascii_digit_def)

lemma digit_val_digit_char [simp]: "d < 10 \<Longrightarrow> digit_val (digit_char d) = d"
  by (simp add: digit_val_def)

lemma digits_value_append: "digits_value acc (s @ t) = digits_value (digits_value acc s) t"
  by (induction s arbitrary: acc) auto

lemma show_nat_nonempty [simp]: "show_nat n \<noteq> []"
  by (subst show_nat.simps) simp

lemma show_nat_digits: "c \<in> set (show_nat n) \<Longrightarrow> is_ascii_digit c"
proof (induction n rule: show_nat.induct)
  case (1 n)
  then show ?case by (cases "n < 10") (auto simp: show_nat.simps[of n])
qed

lemma digits_value_show_nat [simp]: "digits_value 0 (show_nat n) = n"
proof (induction n rule: show_nat.induct)
  case (1 n)
  then show ?case by (cases "n < 10") (simp_all add: show_nat.simps[of n] digits_value_append)
qed

lemma length_show_nat_le: "n < 10 ^ k \<Longrightarrow> 0 < k \<Longrightarrow> length (show_nat n) \<le> k"
proof (induction k arbitrary: n)
  case 0
  then show ?case by simp
next
  case (Suc k)
  show ?case
  proof (cases "n < 10")
    case True
    then show ?thesis by (simp add: show_nat.simps[of n])
  next
    case False
    with Suc.prems have k: "0 < k" by (cases k) auto
    from Suc.prems have "n div 10 < 10 ^ k" by (simp add: less_mult_imp_div_less)
    with Suc.IH k have "length (show_nat (n div 10)) \<le> k" by blast
    with False show ?thesis by (simp add: show_nat.simps[of n])
  qed
qed

lemma length_pad_left: "length s \<le> w \<Longrightarrow> length (pad_left w s) = w"
  by (simp add: pad_left_def)

subsection \<open>Byte-wise order of text\<close>

text \<open>SQLite's default BINARY collation (and Rust's \<^verbatim>\<open>str\<close> order): \<^verbatim>\<open>memcmp\<close>, shorter first.\<close>

fun text_le :: "string \<Rightarrow> string \<Rightarrow> bool" where
  "text_le [] t = True"
| "text_le (c # s) [] = False"
| "text_le (c # s) (d # t) =
     (byte_of c < byte_of d \<or> (c = d \<and> text_le s t))"

lemma text_le_refl [simp]: "text_le s s"
  by (induction s) auto

lemma text_le_trans: "text_le a b \<Longrightarrow> text_le b c \<Longrightarrow> text_le a c"
proof (induction a b arbitrary: c rule: text_le.induct)
  case (3 x s y t)
  then show ?case by (cases c) auto
qed auto

lemma byte_of_inj: "byte_of c = byte_of d \<Longrightarrow> c = d"
  unfolding byte_of_def by (metis char_of_char)

lemma text_le_total: "text_le a b \<or> text_le b a"
proof (induction a b rule: text_le.induct)
  case (3 x s y t)
  then show ?case using byte_of_inj[of x y] by (cases "byte_of x" "byte_of y" rule: linorder_cases) auto
qed auto

lemma text_le_antisym: "text_le a b \<Longrightarrow> text_le b a \<Longrightarrow> a = b"
  by (induction a b rule: text_le.induct) (auto, metis neq_Nil_conv text_le.simps(2))


text \<open>On texts of equal length a common prefix decides nothing, and zero-padded numbers compare
  like their values.\<close>

lemma text_le_append:
  "length a = length b \<Longrightarrow>
   text_le (a @ x) (b @ y) \<longleftrightarrow> (if a = b then text_le x y else text_le a b)"
  by (induction a b rule: list_induct2) auto

lemma digits_value_acc: "digits_value acc s = acc * 10 ^ length s + digits_value 0 s"
proof (induction s arbitrary: acc)
  case (Cons c s)
  show ?case
    using Cons[of "acc * 10 + digit_val c"] Cons[of "digit_val c"] by (simp add: algebra_simps)
qed simp

lemma digit_val_lt: "is_ascii_digit c \<Longrightarrow> digit_val c < 10"
  by (auto simp: is_ascii_digit_def digit_val_def)

lemma digits_value_lt: "list_all is_ascii_digit s \<Longrightarrow> digits_value 0 s < 10 ^ length s"
proof (induction s)
  case (Cons c s)
  then have "digit_val c + 1 \<le> 10" "digits_value 0 s < 10 ^ length s"
    using digit_val_lt by force+
  then have "digit_val c * 10 ^ length s + digits_value 0 s < (digit_val c + 1) * 10 ^ length s"
    by simp
  also have "\<dots> \<le> 10 * 10 ^ length s" using \<open>digit_val c + 1 \<le> 10\<close> by (rule mult_le_mono1)
  finally show ?case using digits_value_acc[of "digit_val c" s] by simp
qed simp

lemma lead_digit_decides:
  "x < (10::nat) ^ n \<Longrightarrow> c < d \<Longrightarrow> c * 10 ^ n + x < d * 10 ^ n + y"
proof -
  assume "x < 10 ^ n" "c < d"
  then have "c * 10 ^ n + x < (c + 1) * 10 ^ n" by simp
  also have "\<dots> \<le> d * 10 ^ n" using \<open>c < d\<close> by (intro mult_le_mono1) simp
  finally show ?thesis by simp
qed

lemma text_le_digits:
  "length s = length t \<Longrightarrow> list_all is_ascii_digit s \<Longrightarrow> list_all is_ascii_digit t \<Longrightarrow>
   text_le s t \<longleftrightarrow> digits_value 0 s \<le> digits_value 0 t"
proof (induction s t rule: list_induct2)
  case (Cons c s d t)
  have v: "digits_value 0 (c # s) = digit_val c * 10 ^ length s + digits_value 0 s"
    "digits_value 0 (d # t) = digit_val d * 10 ^ length s + digits_value 0 t"
    using digits_value_acc[of "digit_val c" s] digits_value_acc[of "digit_val d" t] Cons.hyps by simp_all
  have lt: "digits_value 0 s < 10 ^ length s" "digits_value 0 t < 10 ^ length s"
    using Cons.prems Cons.hyps digits_value_lt[of s] digits_value_lt[of t] by simp_all
  have b: "byte_of c < byte_of d \<longleftrightarrow> digit_val c < digit_val d" "byte_of c = byte_of d \<longleftrightarrow> digit_val c = digit_val d"
    using Cons.prems by (auto simp: is_ascii_digit_def digit_val_def)
  consider "digit_val c < digit_val d" | "digit_val d < digit_val c" | "digit_val c = digit_val d" by linarith
  then show ?case
  proof cases
    case 1
    then show ?thesis using lead_digit_decides[OF lt(1) 1] b v by (simp add: less_imp_le)
  next
    case 2
    then have "c \<noteq> d" by auto
    then show ?thesis using lead_digit_decides[OF lt(2) 2] b v 2 by (simp add: not_le)
  next
    case 3
    then have "c = d" using b byte_of_inj by simp
    then show ?thesis using Cons v by simp
  qed
qed simp

lemma digits_value_zeros: "digits_value acc (replicate n (CHR ''0'') @ s) = digits_value (acc * 10 ^ n) s"
proof (induction n arbitrary: acc)
  case (Suc n)
  have "digit_val (CHR ''0'') = 0" by code_simp
  then show ?case using Suc by (simp add: mult.assoc)
qed simp

lemma show_pad_fixed:
  assumes "0 \<le> i" "i < 10 ^ w" "0 < w"
  shows "length (show_pad w i) = w" "list_all is_ascii_digit (show_pad w i)"
    "digits_value 0 (show_pad w i) = nat i"
proof -
  have "nat i < 10 ^ w" using assms by (simp add: nat_less_iff)
  then have "length (show_nat (nat i)) \<le> w" using assms length_show_nat_le by blast
  then show "length (show_pad w i) = w" using assms by (simp add: show_pad_def length_pad_left)
  have "is_ascii_digit (CHR ''0'')" by code_simp
  then show "list_all is_ascii_digit (show_pad w i)"
    using assms show_nat_digits by (auto simp: show_pad_def pad_left_def list_all_iff)
  show "digits_value 0 (show_pad w i) = nat i"
    using assms by (simp add: show_pad_def pad_left_def digits_value_zeros)
qed

lemma show_pad_le:
  assumes "0 \<le> i" "i < 10 ^ w" "0 \<le> j" "j < 10 ^ w" "0 < w"
  shows "text_le (show_pad w i) (show_pad w j) \<longleftrightarrow> i \<le> j"
    "show_pad w i = show_pad w j \<longleftrightarrow> i = j"
  using show_pad_fixed[of i w] show_pad_fixed[of j w] assms text_le_digits
  by (fastforce, metis nat_eq_iff2 nonneg_int_cases)

subsection \<open>Results\<close>

text \<open>\<^verbatim>\<open>Result<T, E>\<close> is \<open>'e + 'a\<close> with the error on the left; \<open>rbind\<close> is the
  question-mark operator.\<close>

fun rbind :: "'e + 'a \<Rightarrow> ('a \<Rightarrow> 'e + 'b) \<Rightarrow> 'e + 'b" where
  "rbind (Inl e) f = Inl e"
| "rbind (Inr a) f = f a"

lemma rbind_Inr_iff: "rbind m f = Inr b \<longleftrightarrow> (\<exists>a. m = Inr a \<and> f a = Inr b)"
  by (cases m) auto

fun map_err :: "('e \<Rightarrow> 'f) \<Rightarrow> 'e + 'a \<Rightarrow> 'f + 'a" where
  "map_err g (Inl e) = Inl (g e)"
| "map_err g (Inr a) = Inr a"

lemma map_err_Inr_iff [simp]: "map_err g m = Inr a \<longleftrightarrow> m = Inr a"
  by (cases m) auto

lemma map_err_Inl_iff: "map_err g m = Inl e \<longleftrightarrow> (\<exists>e'. m = Inl e' \<and> e = g e')"
  by (cases m) auto

text \<open>\<^verbatim>\<open>iter().map(f).collect::<Result<Vec<_>, _>>()\<close> and the equivalent push loops: the first
  error wins.\<close>

fun rmapM :: "('a \<Rightarrow> 'e + 'b) \<Rightarrow> 'a list \<Rightarrow> 'e + 'b list" where
  "rmapM f [] = Inr []"
| "rmapM f (x # xs) = rbind (f x) (\<lambda>y. rbind (rmapM f xs) (\<lambda>ys. Inr (y # ys)))"

lemma rmapM_Inr:
  "rmapM f xs = Inr ys \<Longrightarrow> list_all2 (\<lambda>x y. f x = Inr y) xs ys"
  by (induction xs arbitrary: ys) (auto simp: rbind_Inr_iff)

lemma rmapM_memberD: "rmapM f xs = Inr ys \<Longrightarrow> y \<in> set ys \<Longrightarrow> \<exists>x\<in>set xs. f x = Inr y"
  by (induction xs arbitrary: ys) (auto simp: rbind_Inr_iff)

lemma rmapM_total: "(\<And>x. x \<in> set xs \<Longrightarrow> f x = Inr (g x)) \<Longrightarrow> rmapM f xs = Inr (map g xs)"
  by (induction xs) auto

lemma list_all2_memberD: "list_all2 P xs ys \<Longrightarrow> x \<in> set xs \<Longrightarrow> \<exists>y\<in>set ys. P x y"
  by (induction rule: list_all2_induct) auto

lemma list_all2_memberD_right: "list_all2 P xs ys \<Longrightarrow> y \<in> set ys \<Longrightarrow> \<exists>x\<in>set xs. P x y"
  by (induction rule: list_all2_induct) auto

end
