(* ===== verification/F64.thy ===== *)
theory F64
  imports Prelude "HOL-Library.Log_Nat"
begin

text \<open>
  IEEE-754 binary64, the \<^verbatim>\<open>f64\<close> of the sources: a finite value is the rational it
  denotes, every arithmetic result is rounded to the nearest representable value with ties to
  even (gradual underflow below \<open>2\<^sup>-\<^sup>1\<^sup>0\<^sup>2\<^sup>2\<close>, infinity from \<open>2\<^sup>1\<^sup>0\<^sup>2\<^sup>4\<close> on), comparisons with
  \<^verbatim>\<open>NaN\<close> are false, \<^verbatim>\<open>as i64\<close> and \<^verbatim>\<open>as usize\<close> truncate towards zero and
  saturate.  The two zeros are one value: the sources never divide by a zero whose sign differs.
  The lemmas bound the rounding error, which is what the batch-sizing theorem needs.
\<close>

datatype f64 = Finite rat | Infinite bool | NaN

abbreviation pow2 :: "int \<Rightarrow> rat" where
  "pow2 k \<equiv> 2 powi k"

text \<open>The exponent \<open>e\<close> with \<open>2\<^sup>e \<le> x < 2\<^sup>e\<^sup>+\<^sup>1\<close>, from the bit lengths of numerator and
  denominator.\<close>

definition bin_exp :: "rat \<Rightarrow> int" where
  "bin_exp x =
     (let (p, q) = quotient_of x; k = bitlen p - bitlen q
      in if pow2 k \<le> x then k else k - 1)"

definition ulp :: "rat \<Rightarrow> rat" where
  "ulp x = pow2 (max (bin_exp \<bar>x\<bar> - 52) (- 1074))"

definition round_even :: "rat \<Rightarrow> int" where
  "round_even y =
     (let f = \<lfloor>y\<rfloor>; d = y - of_int f
      in if d < 1 / 2 then f else if 1 / 2 < d then f + 1 else if even f then f else f + 1)"

definition rnd :: "rat \<Rightarrow> f64" where
  "rnd x =
     (if x = 0 then Finite 0
      else let r = of_int (round_even (x / ulp x)) * ulp x
           in if pow2 1024 \<le> \<bar>r\<bar> then Infinite (x < 0) else Finite r)"

fun is_finite :: "f64 \<Rightarrow> bool" where
  "is_finite (Finite x) = True"
| "is_finite (Infinite s) = False"
| "is_finite NaN = False"

fun f64_mul :: "f64 \<Rightarrow> f64 \<Rightarrow> f64" where
  "f64_mul (Finite a) (Finite b) = rnd (a * b)"
| "f64_mul (Finite a) (Infinite s) = (if a = 0 then NaN else Infinite (s \<noteq> (a < 0)))"
| "f64_mul (Infinite s) (Finite b) = (if b = 0 then NaN else Infinite (s \<noteq> (b < 0)))"
| "f64_mul (Infinite s) (Infinite t) = Infinite (s \<noteq> t)"
| "f64_mul NaN y = NaN"
| "f64_mul x NaN = NaN"

fun f64_div :: "f64 \<Rightarrow> f64 \<Rightarrow> f64" where
  "f64_div (Finite a) (Finite b) =
     (if b = 0 then (if a = 0 then NaN else Infinite (a < 0)) else rnd (a / b))"
| "f64_div (Finite a) (Infinite s) = Finite 0"
| "f64_div (Infinite s) (Finite b) = Infinite (s \<noteq> (b < 0))"
| "f64_div (Infinite s) (Infinite t) = NaN"
| "f64_div NaN y = NaN"
| "f64_div x NaN = NaN"

fun f64_le :: "f64 \<Rightarrow> f64 \<Rightarrow> bool" where
  "f64_le (Finite a) (Finite b) = (a \<le> b)"
| "f64_le (Finite a) (Infinite s) = (\<not> s)"
| "f64_le (Infinite s) (Finite b) = s"
| "f64_le (Infinite s) (Infinite t) = (s \<or> \<not> t)"
| "f64_le NaN y = False"
| "f64_le x NaN = False"

text \<open>\<^verbatim>\<open>f64::min\<close> / \<^verbatim>\<open>f64::max\<close>: the other operand when one is \<^verbatim>\<open>NaN\<close>.\<close>

definition f64_min :: "f64 \<Rightarrow> f64 \<Rightarrow> f64" where
  "f64_min a b = (if a = NaN then b else if b = NaN then a else if f64_le a b then a else b)"

definition f64_max :: "f64 \<Rightarrow> f64 \<Rightarrow> f64" where
  "f64_max a b = (if a = NaN then b else if b = NaN then a else if f64_le a b then b else a)"

definition f64_of_int :: "int \<Rightarrow> f64" where
  "f64_of_int n = rnd (of_int n)"

definition trunc_rat :: "rat \<Rightarrow> int" where
  "trunc_rat x = (if 0 \<le> x then \<lfloor>x\<rfloor> else \<lceil>x\<rceil>)"

fun f64_to_i64 :: "f64 \<Rightarrow> int" where
  "f64_to_i64 (Finite x) = max i64_min (min i64_max (trunc_rat x))"
| "f64_to_i64 (Infinite s) = (if s then i64_min else i64_max)"
| "f64_to_i64 NaN = 0"

fun f64_to_usize :: "f64 \<Rightarrow> nat" where
  "f64_to_usize (Finite x) = nat (min (2 ^ 64 - 1) (trunc_rat x))"
| "f64_to_usize (Infinite s) = (if s then 0 else 2 ^ 64 - 1)"
| "f64_to_usize NaN = 0"

subsection \<open>Rounding error\<close>

lemma bitlen_powi:
  assumes "0 < (p::int)"
  shows "pow2 (bitlen p - 1) \<le> of_int p" and "(of_int p :: rat) < pow2 (bitlen p)"
proof -
  from assms have b: "2 ^ nat (bitlen p - 1) \<le> p \<and> p < 2 ^ nat (bitlen p)"
    by (rule bitlen_bounds)
  from assms have pos: "0 < bitlen p" by (simp add: bitlen_eq_zero_iff bitlen_nonneg order_less_le)
  from b have "(of_int (2 ^ nat (bitlen p - 1)) :: rat) \<le> of_int p" by (simp only: of_int_le_iff)
  with pos show "pow2 (bitlen p - 1) \<le> of_int p" by (simp add: power_int_def)
  from b have "(of_int p :: rat) < of_int (2 ^ nat (bitlen p))" by (simp only: of_int_less_iff)
  with pos show "(of_int p :: rat) < pow2 (bitlen p)" by (simp add: power_int_def)
qed

lemma bin_exp_bounds:
  assumes "0 < x"
  shows "pow2 (bin_exp x) \<le> x" and "x < pow2 (bin_exp x + 1)"
proof -
  obtain p q where pq: "quotient_of x = (p, q)" by fastforce
  then have q: "0 < q" and x: "x = of_int p / of_int q"
    by (simp_all add: quotient_of_denom_pos quotient_of_div)
  with assms have p: "0 < p" by (simp add: zero_less_divide_iff)
  define k where "k = bitlen p - bitlen q"
  have "x < pow2 (bitlen p) / pow2 (bitlen q - 1)"
    unfolding x using bitlen_powi[OF p] bitlen_powi[OF q] p q
    by (intro frac_less) auto
  also have "\<dots> = pow2 (k + 1)"
    by (simp add: power_int_diff[symmetric] k_def algebra_simps)
  finally have up: "x < pow2 (k + 1)" .
  have "pow2 (bitlen p - 1) / pow2 (bitlen q) \<le> x"
    unfolding x using bitlen_powi[OF p] bitlen_powi[OF q] p q
    by (intro frac_le) auto
  moreover have "pow2 (bitlen p - 1) / pow2 (bitlen q) = pow2 (k - 1)"
    by (simp add: power_int_diff[symmetric] k_def algebra_simps)
  ultimately have lo: "pow2 (k - 1) \<le> x" by simp
  have e: "bin_exp x = (if pow2 k \<le> x then k else k - 1)"
    by (simp add: bin_exp_def pq k_def)
  show "pow2 (bin_exp x) \<le> x" using lo by (simp add: e)
  show "x < pow2 (bin_exp x + 1)" using up by (simp add: e)
qed

lemma round_even_error: "\<bar>of_int (round_even y) - y\<bar> \<le> 1 / 2"
proof -
  have "of_int \<lfloor>y\<rfloor> \<le> y" "y < of_int \<lfloor>y\<rfloor> + 1" by linarith+
  then show ?thesis unfolding round_even_def Let_def by (auto simp: abs_le_iff)
qed

lemma round_even_int [simp]: "round_even (of_int n) = n"
  by (simp add: round_even_def)

lemma ulp_pos [simp]: "0 < ulp x"
  by (simp add: ulp_def)

text \<open>A value in the normal range is rounded with relative error at most \<open>2\<^sup>-\<^sup>5\<^sup>3\<close>.\<close>

lemma rnd_rel_error:
  assumes lo: "pow2 (- 1022) \<le> x" and hi: "x < pow2 1023"
  obtains r where "rnd x = Finite r" and "\<bar>r - x\<bar> \<le> x * pow2 (- 53)"
proof -
  have x: "0 < x" using lo by (rule less_le_trans[rotated]) simp
  define r where "r = of_int (round_even (x / ulp x)) * ulp x"
  have "pow2 (- 1022) < pow2 (bin_exp x + 1)"
    using lo bin_exp_bounds(2)[OF x] by linarith
  then have e: "- 1022 \<le> bin_exp x" 
    using power_int_increasing[of "bin_exp x + 1" "- 1022" "2::rat"] by (cases "bin_exp x + 1 \<le> - 1022") auto
  then have u: "ulp x = pow2 (bin_exp x - 52)" using x by (simp add: ulp_def)
  have "\<bar>of_int (round_even (x / ulp x)) - x / ulp x\<bar> * ulp x \<le> 1 / 2 * ulp x"
    by (intro mult_right_mono round_even_error) (simp add: less_imp_le)
  moreover have "\<bar>of_int (round_even (x / ulp x)) - x / ulp x\<bar> * ulp x = \<bar>r - x\<bar>"
  proof -
    have "(of_int (round_even (x / ulp x)) - x / ulp x) * ulp x = r - x"
      using less_imp_neq[OF ulp_pos[of x]] by (simp add: r_def left_diff_distrib)
    then show ?thesis using ulp_pos[of x] by (metis abs_mult abs_of_pos)
  qed
  ultimately have "\<bar>r - x\<bar> \<le> 1 / 2 * ulp x" by (simp only:)
  then have "\<bar>r - x\<bar> \<le> 1 / 2 * pow2 (bin_exp x - 52)" by (simp only: u)
  also have "\<dots> = pow2 (bin_exp x) * pow2 (- 53)"
    by (simp add: power_int_diff power_int_minus field_simps)
  also have "\<dots> \<le> x * pow2 (- 53)"
    using bin_exp_bounds(1)[OF x] by (intro mult_right_mono) auto
  finally have err: "\<bar>r - x\<bar> \<le> x * pow2 (- 53)" .
  also have "\<dots> \<le> x * 1" using x by (intro mult_left_mono) (auto simp: power_int_minus)
  finally have "\<bar>r\<bar> \<le> 2 * x" using x by linarith
  also have "\<dots> < 2 * pow2 1023" using hi by simp
  also have "2 * pow2 1023 = pow2 1024"
    using power_int_add[of "2::rat" 1 1023] by simp
  finally have "rnd x = Finite r" using x by (simp add: rnd_def r_def Let_def)
  then show thesis using that err by blast
qed

text \<open>Rounding is monotone against the integers below \<open>2\<^sup>5\<^sup>3\<close>, which are all
  representable.\<close>

lemma round_even_le: "y \<le> of_int k \<Longrightarrow> round_even y \<le> k"
proof -
  assume "y \<le> of_int k"
  then have "\<lfloor>y\<rfloor> \<le> k" "\<lfloor>y\<rfloor> = k \<Longrightarrow> y = of_int k" by linarith+
  then consider "\<lfloor>y\<rfloor> + 1 \<le> k" | "y = of_int k" by linarith
  then show ?thesis unfolding round_even_def Let_def by cases auto
qed

lemma round_even_ge: "of_int k \<le> y \<Longrightarrow> k \<le> round_even y"
proof -
  assume "of_int k \<le> y"
  then have "k \<le> \<lfloor>y\<rfloor>" by (simp add: le_floor_iff)
  then show ?thesis by (simp add: round_even_def Let_def)
qed

lemma ulp_le_one:
  assumes "0 < x" "x < 2 ^ 53"
  obtains j where "ulp x = 1 / 2 ^ j"
proof -
  have "pow2 (bin_exp x) < pow2 53"
    using bin_exp_bounds(1)[OF assms(1)] assms(2) by simp
  then have "bin_exp x < 53"
    using power_int_increasing[of 53 "bin_exp x" "2::rat"] by (cases "53 \<le> bin_exp x") auto
  then have m: "max (bin_exp x - 52) (- 1074) \<le> 0" by simp
  define j where "j = nat (- max (bin_exp x - 52) (- 1074))"
  have "max (bin_exp x - 52) (- 1074) = - int j" using m by (simp add: j_def)
  then have "ulp x = 1 / 2 ^ j"
    unfolding ulp_def using assms(1) by (simp add: power_int_minus inverse_eq_divide)
  then show thesis by (rule that)
qed

lemma rnd_between:
  assumes "of_int m \<le> x" "x \<le> of_int n" "0 \<le> m" "n < 2 ^ 53"
  obtains r where "rnd x = Finite r" "of_int m \<le> r" "r \<le> of_int n"
proof (cases "x = 0")
  case True
  then show thesis using that[of 0] assms by (simp add: rnd_def)
next
  case False
  have mr: "(0::rat) \<le> of_int m" using assms(3) by simp
  have nr: "(of_int n :: rat) < 2 ^ 53"
    using assms(4) by (metis of_int_less_iff of_int_numeral of_int_power)
  have x: "0 < x" "x < 2 ^ 53" using False mr nr assms(1,2) by linarith+
  then obtain j where u: "ulp x = 1 / 2 ^ j" by (rule ulp_le_one)
  define k where "k = round_even (x / ulp x)"
  have "x * 2 ^ j \<le> of_int (n * 2 ^ j)" "of_int (m * 2 ^ j) \<le> x * 2 ^ j"
    using assms(1,2) by (simp_all add: mult_right_mono)
  then have "k \<le> n * 2 ^ j" "m * 2 ^ j \<le> k"
    unfolding k_def u by (auto intro: round_even_le round_even_ge)
  then have "(of_int k :: rat) \<le> of_int (n * 2 ^ j)" "of_int (m * 2 ^ j) \<le> (of_int k :: rat)"
    by (simp_all only: of_int_le_iff)
  then have r: "of_int k * ulp x \<le> of_int n" "of_int m \<le> of_int k * ulp x"
    by (simp_all add: u field_simps)
  have "\<bar>of_int k * ulp x\<bar> < pow2 1024"
  proof -
    have "\<bar>of_int k * ulp x\<bar> < 2 ^ 53" using r nr mr by linarith
    also have "(2 ^ 53 :: rat) \<le> pow2 1024" using power_int_increasing[of 53 1024 "2::rat"] by simp
    finally show ?thesis .
  qed
  then have "rnd x = Finite (of_int k * ulp x)" using False by (simp add: rnd_def k_def Let_def not_le)
  then show thesis using r by (intro that)
qed

lemma f64_of_int_exact: "0 \<le> n \<Longrightarrow> n < 2 ^ 53 \<Longrightarrow> f64_of_int n = Finite (of_int n)"
  by (rule rnd_between[of n "of_int n" n]) (auto simp: f64_of_int_def)

end
