(* ===== verification/Core_Types.thy ===== *)
theory Core_Types
  imports F64
begin

text \<open>
  The journal/submitter contract of \<^verbatim>\<open>tm-core/src/types.rs\<close>: the two kinds of find, the
  nine lifecycle states with their database spelling, the immutable payload, the journaled
  record and the classifier's verdict.  \<^verbatim>\<open>i32\<close>, \<^verbatim>\<open>i64\<close> fields are \<^typ>\<open>int\<close>; the
  \<^verbatim>\<open>u32\<close> memory cost and \<^verbatim>\<open>u64\<close> attempt count are \<^typ>\<open>nat\<close>.
\<close>

datatype find_kind = Xen11 | Xuni

fun kind_as_str :: "find_kind \<Rightarrow> string" where
  "kind_as_str Xen11 = ''XEN11''"
| "kind_as_str Xuni = ''XUNI''"

definition kind_parse :: "string \<Rightarrow> find_kind option" where
  "kind_parse s =
     (if s = ''XEN11'' then Some Xen11 else if s = ''XUNI'' then Some Xuni else None)"

datatype find_status =
    Pending
  | Submitting
  | AcceptedUnconfirmed
  | Acked
  | ParkedDifficulty
  | ParkedXuniWindow
  | Quarantined
  | Dead
  | PermanentlyInvalid

fun status_as_str :: "find_status \<Rightarrow> string" where
  "status_as_str Pending = ''Pending''"
| "status_as_str Submitting = ''Submitting''"
| "status_as_str AcceptedUnconfirmed = ''AcceptedUnconfirmed''"
| "status_as_str Acked = ''Acked''"
| "status_as_str ParkedDifficulty = ''ParkedDifficulty''"
| "status_as_str ParkedXuniWindow = ''ParkedXuniWindow''"
| "status_as_str Quarantined = ''Quarantined''"
| "status_as_str Dead = ''Dead''"
| "status_as_str PermanentlyInvalid = ''PermanentlyInvalid''"

definition status_parse :: "string \<Rightarrow> find_status option" where
  "status_parse s =
     (if s = ''Pending'' then Some Pending
      else if s = ''Submitting'' then Some Submitting
      else if s = ''AcceptedUnconfirmed'' then Some AcceptedUnconfirmed
      else if s = ''Acked'' then Some Acked
      else if s = ''ParkedDifficulty'' then Some ParkedDifficulty
      else if s = ''ParkedXuniWindow'' then Some ParkedXuniWindow
      else if s = ''Quarantined'' then Some Quarantined
      else if s = ''Dead'' then Some Dead
      else if s = ''PermanentlyInvalid'' then Some PermanentlyInvalid
      else None)"

fun is_terminal :: "find_status \<Rightarrow> bool" where
  "is_terminal Acked = True"
| "is_terminal Dead = True"
| "is_terminal PermanentlyInvalid = True"
| "is_terminal _ = False"

record found_payload =
  p_key :: string
  p_hash_to_verify :: string
  p_account :: string
  p_kind :: find_kind
  p_memory_cost :: nat
  p_worker :: string
  p_attempts :: nat
  p_hashes_per_second :: f64
  p_found_at_utc :: string

record find_record =
  r_id :: int
  r_payload :: found_payload
  r_status :: find_status
  r_status_reason :: string
  r_attempt_count :: int
  r_next_attempt_at :: "string option"
  r_last_attempt_at :: "string option"
  r_last_http_status :: "int option"
  r_last_response :: string
  r_confirmed_at :: "string option"
  r_xuni_windows_tried :: int

definition find_record_new :: "found_payload \<Rightarrow> find_record" where
  "find_record_new payload =
     \<lparr> r_id = - 1, r_payload = payload, r_status = Pending, r_status_reason = [],
       r_attempt_count = 0, r_next_attempt_at = None, r_last_attempt_at = None,
       r_last_http_status = None, r_last_response = [], r_confirmed_at = None,
       r_xuni_windows_tried = 0 \<rparr>"

record classification =
  c_next_status :: find_status
  c_server_difficulty_hint :: "nat option"
  c_needs_lookup_confirmation :: bool
  c_reason :: string

lemma kind_parse_as_str [simp]: "kind_parse (kind_as_str k) = Some k"
  by (cases k) (simp_all add: kind_parse_def)

lemma status_parse_as_str [simp]: "status_parse (status_as_str s) = Some s"
  by (cases s) (simp_all add: status_parse_def)

lemma status_as_str_inj: "status_as_str s = status_as_str t \<Longrightarrow> s = t"
  by (metis option.inject status_parse_as_str)

lemma is_terminal_iff: "is_terminal s \<longleftrightarrow> s \<in> {Acked, Dead, PermanentlyInvalid}"
  by (cases s) auto

text \<open>C29.  the status column round-trips through the database text, and nothing else parses: the
  nine strings of the schema are exactly the texts \<^verbatim>\<open>FindStatus::parse\<close> accepts.\<close>

theorem status_text_roundtrip:
  "status_parse (status_as_str s) = Some s \<and>
   (\<forall>s' t. (status_parse s' = Some t) = (s' = status_as_str t))"
proof (intro conjI allI)
  fix s' t
  show "(status_parse s' = Some t) = (s' = status_as_str t)"
    by (cases t) (auto simp: status_parse_def split: if_splits)
qed simp

end
