(* ===== verification/Transition_Systems.thy ===== *)
theory Transition_Systems
  imports Main
begin

text \<open>
  Labelled transition systems over explicit states: the executions of a component are event
  sequences, \<open>run\<close> folds a deterministic step over one, and the locale \<open>invariant_system\<close>
  packages the obligation every stateful component discharges for its operations.
\<close>

fun run :: "('s \<Rightarrow> 'e \<Rightarrow> 's) \<Rightarrow> 's \<Rightarrow> 'e list \<Rightarrow> 's" where
  "run step s [] = s"
| "run step s (e # es) = run step (step s e) es"

lemma run_append [simp]: "run step s (es @ fs) = run step (run step s es) fs"
  by (induction es arbitrary: s) auto

inductive reachable :: "('s \<Rightarrow> bool) \<Rightarrow> ('s \<Rightarrow> 'e \<Rightarrow> 's) \<Rightarrow> ('e \<Rightarrow> bool) \<Rightarrow> 's \<Rightarrow> bool"
  for init :: "'s \<Rightarrow> bool" and step :: "'s \<Rightarrow> 'e \<Rightarrow> 's" and enabled :: "'e \<Rightarrow> bool"
where
  start: "init s \<Longrightarrow> reachable init step enabled s"
| advance: "reachable init step enabled s \<Longrightarrow> enabled e \<Longrightarrow> reachable init step enabled (step s e)"

lemma reachable_run:
  "reachable init step enabled s \<Longrightarrow> list_all enabled es \<Longrightarrow> reachable init step enabled (run step s es)"
  by (induction es arbitrary: s) (auto intro: reachable.advance)

text \<open>The contract of a component: its initial states satisfy the invariant and every enabled
  event keeps it.  A transition property is a relation every step establishes from the invariant.\<close>

locale invariant_system =
  fixes init :: "'s \<Rightarrow> bool"
    and step :: "'s \<Rightarrow> 'e \<Rightarrow> 's"
    and enabled :: "'e \<Rightarrow> bool"
    and inv :: "'s \<Rightarrow> bool"
  assumes init_inv: "init s \<Longrightarrow> inv s"
    and step_inv: "inv s \<Longrightarrow> enabled e \<Longrightarrow> inv (step s e)"
begin

lemma reachable_inv: "reachable init step enabled s \<Longrightarrow> inv s"
  by (induction rule: reachable.induct) (auto intro: init_inv step_inv)

lemma run_inv: "inv s \<Longrightarrow> list_all enabled es \<Longrightarrow> inv (run step s es)"
  by (induction es arbitrary: s) (auto intro: step_inv)

text \<open>A preorder that every step respects from an invariant state relates the ends of a run.\<close>

lemma run_ordered:
  assumes step_le: "\<And>s e. inv s \<Longrightarrow> enabled e \<Longrightarrow> le s (step s e)"
    and refl: "\<And>s. le s s" and trans: "\<And>a b c. le a b \<Longrightarrow> le b c \<Longrightarrow> le a c"
  shows "inv s \<Longrightarrow> list_all enabled es \<Longrightarrow> le s (run step s es)"
proof (induction es arbitrary: s)
  case Nil
  then show ?case by (simp add: refl)
next
  case (Cons e es)
  then have "le s (step s e)" "le (step s e) (run step (step s e) es)"
    using step_le step_inv by auto
  then show ?case using trans by simp
qed

end

text \<open>A functional refinement: an abstraction that commutes with every enabled step carries
  whole runs to runs of the specification.\<close>

locale functional_refinement = invariant_system +
  fixes absf :: "'a \<Rightarrow> 't"
    and astep :: "'t \<Rightarrow> 'b \<Rightarrow> 't"
  assumes commutes: "inv s \<Longrightarrow> enabled e \<Longrightarrow> absf (step s e) = astep (absf s) e"
begin

lemma run_refines: "inv s \<Longrightarrow> list_all enabled es \<Longrightarrow> absf (run step s es) = run astep (absf s) es"
  by (induction es arbitrary: s) (auto simp: commutes step_inv)

end

end
