(* ===== verification/Journal.thy ===== *)
theory Journal
  imports Core_Types Transition_Systems
begin

text \<open>
  \<^verbatim>\<open>tm-journal/src/journal.rs\<close>: the durable find journal.  The SQLite database is a record of
  its tables, each a list of rows in insertion order with the columns of the schema in their
  stored form (text for the enums, \<^verbatim>\<open>NULL\<close> as \<^term>\<open>None\<close>); each SQL statement of the source is
  the list operation it denotes.  The engine itself is not part of the repository: whether a call
  fails, and with which message, is the argument \<open>io\<close> (an answer per error context of the
  source), and the row id an insert receives is the argument \<open>new_rowid\<close>, used under the
  hypothesis \<open>rowid_fresh\<close> that SQLite documents for an \<^verbatim>\<open>INTEGER PRIMARY KEY\<close> below its
  64-bit limit.  A statement that fails, and a transaction that is not committed, leave the
  database as it was.
\<close>

subsection \<open>Tables\<close>

record sql_row =
  q_id :: int
  q_key :: string
  q_hash_to_verify :: string
  q_account :: string
  q_kind :: string
  q_m :: int
  q_worker :: "string option"
  q_attempts :: "int option"
  q_hashes_per_second :: "f64 option"
  q_found_at :: string
  q_status :: string
  q_status_reason :: "string option"
  q_attempt_count :: int
  q_next_attempt_at :: "string option"
  q_last_attempt_at :: "string option"
  q_last_http_status :: "int option"
  q_last_response :: "string option"
  q_confirmed_at :: "string option"
  q_xuni_windows_tried :: int

record journal_db =
  finds :: "sql_row list"
  schema_version :: "int list"
  difficulty_seen :: "(string \<times> int) list"

definition empty_db :: journal_db where
  "empty_db = \<lparr> finds = [], schema_version = [], difficulty_seen = [] \<rparr>"

datatype journal_error =
    JSqlite string string
  | JSchema string
  | JContract string

fun journal_error_text :: "journal_error \<Rightarrow> string" where
  "journal_error_text (JSqlite context src) = ''journal: '' @ context @ '': '' @ src"
| "journal_error_text (JSchema s) = ''journal: '' @ s"
| "journal_error_text (JContract s) = ''journal: '' @ s"

type_synonym 'a jresult = "journal_error + 'a"
type_synonym sql_io = "string \<Rightarrow> string option"

definition sql_call :: "sql_io \<Rightarrow> string \<Rightarrow> unit jresult" where
  "sql_call io context =
     (case io context of None \<Rightarrow> Inr () | Some src \<Rightarrow> Inl (JSqlite context src))"

text \<open>The outcome of a transaction: an error rolls back.\<close>

fun settle :: "journal_db \<Rightarrow> ('a \<times> journal_db) jresult \<Rightarrow> 'a jresult \<times> journal_db" where
  "settle db (Inl e) = (Inl e, db)"
| "settle db (Inr (a, db')) = (Inr a, db')"

definition MAX_HASH_TO_VERIFY_LENGTH :: nat where "MAX_HASH_TO_VERIFY_LENGTH = 150"
definition SUPPORTED_SCHEMA_VERSION :: int where "SUPPORTED_SCHEMA_VERSION = 1"

subsection \<open>Opening\<close>

definition apply_pragmas :: "sql_io \<Rightarrow> string \<Rightarrow> unit jresult" where
  "apply_pragmas io mode =
     rbind (sql_call io ''busy_timeout'') (\<lambda>_.
     rbind (sql_call io ''PRAGMA journal_mode'') (\<lambda>_.
     if map to_ascii_lower mode \<noteq> ''wal''
     then Inl (JSchema ''could not enable WAL journal mode at this path'')
     else
       rbind (sql_call io ''PRAGMA synchronous'') (\<lambda>_.
       sql_call io ''PRAGMA foreign_keys'')))"

definition ensure_schema :: "sql_io \<Rightarrow> journal_db \<Rightarrow> unit jresult \<times> journal_db" where
  "ensure_schema io db =
     settle db
       (rbind (sql_call io ''create schema'') (\<lambda>_.
        rbind (sql_call io ''read schema_version'') (\<lambda>_.
        (if schema_version db = [] then
           rbind (sql_call io ''write schema_version'') (\<lambda>_.
             Inr ((), db\<lparr> schema_version := [SUPPORTED_SCHEMA_VERSION] \<rparr>))
         else
           let v = Max (set (schema_version db))
           in if v \<noteq> SUPPORTED_SCHEMA_VERSION
              then Inl (JSchema (''unsupported schema_version '' @ show_int v
                     @ '' (supported: '' @ show_int SUPPORTED_SCHEMA_VERSION @ '')''))
              else Inr ((), db)))))"

definition journal_open :: "sql_io \<Rightarrow> string \<Rightarrow> string \<Rightarrow> journal_db \<Rightarrow> unit jresult \<times> journal_db" where
  "journal_open io path mode db =
     (case rbind (case io ''open'' of
                    None \<Rightarrow> Inr ()
                  | Some src \<Rightarrow> Inl (JSqlite (''open '' @ [CHR 0x27] @ path @ [CHR 0x27]) src))
             (\<lambda>_. apply_pragmas io mode) of
        Inl e \<Rightarrow> (Inl e, db)
      | Inr _ \<Rightarrow> ensure_schema io db)"

subsection \<open>Reading rows\<close>

definition quote_text :: "string \<Rightarrow> string" where
  "quote_text t = [CHR 0x27] @ t @ [CHR 0x27]"

definition status_from_str :: "string \<Rightarrow> find_status jresult" where
  "status_from_str t =
     (case status_parse t of
        Some s \<Rightarrow> Inr s
      | None \<Rightarrow> Inl (JSchema (''unknown status string in database: '' @ quote_text t)))"

definition kind_from_str :: "string \<Rightarrow> find_kind jresult" where
  "kind_from_str t =
     (case kind_parse t of
        Some k \<Rightarrow> Inr k
      | None \<Rightarrow> Inl (JSchema (''unknown kind string in database: '' @ quote_text t)))"

definition or_default :: "'a \<Rightarrow> 'a option \<Rightarrow> 'a" where
  "or_default d v = (case v of None \<Rightarrow> d | Some x \<Rightarrow> x)"

lemma or_default_Some [simp]: "or_default d (Some x) = x"
  by (simp add: or_default_def)

definition row_to_record :: "sql_io \<Rightarrow> sql_row \<Rightarrow> find_record jresult" where
  "row_to_record io row =
     rbind (sql_call io ''read column'') (\<lambda>_.
     rbind (kind_from_str (q_kind row)) (\<lambda>kind.
     rbind (status_from_str (q_status row)) (\<lambda>status.
     Inr \<lparr> r_id = q_id row,
           r_payload =
             \<lparr> p_key = q_key row, p_hash_to_verify = q_hash_to_verify row,
               p_account = q_account row, p_kind = kind,
               p_memory_cost = nat (q_m row mod 2 ^ 32),
               p_worker = or_default [] (q_worker row),
               p_attempts = nat (or_default 0 (q_attempts row) mod 2 ^ 64),
               p_hashes_per_second = or_default (Finite 0) (q_hashes_per_second row),
               p_found_at_utc = q_found_at row \<rparr>,
           r_status = status,
           r_status_reason = or_default [] (q_status_reason row),
           r_attempt_count = wrap_i32 (q_attempt_count row),
           r_next_attempt_at = q_next_attempt_at row,
           r_last_attempt_at = q_last_attempt_at row,
           r_last_http_status = map_option wrap_i32 (q_last_http_status row),
           r_last_response = or_default [] (q_last_response row),
           r_confirmed_at = q_confirmed_at row,
           r_xuni_windows_tried = wrap_i32 (q_xuni_windows_tried row) \<rparr>)))"

definition text_or_null :: "string \<Rightarrow> string option" where
  "text_or_null value = (if value = [] then None else Some value)"

text \<open>\<^verbatim>\<open>LIMIT n\<close>: a negative limit is no limit.\<close>

definition sql_limit :: "int \<Rightarrow> 'a list \<Rightarrow> 'a list" where
  "sql_limit n xs = (if n < 0 then xs else take (nat n) xs)"

definition row_due :: "string \<Rightarrow> sql_row \<Rightarrow> bool" where
  "row_due now_utc row =
     (case q_next_attempt_at row of None \<Rightarrow> True | Some t \<Rightarrow> text_le t now_utc)"

definition select_rows :: "string \<Rightarrow> string option \<Rightarrow> string \<Rightarrow> sql_row list \<Rightarrow> sql_row list" where
  "select_rows status kind now_utc rows =
     filter (\<lambda>row. q_status row = status
       \<and> (case kind of None \<Rightarrow> True | Some k \<Rightarrow> q_kind row = k)
       \<and> row_due now_utc row) rows"

definition fetch_by_status ::
  "sql_io \<Rightarrow> string \<Rightarrow> string option \<Rightarrow> string \<Rightarrow> nat \<Rightarrow> journal_db \<Rightarrow> find_record list jresult" where
  "fetch_by_status io status kind now_utc limit db =
     rbind (sql_call io ''prepare fetch'') (\<lambda>_.
     rbind (sql_call io ''query fetch'') (\<lambda>_.
     rbind (sql_call io ''step fetch'') (\<lambda>_.
       rmapM (row_to_record io)
         (sql_limit (wrap_i64 (int limit))
           (sort_key q_id (select_rows status kind now_utc (finds db)))))))"

definition fetch_eligible :: "sql_io \<Rightarrow> string \<Rightarrow> nat \<Rightarrow> journal_db \<Rightarrow> find_record list jresult" where
  "fetch_eligible io now_utc limit db = fetch_by_status io ''Pending'' None now_utc limit db"

definition fetch_eligible_of_kind ::
  "sql_io \<Rightarrow> find_kind \<Rightarrow> string \<Rightarrow> nat \<Rightarrow> journal_db \<Rightarrow> find_record list jresult" where
  "fetch_eligible_of_kind io kind now_utc limit db =
     fetch_by_status io ''Pending'' (Some (kind_as_str kind)) now_utc limit db"

definition fetch_awaiting_confirmation ::
  "sql_io \<Rightarrow> string \<Rightarrow> nat \<Rightarrow> journal_db \<Rightarrow> find_record list jresult" where
  "fetch_awaiting_confirmation io now_utc limit db =
     fetch_by_status io ''AcceptedUnconfirmed'' None now_utc limit db"

definition get_by_id :: "sql_io \<Rightarrow> int \<Rightarrow> journal_db \<Rightarrow> find_record option jresult" where
  "get_by_id io i db =
     rbind (sql_call io ''prepare getById'') (\<lambda>_.
     rbind (sql_call io ''query getById'') (\<lambda>_.
     rbind (sql_call io ''step getById'') (\<lambda>_.
       case find (\<lambda>row. q_id row = i) (finds db) of
         Some row \<Rightarrow> rbind (row_to_record io row) (\<lambda>r. Inr (Some r))
       | None \<Rightarrow> Inr None)))"

subsection \<open>Writing rows\<close>

definition initial_status :: "found_payload \<Rightarrow> find_status \<times> string" where
  "initial_status payload =
     (if MAX_HASH_TO_VERIFY_LENGTH < length (p_hash_to_verify payload) then
        (PermanentlyInvalid,
         ''hash_to_verify length '' @ show_nat (length (p_hash_to_verify payload))
           @ '' exceeds server limit of '' @ show_nat MAX_HASH_TO_VERIFY_LENGTH)
      else if p_account payload = [] then (PermanentlyInvalid, ''account is empty'')
      else (Pending, []))"

text \<open>The columns the insert names; the others take their defaults.  SQLite stores a NaN as
  \<^verbatim>\<open>NULL\<close>.\<close>

definition insert_row :: "int \<Rightarrow> found_payload \<Rightarrow> sql_row" where
  "insert_row i payload =
     (let (status, reason) = initial_status payload
      in \<lparr> q_id = i, q_key = p_key payload, q_hash_to_verify = p_hash_to_verify payload,
           q_account = p_account payload, q_kind = kind_as_str (p_kind payload),
           q_m = int (p_memory_cost payload), q_worker = text_or_null (p_worker payload),
           q_attempts = Some (wrap_i64 (int (p_attempts payload))),
           q_hashes_per_second =
             (case p_hashes_per_second payload of NaN \<Rightarrow> None | h \<Rightarrow> Some h),
           q_found_at = p_found_at_utc payload, q_status = status_as_str status,
           q_status_reason = text_or_null reason, q_attempt_count = 0,
           q_next_attempt_at = None, q_last_attempt_at = None, q_last_http_status = None,
           q_last_response = None, q_confirmed_at = None, q_xuni_windows_tried = 0 \<rparr>)"

definition append_find ::
  "sql_io \<Rightarrow> (int list \<Rightarrow> int) \<Rightarrow> found_payload \<Rightarrow> journal_db \<Rightarrow> int jresult \<times> journal_db" where
  "append_find io new_rowid payload db =
     settle db
       (rbind (sql_call io ''BEGIN IMMEDIATE'') (\<lambda>_.
        rbind (sql_call io ''insert find'') (\<lambda>_.
        rbind
          (case find (\<lambda>row. q_key row = p_key payload) (finds db) of
             Some row \<Rightarrow>
               rbind (sql_call io ''select existing find'') (\<lambda>_. Inr (q_id row, db))
           | None \<Rightarrow>
               let i = new_rowid (map q_id (finds db))
               in Inr (i, db\<lparr> finds := finds db @ [insert_row i payload] \<rparr>))
          (\<lambda>res. rbind (sql_call io ''COMMIT append'') (\<lambda>_. Inr res)))))"

definition attempt_update ::
  "classification \<Rightarrow> int option \<Rightarrow> string \<Rightarrow> string option \<Rightarrow> string \<Rightarrow> sql_row \<Rightarrow> sql_row" where
  "attempt_update cls http_status response_body next_attempt_at now_utc row =
     row\<lparr> q_status := status_as_str (c_next_status cls),
          q_status_reason := text_or_null (c_reason cls),
          q_attempt_count := q_attempt_count row + 1,
          q_last_attempt_at := Some now_utc,
          q_last_http_status := http_status,
          q_last_response := Some response_body,
          q_next_attempt_at := next_attempt_at,
          q_confirmed_at :=
            (if status_as_str (c_next_status cls) = ''Acked''
             then (case q_confirmed_at row of Some t \<Rightarrow> Some t | None \<Rightarrow> Some now_utc)
             else q_confirmed_at row) \<rparr>"

definition update_where :: "(sql_row \<Rightarrow> bool) \<Rightarrow> (sql_row \<Rightarrow> sql_row) \<Rightarrow> journal_db \<Rightarrow> journal_db" where
  "update_where P f db = db\<lparr> finds := map (\<lambda>row. if P row then f row else row) (finds db) \<rparr>"

definition count_where :: "(sql_row \<Rightarrow> bool) \<Rightarrow> journal_db \<Rightarrow> nat" where
  "count_where P db = length (filter P (finds db))"

definition record_attempt ::
  "sql_io \<Rightarrow> int \<Rightarrow> classification \<Rightarrow> int option \<Rightarrow> string \<Rightarrow> string option \<Rightarrow> string
     \<Rightarrow> journal_db \<Rightarrow> unit jresult \<times> journal_db" where
  "record_attempt io i cls http_status response_body next_attempt_at now_utc db =
     settle db
       (if c_next_status cls = Submitting then
          Inl (JContract (''record_attempt with status Submitting ''
            @ [CHR 0xE2, CHR 0x80, CHR 0x94]
            @ '' that state is in-process only and must never be persisted''))
        else
          rbind (sql_call io ''record attempt'') (\<lambda>_.
            if count_where (\<lambda>row. q_id row = i) db = 0
            then Inl (JContract (''record_attempt for unknown find id '' @ show_int i))
            else Inr ((),
              update_where (\<lambda>row. q_id row = i)
                (attempt_update cls http_status response_body next_attempt_at now_utc) db)))"

definition unpark_for_difficulty :: "sql_io \<Rightarrow> nat \<Rightarrow> journal_db \<Rightarrow> nat jresult \<times> journal_db" where
  "unpark_for_difficulty io current_difficulty db =
     (let P = (\<lambda>row. q_status row = ''ParkedDifficulty'' \<and> int current_difficulty \<le> q_m row)
      in settle db
        (rbind (sql_call io ''unpark for difficulty'') (\<lambda>_.
           Inr (count_where P db,
             update_where P
               (\<lambda>row. row\<lparr> q_status := ''Pending'', q_next_attempt_at := None \<rparr>) db))))"

definition exhaust_row :: "sql_row \<Rightarrow> sql_row" where
  "exhaust_row row =
     row\<lparr> q_status := ''Dead'', q_status_reason := Some ''xuni window budget exhausted'',
          q_next_attempt_at := None \<rparr>"

definition readmit_row :: "sql_row \<Rightarrow> sql_row" where
  "readmit_row row =
     row\<lparr> q_status := ''Pending'', q_xuni_windows_tried := q_xuni_windows_tried row + 1,
          q_next_attempt_at := None \<rparr>"

definition unpark_xuni_for_window :: "sql_io \<Rightarrow> int \<Rightarrow> journal_db \<Rightarrow> nat jresult \<times> journal_db" where
  "unpark_xuni_for_window io max_windows db =
     settle db
       (rbind (sql_call io ''BEGIN IMMEDIATE'') (\<lambda>_.
        rbind (sql_call io ''exhaust xuni budget'') (\<lambda>_.
        let db1 = update_where
              (\<lambda>row. q_status row = ''ParkedXuniWindow'' \<and> max_windows \<le> q_xuni_windows_tried row)
              exhaust_row db
        in
        rbind (sql_call io ''unpark xuni'') (\<lambda>_.
        let P = (\<lambda>row. q_status row = ''ParkedXuniWindow'');
            unparked = count_where P db1;
            db2 = update_where P readmit_row db1
        in
        rbind (sql_call io ''COMMIT unpark xuni'') (\<lambda>_. Inr (unparked, db2))))))"

subsection \<open>Recovery, difficulty log and counters\<close>

record recovery_stats =
  rs_pending :: nat
  rs_accepted_unconfirmed :: nat
  rs_parked_difficulty :: nat
  rs_parked_xuni :: nat
  rs_quarantined :: nat
  rs_acked :: nat
  rs_dead :: nat
  rs_invalid :: nat

definition zero_recovery_stats :: recovery_stats where
  "zero_recovery_stats =
     \<lparr> rs_pending = 0, rs_accepted_unconfirmed = 0, rs_parked_difficulty = 0, rs_parked_xuni = 0,
       rs_quarantined = 0, rs_acked = 0, rs_dead = 0, rs_invalid = 0 \<rparr>"

fun tally_recovery :: "find_status \<Rightarrow> nat \<Rightarrow> recovery_stats \<Rightarrow> recovery_stats" where
  "tally_recovery Pending n st = st\<lparr> rs_pending := rs_pending st + n \<rparr>"
| "tally_recovery AcceptedUnconfirmed n st =
     st\<lparr> rs_accepted_unconfirmed := rs_accepted_unconfirmed st + n \<rparr>"
| "tally_recovery ParkedDifficulty n st = st\<lparr> rs_parked_difficulty := rs_parked_difficulty st + n \<rparr>"
| "tally_recovery ParkedXuniWindow n st = st\<lparr> rs_parked_xuni := rs_parked_xuni st + n \<rparr>"
| "tally_recovery Quarantined n st = st\<lparr> rs_quarantined := rs_quarantined st + n \<rparr>"
| "tally_recovery Acked n st = st\<lparr> rs_acked := rs_acked st + n \<rparr>"
| "tally_recovery Dead n st = st\<lparr> rs_dead := rs_dead st + n \<rparr>"
| "tally_recovery PermanentlyInvalid n st = st\<lparr> rs_invalid := rs_invalid st + n \<rparr>"
| "tally_recovery Submitting n st = st"

text \<open>\<^verbatim>\<open>SELECT k, COUNT(*) ... GROUP BY k\<close>: one row per distinct value.\<close>

definition group_count :: "(sql_row \<Rightarrow> 'k) \<Rightarrow> sql_row list \<Rightarrow> ('k \<times> nat) list" where
  "group_count g rows =
     map (\<lambda>k. (k, length (filter (\<lambda>row. g row = k) rows))) (remdups (map g rows))"

fun recovery_loop ::
  "sql_io \<Rightarrow> (string \<times> nat) list \<Rightarrow> recovery_stats \<Rightarrow> recovery_stats jresult" where
  "recovery_loop io [] st = Inr st"
| "recovery_loop io ((status, n) # groups) st =
     rbind (sql_call io ''read status'') (\<lambda>_.
     rbind (sql_call io ''read count'') (\<lambda>_.
     rbind (status_from_str status) (\<lambda>s. recovery_loop io groups (tally_recovery s n st))))"

definition recover_on_startup :: "sql_io \<Rightarrow> journal_db \<Rightarrow> recovery_stats jresult \<times> journal_db" where
  "recover_on_startup io db =
     settle db
       (rbind (sql_call io ''BEGIN IMMEDIATE'') (\<lambda>_.
        rbind (sql_call io ''recover Submitting leftovers'') (\<lambda>_.
        let db1 = update_where (\<lambda>row. q_status row = ''Submitting'')
                    (\<lambda>row. row\<lparr> q_status := ''Pending'' \<rparr>) db
        in
        rbind (sql_call io ''prepare recovery counts'') (\<lambda>_.
        rbind (sql_call io ''query recovery counts'') (\<lambda>_.
        rbind (sql_call io ''step recovery counts'') (\<lambda>_.
        rbind (recovery_loop io (group_count q_status (finds db1)) zero_recovery_stats) (\<lambda>stats.
        rbind (sql_call io ''COMMIT recovery'') (\<lambda>_. Inr (stats, db1)))))))))"

definition record_difficulty :: "sql_io \<Rightarrow> nat \<Rightarrow> string \<Rightarrow> journal_db \<Rightarrow> unit jresult \<times> journal_db" where
  "record_difficulty io difficulty at_utc db =
     settle db
       (rbind (sql_call io ''record difficulty'') (\<lambda>_.
          Inr ((), db\<lparr> difficulty_seen := difficulty_seen db @ [(at_utc, int difficulty)] \<rparr>)))"

definition last_known_difficulty :: "sql_io \<Rightarrow> journal_db \<Rightarrow> nat option jresult" where
  "last_known_difficulty io db =
     rbind (sql_call io ''last known difficulty'') (\<lambda>_.
       Inr (if difficulty_seen db = [] then None
            else Some (nat (snd (last (difficulty_seen db)) mod 2 ^ 32))))"

record journal_counts =
  jc_pending :: nat
  jc_parked :: nat
  jc_parked_difficulty :: nat
  jc_parked_xuni :: nat
  jc_quarantined :: nat
  jc_acked_total :: nat
  jc_dead_total :: nat
  jc_accepted_unconfirmed :: nat
  jc_permanently_invalid :: nat
  jc_queued_xen11 :: nat
  jc_queued_xuni :: nat

definition zero_counts :: journal_counts where
  "zero_counts =
     \<lparr> jc_pending = 0, jc_parked = 0, jc_parked_difficulty = 0, jc_parked_xuni = 0,
       jc_quarantined = 0, jc_acked_total = 0, jc_dead_total = 0, jc_accepted_unconfirmed = 0,
       jc_permanently_invalid = 0, jc_queued_xen11 = 0, jc_queued_xuni = 0 \<rparr>"

fun tally_status :: "find_status \<Rightarrow> nat \<Rightarrow> journal_counts \<Rightarrow> journal_counts" where
  "tally_status Pending n c = c\<lparr> jc_pending := jc_pending c + n \<rparr>"
| "tally_status ParkedDifficulty n c =
     c\<lparr> jc_parked := jc_parked c + n, jc_parked_difficulty := jc_parked_difficulty c + n \<rparr>"
| "tally_status ParkedXuniWindow n c =
     c\<lparr> jc_parked := jc_parked c + n, jc_parked_xuni := jc_parked_xuni c + n \<rparr>"
| "tally_status Quarantined n c = c\<lparr> jc_quarantined := jc_quarantined c + n \<rparr>"
| "tally_status Acked n c = c\<lparr> jc_acked_total := jc_acked_total c + n \<rparr>"
| "tally_status Dead n c = c\<lparr> jc_dead_total := jc_dead_total c + n \<rparr>"
| "tally_status AcceptedUnconfirmed n c =
     c\<lparr> jc_accepted_unconfirmed := jc_accepted_unconfirmed c + n \<rparr>"
| "tally_status PermanentlyInvalid n c =
     c\<lparr> jc_permanently_invalid := jc_permanently_invalid c + n \<rparr>"
| "tally_status Submitting n c = c"

definition tally_counts :: "find_status \<Rightarrow> find_kind \<Rightarrow> nat \<Rightarrow> journal_counts \<Rightarrow> journal_counts" where
  "tally_counts status kind n c0 =
     (let c = tally_status status n c0
      in if status = Pending \<or> status = AcceptedUnconfirmed then
           (case kind of
              Xen11 \<Rightarrow> c\<lparr> jc_queued_xen11 := jc_queued_xen11 c + n \<rparr>
            | Xuni \<Rightarrow> c\<lparr> jc_queued_xuni := jc_queued_xuni c + n \<rparr>)
         else c)"

fun counts_loop ::
  "sql_io \<Rightarrow> ((string \<times> string) \<times> nat) list \<Rightarrow> journal_counts \<Rightarrow> journal_counts jresult" where
  "counts_loop io [] c = Inr c"
| "counts_loop io (((status, kind), n) # groups) c =
     rbind (sql_call io ''read status'') (\<lambda>_.
     rbind (status_from_str status) (\<lambda>s.
     rbind (sql_call io ''read kind'') (\<lambda>_.
     rbind (kind_from_str kind) (\<lambda>k.
     rbind (sql_call io ''read count'') (\<lambda>_. counts_loop io groups (tally_counts s k n c))))))"

definition counts :: "sql_io \<Rightarrow> journal_db \<Rightarrow> journal_counts jresult" where
  "counts io db =
     rbind (sql_call io ''prepare counts'') (\<lambda>_.
     rbind (sql_call io ''query counts'') (\<lambda>_.
     rbind (sql_call io ''step counts'') (\<lambda>_.
       counts_loop io (group_count (\<lambda>row. (q_status row, q_kind row)) (finds db)) zero_counts)))"

subsection \<open>The journal as a transition system\<close>

datatype journal_op =
    OpAppend found_payload
  | OpRecordAttempt int classification "int option" string "string option" string
  | OpUnparkDifficulty nat
  | OpUnparkXuni int
  | OpRecover
  | OpRecordDifficulty nat string

text \<open>One call with its engine answers; reads change nothing and are left out.\<close>

fun journal_step ::
  "(int list \<Rightarrow> int) \<Rightarrow> journal_db \<Rightarrow> sql_io \<times> journal_op \<Rightarrow> journal_db" where
  "journal_step alloc db (io, OpAppend p) = snd (append_find io alloc p db)"
| "journal_step alloc db (io, OpRecordAttempt i cls st body nxt now) =
     snd (record_attempt io i cls st body nxt now db)"
| "journal_step alloc db (io, OpUnparkDifficulty d) = snd (unpark_for_difficulty io d db)"
| "journal_step alloc db (io, OpUnparkXuni n) = snd (unpark_xuni_for_window io n db)"
| "journal_step alloc db (io, OpRecover) = snd (recover_on_startup io db)"
| "journal_step alloc db (io, OpRecordDifficulty d now) = snd (record_difficulty io d now db)"

definition rowid_fresh :: "(int list \<Rightarrow> int) \<Rightarrow> bool" where
  "rowid_fresh alloc \<longleftrightarrow> (\<forall>ids. \<forall>i\<in>set ids. i < alloc ids)"

text \<open>What SQLite does while the largest id is below its limit.\<close>

definition next_rowid :: "int list \<Rightarrow> int" where
  "next_rowid ids = (if ids = [] then 1 else Max (set ids) + 1)"

lemma next_rowid_fresh: "rowid_fresh next_rowid"
  unfolding rowid_fresh_def next_rowid_def
  by (auto simp: less_add_one intro: le_less_trans[OF Max_ge])

definition row_wf :: "sql_row \<Rightarrow> bool" where
  "row_wf row \<longleftrightarrow>
     kind_parse (q_kind row) \<noteq> None
     \<and> status_parse (q_status row) \<noteq> None \<and> q_status row \<noteq> ''Submitting''"

definition journal_wf :: "journal_db \<Rightarrow> bool" where
  "journal_wf db \<longleftrightarrow>
     sorted_wrt (<) (map q_id (finds db)) \<and> distinct (map q_key (finds db))
     \<and> list_all row_wf (finds db)"

text \<open>The columns a find is made of: what was captured, and the identity it is filed under.\<close>

definition captured ::
  "sql_row \<Rightarrow> int \<times> string \<times> string \<times> string \<times> string \<times> int \<times> string option \<times> int option \<times> f64 option \<times> string" where
  "captured row =
     (q_id row, q_key row, q_hash_to_verify row, q_account row, q_kind row, q_m row, q_worker row,
      q_attempts row, q_hashes_per_second row, q_found_at row)"

text \<open>The journal only ever grows: the capture of every row is kept, in place.\<close>

definition keeps_finds :: "journal_db \<Rightarrow> journal_db \<Rightarrow> bool" where
  "keeps_finds db db' \<longleftrightarrow> (\<exists>new. map captured (finds db') = map captured (finds db) @ new)"

lemma keeps_finds_refl [simp]: "keeps_finds db db"
  by (simp add: keeps_finds_def)

lemma keeps_finds_trans: "keeps_finds a b \<Longrightarrow> keeps_finds b c \<Longrightarrow> keeps_finds a c"
  by (auto simp: keeps_finds_def)

lemma status_not_submitting: "status_as_str s = ''Submitting'' \<longleftrightarrow> s = Submitting"
  by (cases s) simp_all

lemma sql_call_Inr [simp]: "sql_call io c = Inr u \<longleftrightarrow> io c = None"
  by (auto simp: sql_call_def split: option.splits)

lemma sql_call_ok [simp]: "io c = None \<Longrightarrow> sql_call io c = Inr ()"
  by (simp add: sql_call_def)

text \<open>Every journal operation either succeeds with the new database or reports an error and
  changes nothing.\<close>

lemma settle_error: "settle db r = (Inl e, db') \<Longrightarrow> db' = db"
  by (cases "(db, r)" rule: settle.cases) auto

lemma snd_settle: "snd (settle db r) = (case r of Inl e \<Rightarrow> db | Inr (a, db') \<Rightarrow> db')"
  by (cases "(db, r)" rule: settle.cases) auto

lemma settle_ok: "settle db r = (Inr a, db') \<longleftrightarrow> r = Inr (a, db')"
  by (cases "(db, r)" rule: settle.cases) auto

lemmas journal_writes =
  append_find_def record_attempt_def unpark_for_difficulty_def unpark_xuni_for_window_def
  recover_on_startup_def record_difficulty_def

lemma finds_update_where:
  "finds (update_where P f db) = map (\<lambda>row. if P row then f row else row) (finds db)"
  by (simp add: update_where_def)

lemma captured_attempt_update [simp]: "captured (attempt_update c h b n t row) = captured row"
  by (simp add: captured_def attempt_update_def)

lemma captured_row_updates [simp]:
  "captured (exhaust_row row) = captured row" "captured (readmit_row row) = captured row"
  "captured (row\<lparr> q_status := s, q_next_attempt_at := n \<rparr>) = captured row"
  "captured (row\<lparr> q_status := s \<rparr>) = captured row"
  by (simp_all add: captured_def exhaust_row_def readmit_row_def)

lemma update_where_captured:
  "(\<And>row. captured (f row) = captured row) \<Longrightarrow>
   map captured (finds (update_where P f db)) = map captured (finds db)"
  by (simp add: finds_update_where cong: if_cong)

lemma keeps_update_where:
  "(\<And>row. captured (f row) = captured row) \<Longrightarrow> keeps_finds db (update_where P f db)"
  by (simp add: keeps_finds_def update_where_captured)

lemma captured_ids_keys:
  "map captured xs = map captured ys \<Longrightarrow> map q_id xs = map q_id ys"
  "map captured xs = map captured ys \<Longrightarrow> map q_key xs = map q_key ys"
  "captured a = captured b \<Longrightarrow> q_kind a = q_kind b"
proof -
  have g: "q_id = fst \<circ> captured" "q_key = fst \<circ> snd \<circ> captured" by (auto simp: captured_def)
  show "map captured xs = map captured ys \<Longrightarrow> map q_id xs = map q_id ys"
    "map captured xs = map captured ys \<Longrightarrow> map q_key xs = map q_key ys"
    unfolding g by (simp_all only: map_map[symmetric])
  show "captured a = captured b \<Longrightarrow> q_kind a = q_kind b" by (simp add: captured_def)
qed

lemma update_where_wf:
  assumes "journal_wf db" "\<And>row. captured (f row) = captured row"
    "\<And>row. row \<in> set (finds db) \<Longrightarrow> P row \<Longrightarrow>
       status_parse (q_status (f row)) \<noteq> None \<and> q_status (f row) \<noteq> ''Submitting''"
  shows "journal_wf (update_where P f db)"
proof -
  note c = update_where_captured[of f P db, OF assms(2)]
  have "list_all row_wf (finds (update_where P f db))"
    using assms captured_ids_keys(3)[OF assms(2)]
    by (auto simp: journal_wf_def row_wf_def list_all_iff finds_update_where)
  then show ?thesis
    using assms(1) captured_ids_keys(1,2)[OF c] by (simp add: journal_wf_def)
qed

lemma find_None_key: "find (\<lambda>row. q_key row = k) rows = None \<longleftrightarrow> k \<notin> set (map q_key rows)"
  by (auto simp: find_None_iff)

lemma insert_row_fields [simp]:
  "q_id (insert_row i p) = i" "q_key (insert_row i p) = p_key p" "row_wf (insert_row i p)"
  "q_status (insert_row i p) = status_as_str (fst (initial_status p))"
  by (auto simp: insert_row_def row_wf_def initial_status_def status_parse_def Let_def)

lemma append_wf:
  assumes "journal_wf db" "rowid_fresh alloc" "find (\<lambda>row. q_key row = p_key p) (finds db) = None"
  shows "journal_wf (db\<lparr> finds := finds db @ [insert_row (alloc (map q_id (finds db))) p] \<rparr>)"
  using assms by (auto simp: journal_wf_def rowid_fresh_def sorted_wrt_append find_None_key)

lemma journal_step_wf:
  assumes wf: "journal_wf db" and alloc: "rowid_fresh alloc"
  shows "journal_wf (journal_step alloc db (io, op))"
proof (cases op)
  case (OpAppend p)
  then show ?thesis using wf append_wf[OF wf alloc, of p]
    by (auto simp: append_find_def snd_settle rbind_Inr_iff Let_def split: sum.splits option.splits)
next
  case (OpRecordAttempt i cls st body nxt now)
  have "c_next_status cls \<noteq> Submitting \<Longrightarrow>
      journal_wf (update_where (\<lambda>row. q_id row = i) (attempt_update cls st body nxt now) db)"
    using wf by (intro update_where_wf) (auto simp: attempt_update_def status_not_submitting captured_def)
  then show ?thesis using wf OpRecordAttempt
    by (auto simp: record_attempt_def snd_settle rbind_Inr_iff split: sum.splits if_splits)
next
  case (OpUnparkDifficulty d)
  have "journal_wf (update_where P (\<lambda>row. row\<lparr> q_status := ''Pending'', q_next_attempt_at := None \<rparr>) db)" for P
    using wf by (intro update_where_wf) (auto simp: status_parse_def)
  then show ?thesis using wf OpUnparkDifficulty
    by (auto simp: unpark_for_difficulty_def snd_settle rbind_Inr_iff Let_def split: sum.splits)
next
  case (OpUnparkXuni n)
  have "journal_wf (update_where Q readmit_row (update_where P exhaust_row db))" for P Q
    using wf by (intro update_where_wf) (auto simp: status_parse_def exhaust_row_def readmit_row_def
        captured_def)
  then show ?thesis using wf OpUnparkXuni
    by (auto simp: unpark_xuni_for_window_def snd_settle rbind_Inr_iff Let_def split: sum.splits)
next
  case OpRecover
  have "journal_wf (update_where P (\<lambda>row. row\<lparr> q_status := ''Pending'' \<rparr>) db)" for P
    using wf by (intro update_where_wf) (auto simp: status_parse_def)
  then show ?thesis using wf OpRecover
    by (auto simp: recover_on_startup_def snd_settle rbind_Inr_iff Let_def split: sum.splits)
next
  case (OpRecordDifficulty d now)
  then show ?thesis using wf
    by (auto simp: record_difficulty_def snd_settle rbind_Inr_iff journal_wf_def split: sum.splits)
qed

lemma journal_step_keeps: "keeps_finds db (journal_step alloc db (io, op))"
proof (cases op)
  case (OpAppend p)
  then show ?thesis
    by (auto simp: append_find_def snd_settle rbind_Inr_iff Let_def keeps_finds_def
        split: sum.splits option.splits)
next
  case (OpUnparkXuni n)
  have "keeps_finds db (update_where Q readmit_row (update_where P exhaust_row db))" for P Q
    by (intro keeps_finds_trans[OF keeps_update_where keeps_update_where]) simp_all
  then show ?thesis using OpUnparkXuni
    by (auto simp: unpark_xuni_for_window_def snd_settle rbind_Inr_iff Let_def split: sum.splits)
qed (auto simp: record_attempt_def unpark_for_difficulty_def recover_on_startup_def record_difficulty_def
     snd_settle rbind_Inr_iff Let_def keeps_finds_def update_where_captured
     split: sum.splits if_splits)

lemma empty_db_wf: "journal_wf empty_db"
  by (simp add: journal_wf_def empty_db_def)

interpretation jn: invariant_system "\<lambda>db. db = empty_db \<and> rowid_fresh alloc" "journal_step alloc"
  "\<lambda>_. True" "\<lambda>db. journal_wf db \<and> rowid_fresh alloc" for alloc
  by unfold_locales (auto simp: journal_step_wf empty_db_wf)

lemma journal_run:
  assumes "journal_wf db" "rowid_fresh alloc"
  shows "journal_wf (run (journal_step alloc) db es)" "keeps_finds db (run (journal_step alloc) db es)"
proof -
  show "journal_wf (run (journal_step alloc) db es)"
    using jn.run_inv[of db alloc es] assms by (simp add: list_all_iff)
  have "keeps_finds s (journal_step alloc s e)" for s e
    using journal_step_keeps by (cases e) simp
  then show "keeps_finds db (run (journal_step alloc) db es)"
    using jn.run_ordered[of alloc keeps_finds db es] assms keeps_finds_trans
    by (simp add: list_all_iff)
qed

subsection \<open>Capture is durable\<close>

lemma kind_from_str_as_str [simp]: "kind_from_str (kind_as_str k) = Inr k"
  by (simp add: kind_from_str_def)

lemma status_from_str_wf: "row_wf row \<Longrightarrow> \<exists>s. status_from_str (q_status row) = Inr s \<and> s \<noteq> Submitting"
  by (auto simp: row_wf_def status_from_str_def status_parse_def split: option.splits if_splits)

lemma row_to_record_captured:
  assumes "row_wf row" "captured row = captured (insert_row i p)"
    "p_memory_cost p < 2 ^ 32" "p_attempts p < 2 ^ 64" "p_hashes_per_second p \<noteq> NaN" "io ''read column'' = None"
  shows "\<exists>r. row_to_record io row = Inr r \<and> r_payload r = p \<and> r_id r = i"
proof -
  obtain s where s: "status_from_str (q_status row) = Inr s" using status_from_str_wf[OF assms(1)] by blast
  have w: "wrap_i64 (int (p_attempts p)) mod 2 ^ 64 = int (p_attempts p)"
    using assms(4) by (simp add: wrap_i64_def mod_diff_left_eq)
  have h: "or_default (Finite 0) (case p_hashes_per_second p of NaN \<Rightarrow> None | h \<Rightarrow> Some h)
      = p_hashes_per_second p"
    using assms(5) by (cases "p_hashes_per_second p") (simp_all add: or_default_def)
  have wk: "or_default [] (text_or_null (p_worker p)) = p_worker p"
    by (simp add: or_default_def text_or_null_def)
  have c: "q_id row = i" "q_key row = p_key p" "q_hash_to_verify row = p_hash_to_verify p"
    "q_account row = p_account p" "q_kind row = kind_as_str (p_kind p)" "q_m row = int (p_memory_cost p)"
    "q_worker row = text_or_null (p_worker p)" "q_attempts row = Some (wrap_i64 (int (p_attempts p)))"
    "q_hashes_per_second row = (case p_hashes_per_second p of NaN \<Rightarrow> None | h \<Rightarrow> Some h)"
    "q_found_at row = p_found_at_utc p"
    using assms(2) by (auto simp: captured_def insert_row_def split: prod.splits)
  show ?thesis
    using assms(3,4,6) w by (simp add: row_to_record_def s c h wk)
qed

lemma sorted_ids_find:
  "sorted_wrt (<) (map q_id rows) \<Longrightarrow> row \<in> set rows \<Longrightarrow> find (\<lambda>r. q_id r = q_id row) rows = Some row"
  by (induction rows) auto

text \<open>C11.  A captured find is durable.  Once \<^verbatim>\<open>append\<close> has returned an id for a new key, then
  whatever the journal is asked to do afterwards, in any order and with any failures, looking the
  id up returns a record whose payload is, field for field, the one that was captured.\<close>

theorem append_is_durable:
  assumes wf: "journal_wf db" and alloc: "rowid_fresh alloc"
    and new: "p_key p \<notin> set (map q_key (finds db))"
    and ok: "append_find io alloc p db = (Inr i, db1)"
    and fits: "p_memory_cost p < 2 ^ 32" "p_attempts p < 2 ^ 64" "p_hashes_per_second p \<noteq> NaN"
  shows "\<exists>r. get_by_id (\<lambda>_. None) i (run (journal_step alloc) db1 es) = Inr (Some r)
    \<and> r_payload r = p \<and> r_id r = i"
proof -
  have none: "find (\<lambda>row. q_key row = p_key p) (finds db) = None" using new by (simp add: find_None_key)
  then have i: "i = alloc (map q_id (finds db))"
    and db1: "db1 = db\<lparr> finds := finds db @ [insert_row i p] \<rparr>"
    using ok by (auto simp: append_find_def settle_ok rbind_Inr_iff Let_def)
  have wf1: "journal_wf db1" using append_wf[OF wf alloc none] by (simp add: db1 i)
  let ?db = "run (journal_step alloc) db1 es"
  obtain extra where "map captured (finds ?db) = map captured (finds db1) @ extra"
    using journal_run(2)[OF wf1 alloc] by (auto simp: keeps_finds_def)
  then have "captured (insert_row i p) \<in> set (map captured (finds ?db))" by (simp add: db1)
  then obtain row where row: "row \<in> set (finds ?db)" "captured row = captured (insert_row i p)" by auto
  have wfd: "journal_wf ?db" using journal_run(1)[OF wf1 alloc] .
  then have "row_wf row" "sorted_wrt (<) (map q_id (finds ?db))"
    using row by (auto simp: journal_wf_def list_all_iff)
  moreover have "q_id row = i" using row(2) by (simp add: captured_def)
  ultimately show ?thesis
    using sorted_ids_find[of "finds ?db" row] row
      row_to_record_captured[of row i p "\<lambda>_. None", OF _ row(2) fits] by (auto simp: get_by_id_def)
qed

definition sample_find :: found_payload where
  "sample_find =
     \<lparr> p_key = ''00ff'', p_hash_to_verify = ''$argon2id$v=19$m=1000,t=1,p=1$c2FsdA$XEN11'',
       p_account = ''0xabc'', p_kind = Xen11, p_memory_cost = 1000, p_worker = ''w1'',
       p_attempts = 42, p_hashes_per_second = Finite 7, p_found_at_utc = ''2026-07-18T00:00:00Z'' \<rparr>"

definition parked_verdict :: classification where
  "parked_verdict =
     \<lparr> c_next_status = ParkedDifficulty, c_server_difficulty_hint = None,
       c_needs_lookup_confirmation = False, c_reason = ''difficulty'' \<rparr>"

theorem append_is_durable_witness:
  "\<exists>r. get_by_id (\<lambda>_. None) 1
        (run (journal_step next_rowid) (snd (append_find (\<lambda>_. None) next_rowid sample_find empty_db))
          [(\<lambda>_. None, OpRecordAttempt 1 parked_verdict (Some 401) ''{}'' None ''2026-07-18T00:00:01Z''),
           (\<lambda>_. Some ''disk full'', OpUnparkDifficulty 900),
           (\<lambda>_. None, OpUnparkDifficulty 900)]) = Inr (Some r)
      \<and> r_payload r = sample_find \<and> r_id r = 1"
proof -
  have "append_find (\<lambda>_. None) next_rowid sample_find empty_db
      = (Inr 1, snd (append_find (\<lambda>_. None) next_rowid sample_find empty_db))"
    by (simp add: append_find_def empty_db_def next_rowid_def Let_def)
  then show ?thesis
    by (rule append_is_durable[OF empty_db_wf next_rowid_fresh, rotated])
       (simp_all add: empty_db_def sample_find_def)
qed

text \<open>C16.  No operation of the journal, failing or not, ever deletes a find, reorders finds or
  alters a captured field, and the schema's invariants (strictly increasing ids, unique keys, known
  kinds and statuses, never \<^verbatim>\<open>Submitting\<close>) hold after any history.\<close>

theorem journal_never_loses_a_find:
  assumes "rowid_fresh alloc"
  shows "journal_wf (run (journal_step alloc) empty_db es)
    \<and> keeps_finds (run (journal_step alloc) empty_db es) (run (journal_step alloc) empty_db (es @ later))"
  using journal_run(1)[OF empty_db_wf assms]
    journal_run(2)[OF journal_run(1)[OF empty_db_wf assms] assms] by simp

theorem journal_never_loses_a_find_witness:
  "keeps_finds
     (run (journal_step next_rowid) empty_db [(\<lambda>_. None, OpAppend sample_find)])
     (run (journal_step next_rowid) empty_db
        ([(\<lambda>_. None, OpAppend sample_find)] @ [(\<lambda>_. None, OpUnparkXuni 3), (\<lambda>_. None, OpRecover)]))"
  using journal_never_loses_a_find[OF next_rowid_fresh, of "[(\<lambda>_. None, OpAppend sample_find)]"
      "[(\<lambda>_. None, OpUnparkXuni 3), (\<lambda>_. None, OpRecover)]"] by blast

subsection \<open>Fetching work\<close>

lemma sort_key_sorted: "sorted_wrt (<) (map f xs) \<Longrightarrow> sort_key f xs = xs" for f :: "'a \<Rightarrow> 'b::linorder"
  by (rule sort_key_id_if_sorted) (simp add: strict_sorted_imp_sorted)

lemma sorted_ids_filter: "sorted_wrt (<) (map q_id rows) \<Longrightarrow> sorted_wrt (<) (map q_id (filter P rows))"
  by (induction rows) auto

definition record_of :: "sql_row \<Rightarrow> find_record" where
  "record_of row = projr (row_to_record (\<lambda>_. None) row)"

lemma row_to_record_of: "row_wf row \<Longrightarrow> io ''read column'' = None \<Longrightarrow> row_to_record io row = Inr (record_of row)"
  using status_from_str_wf[of row]
  by (auto simp: record_of_def row_to_record_def kind_from_str_def row_wf_def split: option.splits)

lemma fetch_by_status_rows:
  assumes "journal_wf db" "\<And>c. io c = None" "limit < 2 ^ 63"
  shows "fetch_by_status io status kind now limit db
    = Inr (map record_of (take limit (select_rows status kind now (finds db))))"
proof -
  have "sort_key q_id (select_rows status kind now (finds db)) = select_rows status kind now (finds db)"
    using assms(1) by (intro sort_key_sorted) (simp add: journal_wf_def select_rows_def sorted_ids_filter)
  moreover have "wrap_i64 (int limit) = int limit"
    using assms(3) by (intro wrap_i64_id) (simp add: in_i64_def i64_min_def i64_max_def)
  moreover have "row_to_record io row = Inr (record_of row)"
    if "row \<in> set (take limit (select_rows status kind now (finds db)))" for row
    using that assms(1,2) by (intro row_to_record_of)
      (auto simp: journal_wf_def list_all_iff select_rows_def dest!: in_set_takeD)
  ultimately show ?thesis
    using assms(2) by (simp add: fetch_by_status_def sql_limit_def rmapM_total)
qed

lemma record_of_fields:
  assumes "row_wf row"
  shows "r_id (record_of row) = q_id row" "kind_as_str (p_kind (r_payload (record_of row))) = q_kind row"
    "status_as_str (r_status (record_of row)) = q_status row"
    "r_next_attempt_at (record_of row) = q_next_attempt_at row"
    "p_key (r_payload (record_of row)) = q_key row"
proof -
  obtain k s where "kind_parse (q_kind row) = Some k" "status_parse (q_status row) = Some s"
    using assms by (auto simp: row_wf_def)
  then have "q_kind row = kind_as_str k" "q_status row = status_as_str s"
    "record_of row = projr (row_to_record (\<lambda>_. None) row)"
    by (auto simp: kind_parse_def status_parse_def record_of_def split: if_splits)
  then show "r_id (record_of row) = q_id row" "kind_as_str (p_kind (r_payload (record_of row))) = q_kind row"
    "status_as_str (r_status (record_of row)) = q_status row"
    "r_next_attempt_at (record_of row) = q_next_attempt_at row"
    "p_key (r_payload (record_of row)) = q_key row"
    by (simp_all add: row_to_record_def kind_from_str_def status_from_str_def)
qed

definition record_due :: "string \<Rightarrow> find_record \<Rightarrow> bool" where
  "record_due now r = (case r_next_attempt_at r of None \<Rightarrow> True | Some t \<Rightarrow> text_le t now)"

lemma set_select_rows:
  "set (select_rows status kind now rows)
    = {row \<in> set rows. q_status row = status \<and> (\<forall>k. kind = Some k \<longrightarrow> q_kind row = k) \<and> row_due now row}"
  by (auto simp: select_rows_def split: option.splits)

lemma sorted_ids_take: "sorted_wrt (<) (map q_id rows) \<Longrightarrow> sorted_wrt (<) (map q_id (take n rows))"
  by (simp add: take_map[symmetric] sorted_wrt_take)

text \<open>C17.  Work is fetched exactly: without an engine failure the fetch of one kind returns
  Pending finds of that kind whose backoff has elapsed and nothing else, oldest first, at most
  \<^verbatim>\<open>limit\<close> of them; and a due find is left out only when \<^verbatim>\<open>limit\<close> older ones were
  returned, so finds of the other kind never displace it.\<close>

theorem fetch_eligible_exact:
  assumes wf: "journal_wf db" and io: "\<forall>c. io c = None" and lim: "limit < 2 ^ 63"
  shows "\<exists>rs. fetch_eligible_of_kind io kind now limit db = Inr rs
    \<and> length rs \<le> limit \<and> sorted_wrt (\<lambda>a b. r_id a < r_id b) rs
    \<and> (\<forall>r\<in>set rs. r_status r = Pending \<and> p_kind (r_payload r) = kind \<and> record_due now r
         \<and> r \<in> record_of ` set (finds db))
    \<and> (\<forall>row\<in>set (finds db). q_status row = ''Pending'' \<and> q_kind row = kind_as_str kind \<and> row_due now row
         \<longrightarrow> record_of row \<in> set rs \<or> length rs = limit \<and> (\<forall>r\<in>set rs. r_id r < q_id row))"
proof -
  define rows where "rows = select_rows ''Pending'' (Some (kind_as_str kind)) now (finds db)"
  define rs where "rs = map record_of (take limit rows)"
  have sub: "set (take limit rows) \<subseteq> set rows" "set rows \<subseteq> set (finds db)"
    by (auto simp: rows_def set_select_rows dest: in_set_takeD)
  have rwf: "row_wf row" if "row \<in> set (finds db)" for row
    using wf that by (simp add: journal_wf_def list_all_iff)
  have srt: "sorted_wrt (<) (map q_id rows)"
    using wf by (simp add: rows_def select_rows_def journal_wf_def sorted_ids_filter)
  have ids: "map r_id rs = map q_id (take limit rows)"
    unfolding rs_def using sub rwf record_of_fields(1) by (auto)
  have "fetch_eligible_of_kind io kind now limit db = Inr rs"
    using fetch_by_status_rows[OF wf _ lim] io by (simp add: fetch_eligible_of_kind_def rs_def rows_def)
  moreover have "sorted_wrt (\<lambda>a b. r_id a < r_id b) rs"
    using sorted_ids_take[OF srt, of limit] unfolding ids[symmetric] by (simp add: sorted_wrt_map)
  moreover have "\<forall>r\<in>set rs. r_status r = Pending \<and> p_kind (r_payload r) = kind \<and> record_due now r
         \<and> r \<in> record_of ` set (finds db)"
  proof
    fix r assume "r \<in> set rs"
    then obtain row where row: "row \<in> set rows" "r = record_of row" unfolding rs_def using sub by auto
    then have w: "row_wf row" and q: "q_status row = status_as_str Pending" "q_kind row = kind_as_str kind" "row_due now row"
      using sub rwf by (auto simp: rows_def set_select_rows)
    have "r_status r = Pending" using record_of_fields(3)[OF w] q(1) row(2) status_as_str_inj by metis
    moreover have "p_kind (r_payload r) = kind"
      using record_of_fields(2)[OF w] q(2) row(2) kind_parse_as_str by (metis option.inject)
    moreover have "record_due now r"
      using record_of_fields(4)[OF w] q(3) row(2) by (simp add: record_due_def row_due_def)
    ultimately show "r_status r = Pending \<and> p_kind (r_payload r) = kind \<and> record_due now r
         \<and> r \<in> record_of ` set (finds db)" using row sub by blast
  qed
  moreover have "\<forall>row\<in>set (finds db). q_status row = ''Pending'' \<and> q_kind row = kind_as_str kind \<and> row_due now row
         \<longrightarrow> record_of row \<in> set rs \<or> length rs = limit \<and> (\<forall>r\<in>set rs. r_id r < q_id row)"
  proof (intro ballI impI)
    fix row
    assume row: "row \<in> set (finds db)" "q_status row = ''Pending'' \<and> q_kind row = kind_as_str kind \<and> row_due now row"
    then have "row \<in> set (take limit rows @ drop limit rows)"
      by (simp add: rows_def set_select_rows)
    then consider "row \<in> set (take limit rows)" | "row \<in> set (drop limit rows)"
      unfolding set_append by blast
    then show "record_of row \<in> set rs \<or> length rs = limit \<and> (\<forall>r\<in>set rs. r_id r < q_id row)"
    proof cases
      case 1
      then show ?thesis by (simp add: rs_def)
    next
      case 2
      then have "length rs = limit" by (cases "length rows \<le> limit") (auto simp: rs_def)
      moreover have "\<forall>x\<in>set (map q_id (take limit rows)). x < q_id row"
      proof -
        have "sorted_wrt (<) (map q_id (take limit rows) @ map q_id (drop limit rows))"
          using srt by (simp add: map_append[symmetric] del: map_append)
        then show ?thesis using 2 by (auto simp: sorted_wrt_append)
      qed
      ultimately show ?thesis unfolding ids[symmetric] by auto
    qed
  qed
  ultimately show ?thesis by (intro exI[of _ rs]) (auto simp: rs_def)
qed

definition one_find_db :: journal_db where
  "one_find_db = snd (append_find (\<lambda>_. None) next_rowid sample_find empty_db)"

lemma one_find_db: "journal_wf one_find_db" "finds one_find_db = [insert_row 1 sample_find]"
  using append_wf[OF empty_db_wf next_rowid_fresh, of sample_find]
  by (simp_all add: one_find_db_def append_find_def empty_db_def next_rowid_def Let_def)

lemma sample_row_status: "q_status (insert_row 1 sample_find) = ''Pending''"
  by (simp add: initial_status_def sample_find_def MAX_HASH_TO_VERIFY_LENGTH_def)

theorem fetch_eligible_exact_witness:
  "\<exists>rs. fetch_eligible_of_kind (\<lambda>_. None) Xen11 ''2026-07-18T00:00:05Z'' 16 one_find_db = Inr rs
     \<and> record_of (insert_row 1 sample_find) \<in> set rs"
proof -
  have "q_kind (insert_row 1 sample_find) = kind_as_str Xen11"
    "row_due ''2026-07-18T00:00:05Z'' (insert_row 1 sample_find)"
    by (simp_all add: insert_row_def row_due_def sample_find_def split: prod.splits)
  then obtain rs where rs: "fetch_eligible_of_kind (\<lambda>_. None) Xen11 ''2026-07-18T00:00:05Z'' 16 one_find_db = Inr rs"
    "\<forall>r\<in>set rs. r = record_of (insert_row 1 sample_find)"
    "record_of (insert_row 1 sample_find) \<in> set rs \<or> length rs = 16"
    using fetch_eligible_exact[OF one_find_db(1), of "\<lambda>_. None" 16 Xen11 "''2026-07-18T00:00:05Z''"]
      one_find_db(2) sample_row_status by auto
  have "length rs = 16 \<Longrightarrow> hd rs \<in> set rs" by (cases rs) auto
  then show ?thesis using rs by auto
qed

subsection \<open>XUNI window budget\<close>

text \<open>C21.  Re-admitting parked XUNI spends one window of each find's budget: after a successful
  \<^verbatim>\<open>unpark_xuni_for_window\<close> every row is either untouched (it was not parked), or Pending, due
  at once, with one more window counted and at most \<^verbatim>\<open>max_windows\<close> of them, or Dead because its
  budget was used up; no row stays parked and the returned count is the number re-admitted.  A
  failing call changes nothing.\<close>

theorem unpark_xuni_budget:
  "case unpark_xuni_for_window io max_windows db of
     (Inl e, db') \<Rightarrow> db' = db
   | (Inr n, db') \<Rightarrow>
       list_all2 (\<lambda>row row'.
         if q_status row \<noteq> ''ParkedXuniWindow'' then row' = row
         else if max_windows \<le> q_xuni_windows_tried row then row' = exhaust_row row
         else row' = readmit_row row \<and> q_xuni_windows_tried row' \<le> max_windows) (finds db) (finds db')
       \<and> list_all (\<lambda>row. q_status row \<noteq> ''ParkedXuniWindow'') (finds db')
       \<and> n = count_where (\<lambda>row. q_status row = ''ParkedXuniWindow''
                \<and> q_xuni_windows_tried row < max_windows) db"
proof -
  let ?P = "\<lambda>row. q_status row = ''ParkedXuniWindow''"
  let ?Q = "\<lambda>row. ?P row \<and> max_windows \<le> q_xuni_windows_tried row"
  let ?f = "\<lambda>row. if ?Q row then exhaust_row row else row"
  let ?g = "\<lambda>row. if ?P row then readmit_row row else row"
  have st: "?P (exhaust_row row) = False" "?P (readmit_row row) = False" for row
    by (simp_all add: exhaust_row_def readmit_row_def)
  have "?g (?f row) = (if \<not> ?P row then row else if max_windows \<le> q_xuni_windows_tried row
      then exhaust_row row else readmit_row row)" for row
    using st by simp
  then have "finds (update_where ?P readmit_row (update_where ?Q exhaust_row db))
    = map (\<lambda>row. if \<not> ?P row then row else if max_windows \<le> q_xuni_windows_tried row
      then exhaust_row row else readmit_row row) (finds db)"
    by (simp add: finds_update_where)
  moreover have "filter ?P (map ?f rows)
      = filter (\<lambda>row. ?P row \<and> q_xuni_windows_tried row < max_windows) rows" for rows
    by (induction rows) (auto simp: st)
  then have "count_where ?P (update_where ?Q exhaust_row db)
      = count_where (\<lambda>row. ?P row \<and> q_xuni_windows_tried row < max_windows) db"
    by (simp add: count_where_def finds_update_where)
  moreover have "q_xuni_windows_tried (readmit_row row) = q_xuni_windows_tried row + 1" for row
    by (simp add: readmit_row_def)
  ultimately show ?thesis
    using st
    by (cases "io ''BEGIN IMMEDIATE''"; cases "io ''exhaust xuni budget''"; cases "io ''unpark xuni''";
        cases "io ''COMMIT unpark xuni''")
       (auto simp: unpark_xuni_for_window_def sql_call_def list_all2_map2 list_all2_same list_all_iff)
qed

subsection \<open>Counters\<close>

lemma group_count_sum:
  "sum_list (map (\<lambda>(k, n). if P k then n else 0) (group_count g rows))
     = length (filter (\<lambda>row. P (g row)) rows)"
proof -
  have step: "finite S \<Longrightarrow> g ` set rows \<subseteq> S \<Longrightarrow>
      (\<Sum>k\<in>S. if P k then length (filter (\<lambda>row. g row = k) rows) else 0)
        = length (filter (\<lambda>row. P (g row)) rows)" for S
  proof (induction rows)
    case Nil
    then show ?case by simp
  next
    case (Cons r rows)
    have "(\<Sum>k\<in>S. if P k then length (filter (\<lambda>row. g row = k) (r # rows)) else 0)
        = (\<Sum>k\<in>S. (if k = g r then if P (g r) then 1 else 0 else 0)
            + (if P k then length (filter (\<lambda>row. g row = k) rows) else 0))"
      by (rule sum.cong) auto
    also have "\<dots> = (if P (g r) then 1 else 0) + length (filter (\<lambda>row. P (g row)) rows)"
      using Cons by (simp add: sum.distrib)
    finally show ?case by simp
  qed
  have "sum_list (map (\<lambda>(k, n). if P k then n else 0) (group_count g rows))
      = sum_list (map (\<lambda>k. if P k then length (filter (\<lambda>row. g row = k) rows) else 0) (remdups (map g rows)))"
    by (simp add: group_count_def o_def)
  also have "\<dots> = (\<Sum>k\<in>set (map g rows). if P k then length (filter (\<lambda>row. g row = k) rows) else 0)"
    by (simp add: sum_list_distinct_conv_sum_set)
  also have "\<dots> = length (filter (\<lambda>row. P (g row)) rows)" by (rule step) auto
  finally show ?thesis .
qed

lemma counts_loop_field:
  assumes add: "\<And>s k n c. fld (tally_counts s k n c) = (fld c :: nat) + (if P (status_as_str s, kind_as_str k) then n else 0)"
    and keys: "\<forall>((st, kd), n)\<in>set groups. status_parse st \<noteq> None \<and> kind_parse kd \<noteq> None"
  shows "\<exists>c'. counts_loop (\<lambda>_. None) groups c = Inr c'
    \<and> fld c' = fld c + sum_list (map (\<lambda>(k, n). if P k then n else 0) groups)"
  using keys
proof (induction groups arbitrary: c)
  case Nil
  then show ?case by simp
next
  case (Cons g groups)
  obtain st kd n where g: "g = ((st, kd), n)" by (metis prod.exhaust)
  obtain s k where sk: "status_parse st = Some s" "kind_parse kd = Some k" using Cons.prems g by auto
  then have st: "st = status_as_str s" "kd = kind_as_str k"
    by (auto simp: status_parse_def kind_parse_def split: if_splits)
  obtain c' where c': "counts_loop (\<lambda>_. None) groups (tally_counts s k n c) = Inr c'"
    "fld c' = fld (tally_counts s k n c) + sum_list (map (\<lambda>(k, n). if P k then n else 0) groups)"
    using Cons.IH[of "tally_counts s k n c"] Cons.prems by auto
  then show ?case using sk add[of s k n c]
    by (simp add: g status_from_str_def kind_from_str_def st)
qed

lemma counts_field:
  assumes "journal_wf db"
    and "\<And>s k n c. fld (tally_counts s k n c) = (fld c :: nat) + (if P (status_as_str s, kind_as_str k) then n else 0)"
  shows "\<exists>c. counts (\<lambda>_. None) db = Inr c
    \<and> fld c = fld zero_counts + count_where (\<lambda>row. P (q_status row, q_kind row)) db"
proof -
  have "\<forall>((st, kd), n)\<in>set (group_count (\<lambda>row. (q_status row, q_kind row)) (finds db)).
      status_parse st \<noteq> None \<and> kind_parse kd \<noteq> None"
    using assms(1) by (auto simp: group_count_def journal_wf_def list_all_iff row_wf_def)
  from counts_loop_field[of fld P, OF assms(2) this, of zero_counts] show ?thesis
    by (simp add: counts_def count_where_def group_count_sum)
qed

lemma tally_pending: "jc_pending (tally_counts s k n c)
    = jc_pending c + (if fst (status_as_str s, kind_as_str k) = ''Pending'' then n else 0)"
  by (cases s; cases k) (simp_all add: tally_counts_def)

lemma tally_parked: "jc_parked (tally_counts s k n c)
    = jc_parked c + (if fst (status_as_str s, kind_as_str k) \<in> {''ParkedDifficulty'', ''ParkedXuniWindow''} then n else 0)"
  by (cases s; cases k) (simp_all add: tally_counts_def)

lemma tally_unconfirmed: "jc_accepted_unconfirmed (tally_counts s k n c)
    = jc_accepted_unconfirmed c + (if fst (status_as_str s, kind_as_str k) = ''AcceptedUnconfirmed'' then n else 0)"
  by (cases s; cases k) (simp_all add: tally_counts_def)

lemma tally_queued_xuni: "jc_queued_xuni (tally_counts s k n c)
    = jc_queued_xuni c + (if fst (status_as_str s, kind_as_str k) \<in> {''Pending'', ''AcceptedUnconfirmed''}
        \<and> snd (status_as_str s, kind_as_str k) = ''XUNI'' then n else 0)"
  by (cases s; cases k) (simp_all add: tally_counts_def)

definition counts_total :: "journal_counts \<Rightarrow> nat" where
  "counts_total c = jc_pending c + jc_parked c + jc_quarantined c + jc_acked_total c + jc_dead_total c
     + jc_accepted_unconfirmed c + jc_permanently_invalid c"

lemma tally_total: "counts_total (tally_counts s k n c)
    = counts_total c + (if fst (status_as_str s, kind_as_str k) \<noteq> ''Submitting'' then n else 0)"
  by (cases s; cases k) (simp_all add: tally_counts_def counts_total_def)

text \<open>The counters are exact and complete: on a well-formed journal the query succeeds, each
  counter is the number of rows in its states, and together they account for every find.\<close>

theorem counts_exact:
  assumes wf: "journal_wf db" and io: "\<forall>c. io c = None"
  shows "\<exists>c. counts io db = Inr c
    \<and> jc_pending c = count_where (\<lambda>row. q_status row = ''Pending'') db
    \<and> jc_parked c = count_where (\<lambda>row. q_status row \<in> {''ParkedDifficulty'', ''ParkedXuniWindow''}) db
    \<and> jc_accepted_unconfirmed c = count_where (\<lambda>row. q_status row = ''AcceptedUnconfirmed'') db
    \<and> jc_queued_xuni c = count_where (\<lambda>row. q_status row \<in> {''Pending'', ''AcceptedUnconfirmed''}
          \<and> q_kind row = ''XUNI'') db
    \<and> counts_total c = length (finds db)"
proof -
  have io': "io = (\<lambda>_. None)" using io by auto
  note f = counts_field[OF wf, folded io']
  have "count_where (\<lambda>row. q_status row \<noteq> ''Submitting'') db = length (finds db)"
    using wf by (auto simp: count_where_def journal_wf_def list_all_iff row_wf_def filter_True)
  then show ?thesis
    using f[of jc_pending "\<lambda>k. fst k = ''Pending''", OF tally_pending]
      f[of jc_parked "\<lambda>k. fst k \<in> {''ParkedDifficulty'', ''ParkedXuniWindow''}", OF tally_parked]
      f[of jc_accepted_unconfirmed "\<lambda>k. fst k = ''AcceptedUnconfirmed''", OF tally_unconfirmed]
      f[of jc_queued_xuni "\<lambda>k. fst k \<in> {''Pending'', ''AcceptedUnconfirmed''} \<and> snd k = ''XUNI''",
        OF tally_queued_xuni]
      f[of counts_total "\<lambda>k. fst k \<noteq> ''Submitting''", OF tally_total]
    by (auto simp: zero_counts_def counts_total_def)
qed

theorem counts_exact_witness:
  "\<exists>c. counts (\<lambda>_. None) one_find_db = Inr c \<and> jc_pending c = 1 \<and> counts_total c = 1"
  using counts_exact[OF one_find_db(1), of "\<lambda>_. None"] sample_row_status
  by (auto simp: one_find_db(2) count_where_def)

end
