(* ===== verification/Journal_Bridge.thy ===== *)
theory Journal_Bridge
  imports Journal
begin

text \<open>
  The journal as the submitter sees it: \<^verbatim>\<open>tm-submit/src/journal.rs\<close> (the trait
  \<^verbatim>\<open>JournalAccess\<close>) is the locale \<open>journal_access\<close>, whose laws speak about the list of
  records the store holds; \<^verbatim>\<open>treeminer/src/bridge.rs\<close> adapts the SQLite journal to it, and the
  interpretation at the end discharges the laws for that adapter.  The submitter's safety
  properties rest on the facts of the locale.
\<close>

subsection \<open>The adapter\<close>

definition cross :: "journal_error \<Rightarrow> string" where
  "cross error = journal_error_text error"

definition bridge_fetch_eligible_of_kind ::
  "sql_io \<Rightarrow> find_kind \<Rightarrow> string \<Rightarrow> nat \<Rightarrow> journal_db \<Rightarrow> string + find_record list" where
  "bridge_fetch_eligible_of_kind io kind now_utc limit db =
     map_err cross (fetch_eligible_of_kind io kind now_utc limit db)"

definition bridge_fetch_awaiting_confirmation ::
  "sql_io \<Rightarrow> string \<Rightarrow> nat \<Rightarrow> journal_db \<Rightarrow> string + find_record list" where
  "bridge_fetch_awaiting_confirmation io now_utc limit db =
     map_err cross (fetch_awaiting_confirmation io now_utc limit db)"

definition bridge_record_attempt ::
  "sql_io \<Rightarrow> int \<Rightarrow> classification \<Rightarrow> int option \<Rightarrow> string \<Rightarrow> string option \<Rightarrow> string
     \<Rightarrow> journal_db \<Rightarrow> (string + unit) \<times> journal_db" where
  "bridge_record_attempt io i cls http_status response_body next_attempt_at now_utc db =
     apfst (map_err cross)
       (record_attempt io i cls http_status response_body next_attempt_at now_utc db)"

definition bridge_unpark_for_difficulty ::
  "sql_io \<Rightarrow> nat \<Rightarrow> journal_db \<Rightarrow> (string + nat) \<times> journal_db" where
  "bridge_unpark_for_difficulty io current_difficulty db =
     apfst (map_err cross) (unpark_for_difficulty io current_difficulty db)"

definition bridge_unpark_xuni_for_window ::
  "sql_io \<Rightarrow> int \<Rightarrow> journal_db \<Rightarrow> (string + nat) \<times> journal_db" where
  "bridge_unpark_xuni_for_window io max_windows db =
     apfst (map_err cross) (unpark_xuni_for_window io max_windows db)"

definition bridge_record_difficulty ::
  "sql_io \<Rightarrow> nat \<Rightarrow> string \<Rightarrow> journal_db \<Rightarrow> (string + unit) \<times> journal_db" where
  "bridge_record_difficulty io difficulty at_utc db =
     apfst (map_err cross) (record_difficulty io difficulty at_utc db)"

definition bridge_counts :: "sql_io \<Rightarrow> journal_db \<Rightarrow> string + journal_counts" where
  "bridge_counts io db = map_err cross (counts io db)"

subsection \<open>The contract\<close>

text \<open>The effect of an attempt outcome on a record, and the two kinds of status change the store
  makes on its own.\<close>

definition attempt_record ::
  "classification \<Rightarrow> int option \<Rightarrow> string \<Rightarrow> string option \<Rightarrow> string \<Rightarrow> find_record \<Rightarrow> find_record" where
  "attempt_record cls http_status body next_attempt_at now r =
     r\<lparr> r_status := c_next_status cls, r_status_reason := c_reason cls,
        r_attempt_count := wrap_i32 (r_attempt_count r + 1),
        r_next_attempt_at := next_attempt_at, r_last_attempt_at := Some now,
        r_last_http_status := map_option wrap_i32 http_status, r_last_response := body,
        r_confirmed_at :=
          (if c_next_status cls = Acked
           then (case r_confirmed_at r of Some t \<Rightarrow> Some t | None \<Rightarrow> Some now)
           else r_confirmed_at r) \<rparr>"

definition capture_of :: "find_record \<Rightarrow> int \<times> found_payload" where
  "capture_of r = (r_id r, r_payload r)"

text \<open>One find may follow another across a store operation: same capture, and the status either
  stays or leaves a parked state for Pending or Dead.\<close>

definition parked_step :: "find_record \<Rightarrow> find_record \<Rightarrow> bool" where
  "parked_step r r' \<longleftrightarrow>
     capture_of r' = capture_of r \<and>
     (r' = r
      \<or> r_status r = ParkedDifficulty \<and> r_status r' = Pending
      \<or> r_status r = ParkedXuniWindow \<and> r_status r' \<in> {Pending, Dead})"

locale journal_access =
  fixes fetch_kind :: "'io \<Rightarrow> find_kind \<Rightarrow> string \<Rightarrow> nat \<Rightarrow> 'j \<Rightarrow> string + find_record list"
    and fetch_unconfirmed :: "'io \<Rightarrow> string \<Rightarrow> nat \<Rightarrow> 'j \<Rightarrow> string + find_record list"
    and record_outcome :: "'io \<Rightarrow> int \<Rightarrow> classification \<Rightarrow> int option \<Rightarrow> string \<Rightarrow> string option
           \<Rightarrow> string \<Rightarrow> 'j \<Rightarrow> (string + unit) \<times> 'j"
    and unpark_difficulty :: "'io \<Rightarrow> nat \<Rightarrow> 'j \<Rightarrow> (string + nat) \<times> 'j"
    and unpark_xuni :: "'io \<Rightarrow> int \<Rightarrow> 'j \<Rightarrow> (string + nat) \<times> 'j"
    and log_difficulty :: "'io \<Rightarrow> nat \<Rightarrow> string \<Rightarrow> 'j \<Rightarrow> (string + unit) \<times> 'j"
    and view :: "'j \<Rightarrow> find_record list"
    and valid :: "'j \<Rightarrow> bool"
  assumes ids_distinct: "valid j \<Longrightarrow> distinct (map r_id (view j))"
    and fetch_kind_sound:
      "valid j \<Longrightarrow> fetch_kind io k now n j = Inr rs \<Longrightarrow> r \<in> set rs \<Longrightarrow>
       r \<in> set (view j) \<and> r_status r = Pending \<and> p_kind (r_payload r) = k \<and> record_due now r"
    and fetch_unconfirmed_sound:
      "valid j \<Longrightarrow> fetch_unconfirmed io now n j = Inr rs \<Longrightarrow> r \<in> set rs \<Longrightarrow>
       r \<in> set (view j) \<and> r_status r = AcceptedUnconfirmed \<and> record_due now r"
    and fetch_unconfirmed_distinct:
      "valid j \<Longrightarrow> fetch_unconfirmed io now n j = Inr rs \<Longrightarrow> distinct (map r_id rs)"
    and record_fails: "record_outcome io i c h b nx t j = (Inl e, j') \<Longrightarrow> j' = j"
    and record_updates:
      "valid j \<Longrightarrow> record_outcome io i c h b nx t j = (Inr u, j') \<Longrightarrow>
       valid j' \<and> c_next_status c \<noteq> Submitting
       \<and> view j' = map (\<lambda>r. if r_id r = i then attempt_record c h b nx t r else r) (view j)"
    and unpark_difficulty_moves:
      "valid j \<Longrightarrow> valid (snd (unpark_difficulty io d j))
        \<and> list_all2 parked_step (view j) (view (snd (unpark_difficulty io d j)))"
    and unpark_xuni_moves:
      "valid j \<Longrightarrow> valid (snd (unpark_xuni io m j))
        \<and> list_all2 parked_step (view j) (view (snd (unpark_xuni io m j)))"
    and log_difficulty_keeps:
      "valid j \<Longrightarrow> valid (snd (log_difficulty io d t j)) \<and> view (snd (log_difficulty io d t j)) = view j"
begin

definition captures :: "'j \<Rightarrow> (int \<times> found_payload) list" where
  "captures j = map capture_of (view j)"

lemma parked_step_captures:
  "list_all2 parked_step (view j) (view j') \<Longrightarrow> captures j' = captures j"
  unfolding captures_def by (induction rule: list_all2_induct) (auto simp: parked_step_def)

lemma record_outcome_captures:
  assumes "valid j"
  shows "valid (snd (record_outcome io i c h b nx t j))"
    "captures (snd (record_outcome io i c h b nx t j)) = captures j"
proof -
  obtain res j' where r: "record_outcome io i c h b nx t j = (res, j')" by fastforce
  have cap: "capture_of (if r_id r = i then attempt_record c h b nx t r else r) = capture_of r" for r
    by (simp add: capture_of_def attempt_record_def)
  have "valid j' \<and> captures j' = captures j"
  proof (cases res)
    case (Inl e)
    then show ?thesis using record_fails r assms by blast
  next
    case (Inr u)
    then show ?thesis using record_updates[OF assms] r cap by (simp add: captures_def o_def)
  qed
  then show "valid (snd (record_outcome io i c h b nx t j))"
    "captures (snd (record_outcome io i c h b nx t j)) = captures j"
    by (simp_all add: r)
qed

lemma unpark_difficulty_captures:
  assumes "valid j"
  shows "valid (snd (unpark_difficulty io d j))" "captures (snd (unpark_difficulty io d j)) = captures j"
  using unpark_difficulty_moves[OF assms] parked_step_captures by blast+

lemma unpark_xuni_captures:
  assumes "valid j"
  shows "valid (snd (unpark_xuni io m j))" "captures (snd (unpark_xuni io m j)) = captures j"
  using unpark_xuni_moves[OF assms] parked_step_captures by blast+

lemma log_difficulty_captures:
  assumes "valid j"
  shows "valid (snd (log_difficulty io d t j))" "captures (snd (log_difficulty io d t j)) = captures j"
  using log_difficulty_keeps[OF assms] by (simp_all add: captures_def)

text \<open>A find that is settled stays exactly as it is under every store operation that is not an
  outcome recorded for it.\<close>

definition settled :: "'j \<Rightarrow> find_record set" where
  "settled j = {r \<in> set (view j). is_terminal (r_status r)}"

lemma parked_step_settled:
  assumes "list_all2 parked_step (view j) (view j')"
  shows "settled j \<subseteq> settled j'"
proof
  fix r assume "r \<in> settled j"
  then have "r \<in> set (view j)" "is_terminal (r_status r)" by (auto simp: settled_def)
  then obtain r' where "r' \<in> set (view j')" "parked_step r r'"
    using list_all2_memberD[OF assms] by blast
  then show "r \<in> settled j'" using \<open>is_terminal (r_status r)\<close>
    by (auto simp: parked_step_def settled_def is_terminal_iff)
qed

lemma record_outcome_settled:
  assumes "valid j" "\<And>r. r \<in> set (view j) \<Longrightarrow> r_id r = i \<Longrightarrow> \<not> is_terminal (r_status r)"
  shows "settled j \<subseteq> settled (snd (record_outcome io i c h b nx t j))"
proof -
  obtain res j' where r: "record_outcome io i c h b nx t j = (res, j')" by fastforce
  show ?thesis
  proof (cases res)
    case (Inl e)
    then show ?thesis using r record_fails by fastforce
  next
    case (Inr u)
    then have v: "view j' = map (\<lambda>r. if r_id r = i then attempt_record c h b nx t r else r) (view j)"
      using r record_updates assms(1) by blast
    show ?thesis
    proof
      fix x assume "x \<in> settled j"
      then have x: "x \<in> set (view j)" "is_terminal (r_status x)" by (auto simp: settled_def)
      then have "r_id x \<noteq> i" using assms(2) by blast
      then have "x \<in> set (view j')" using x v by force
      then show "x \<in> settled (snd (record_outcome io i c h b nx t j))" using x r by (simp add: settled_def)
    qed
  qed
qed

lemma id_determines: "valid j \<Longrightarrow> r \<in> set (view j) \<Longrightarrow> s \<in> set (view j) \<Longrightarrow> r_id r = r_id s \<Longrightarrow> r = s"
  using ids_distinct[of j] by (auto simp: distinct_map inj_on_def)

end

subsection \<open>The SQLite journal keeps the contract\<close>

definition journal_view :: "journal_db \<Rightarrow> find_record list" where
  "journal_view db = map record_of (finds db)"

lemma wrap_i32_succ: "wrap_i32 (wrap_i32 x + 1) = wrap_i32 (x + 1)"
  using mod_add_left_eq[of "x + 2 ^ 31" "2 ^ 32" 1] by (simp add: wrap_i32_def algebra_simps)

lemma or_default_text_or_null [simp]: "or_default [] (text_or_null s) = s"
  by (simp add: or_default_def text_or_null_def)

text \<open>Reading a row back, written out for a row whose texts are known to parse.\<close>

lemma record_of_parsed:
  assumes "kind_parse (q_kind row) = Some k" "q_status row = status_as_str s"
  shows "record_of row =
    \<lparr> r_id = q_id row,
      r_payload =
        \<lparr> p_key = q_key row, p_hash_to_verify = q_hash_to_verify row,
          p_account = q_account row, p_kind = k,
          p_memory_cost = nat (q_m row mod 2 ^ 32),
          p_worker = or_default [] (q_worker row),
          p_attempts = nat (or_default 0 (q_attempts row) mod 2 ^ 64),
          p_hashes_per_second = or_default (Finite 0) (q_hashes_per_second row),
          p_found_at_utc = q_found_at row \<rparr>,
      r_status = s, r_status_reason = or_default [] (q_status_reason row),
      r_attempt_count = wrap_i32 (q_attempt_count row),
      r_next_attempt_at = q_next_attempt_at row, r_last_attempt_at = q_last_attempt_at row,
      r_last_http_status = map_option wrap_i32 (q_last_http_status row),
      r_last_response = or_default [] (q_last_response row),
      r_confirmed_at = q_confirmed_at row,
      r_xuni_windows_tried = wrap_i32 (q_xuni_windows_tried row) \<rparr>"
  using assms by (simp add: record_of_def row_to_record_def kind_from_str_def status_from_str_def)

lemma row_wf_obtain:
  assumes "row_wf row"
  obtains k s where "kind_parse (q_kind row) = Some k" "q_status row = status_as_str s"
    "s \<noteq> Submitting" "r_status (record_of row) = s"
proof -
  obtain k s where ks: "kind_parse (q_kind row) = Some k" "status_parse (q_status row) = Some s"
    using assms by (auto simp: row_wf_def)
  then have st: "q_status row = status_as_str s"
    by (auto simp: status_parse_def split: if_splits)
  moreover have "s \<noteq> Submitting" using assms st by (auto simp: row_wf_def)
  moreover have "r_status (record_of row) = s" using record_of_parsed[OF ks(1) st] by simp
  ultimately show thesis using that ks(1) by blast
qed

lemma record_of_attempt_update:
  assumes "row_wf row"
  shows "record_of (attempt_update c h b nx t row) = attempt_record c h b nx t (record_of row)"
proof -
  obtain k s where ks: "kind_parse (q_kind row) = Some k" "q_status row = status_as_str s"
    using row_wf_obtain[OF assms] by metis
  have acked: "status_as_str (c_next_status c) = ''Acked'' \<longleftrightarrow> c_next_status c = Acked"
    by (cases "c_next_status c") simp_all
  have "kind_parse (q_kind (attempt_update c h b nx t row)) = Some k"
    "q_status (attempt_update c h b nx t row) = status_as_str (c_next_status c)"
    using ks by (simp_all add: attempt_update_def)
  from record_of_parsed[OF this] record_of_parsed[OF ks] show ?thesis
    by (simp add: attempt_update_def attempt_record_def acked wrap_i32_succ)
qed

lemma capture_of_captured:
  assumes "row_wf row" "row_wf row'" "captured row' = captured row"
  shows "capture_of (record_of row') = capture_of (record_of row)"
proof -
  obtain k s k' s' where "kind_parse (q_kind row) = Some k" "q_status row = status_as_str s"
    "kind_parse (q_kind row') = Some k'" "q_status row' = status_as_str s'"
    using assms row_wf_obtain by metis
  then show ?thesis using assms(3) record_of_parsed[of row k s] record_of_parsed[of row' k' s']
    by (simp add: capture_of_def captured_def)
qed

lemma parked_step_rows:
  assumes "row_wf row" "row_wf row'" "captured row' = captured row"
    "row' = row
     \<or> q_status row = ''ParkedDifficulty'' \<and> q_status row' = ''Pending''
     \<or> q_status row = ''ParkedXuniWindow'' \<and> (q_status row' = ''Pending'' \<or> q_status row' = ''Dead'')"
  shows "parked_step (record_of row) (record_of row')"
proof -
  have "status_as_str (r_status (record_of row)) = q_status row"
    "status_as_str (r_status (record_of row')) = q_status row'"
    using assms(1,2) record_of_fields(3) by blast+
  then have "q_status row = ''ParkedDifficulty'' \<Longrightarrow> r_status (record_of row) = ParkedDifficulty"
    "q_status row = ''ParkedXuniWindow'' \<Longrightarrow> r_status (record_of row) = ParkedXuniWindow"
    "q_status row' = ''Pending'' \<Longrightarrow> r_status (record_of row') = Pending"
    "q_status row' = ''Dead'' \<Longrightarrow> r_status (record_of row') = Dead"
    using status_as_str_inj by (metis status_as_str.simps)+
  then show ?thesis using assms(4) capture_of_captured[OF assms(1-3)] by (auto simp: parked_step_def)
qed

lemma journal_step_parks:
  assumes wf: "journal_wf db"
    and rows: "list_all2 (\<lambda>row row'. captured row' = captured row \<and> (row' = row
       \<or> q_status row = ''ParkedDifficulty'' \<and> q_status row' = ''Pending''
       \<or> q_status row = ''ParkedXuniWindow'' \<and> (q_status row' = ''Pending'' \<or> q_status row' = ''Dead'')))
      (finds db) (finds db')"
    and wf': "journal_wf db'"
  shows "list_all2 parked_step (journal_view db) (journal_view db')"
  unfolding journal_view_def list_all2_map1 list_all2_map2
proof (rule list_all2_all_nthI)
  show len: "length (finds db) = length (finds db')" using rows by (rule list_all2_lengthD)
  fix n assume n: "n < length (finds db)"
  then have "row_wf (finds db ! n)" "row_wf (finds db' ! n)"
    using wf wf' len by (auto simp: journal_wf_def list_all_length)
  then show "parked_step (record_of (finds db ! n)) (record_of (finds db' ! n))"
    using list_all2_nthD[OF rows n] by (intro parked_step_rows) auto
qed

lemma fetch_by_status_sound:
  assumes wf: "journal_wf db" and f: "fetch_by_status io (status_as_str st) kind now n db = Inr rs"
    and r: "r \<in> set rs"
  shows "r \<in> set (journal_view db) \<and> r_status r = st
    \<and> (\<forall>k. kind = Some (kind_as_str k) \<longrightarrow> p_kind (r_payload r) = k) \<and> record_due now r"
proof -
  let ?sel = "select_rows (status_as_str st) kind now (finds db)"
  have "rmapM (row_to_record io) (sql_limit (wrap_i64 (int n)) (sort_key q_id ?sel)) = Inr rs"
    using f by (auto simp: fetch_by_status_def rbind_Inr_iff)
  from rmapM_memberD[OF this r] obtain row
    where "row \<in> set (sql_limit (wrap_i64 (int n)) (sort_key q_id ?sel))"
    and row: "row_to_record io row = Inr r" by blast
  then have sel: "row \<in> set ?sel" by (auto simp: sql_limit_def dest: in_set_takeD split: if_splits)
  have q: "row \<in> set (finds db)" "q_status row = status_as_str st" "row_due now row"
    "\<And>k. kind = Some k \<Longrightarrow> q_kind row = k"
    using sel unfolding set_select_rows by blast+
  have w: "row_wf row" using wf q(1) by (simp add: journal_wf_def list_all_iff)
  have "io ''read column'' = None" using row by (auto simp: row_to_record_def rbind_Inr_iff)
  then have "r = record_of row" using row_to_record_of[OF w] row by simp
  moreover have "r_status (record_of row) = st" "record_due now (record_of row)"
    using record_of_fields(3,4)[OF w] q(2,3) status_as_str_inj by (auto simp: record_due_def row_due_def)
  moreover have "kind = Some (kind_as_str k) \<Longrightarrow> p_kind (r_payload (record_of row)) = k" for k
    using record_of_fields(2)[OF w] q(4)[of "kind_as_str k"] kind_parse_as_str by (metis option.inject)
  ultimately show ?thesis using q(1) by (auto simp: journal_view_def)
qed

lemma fetch_by_status_distinct:
  assumes wf: "journal_wf db" and f: "fetch_by_status io st kind now n db = Inr rs"
  shows "distinct (map r_id rs)"
proof -
  let ?rows = "sql_limit (wrap_i64 (int n)) (sort_key q_id (select_rows st kind now (finds db)))"
  have "rmapM (row_to_record io) ?rows = Inr rs" using f by (auto simp: fetch_by_status_def rbind_Inr_iff)
  then have "list_all2 (\<lambda>row r. row_to_record io row = Inr r) ?rows rs" by (rule rmapM_Inr)
  then have "map r_id rs = map q_id ?rows"
    by (induction rule: list_all2_induct) (auto simp: row_to_record_def rbind_Inr_iff)
  moreover have "distinct (map q_id (finds db))"
    using wf strict_sorted_iff[of "map q_id (finds db)"] by (simp add: journal_wf_def)
  then have "distinct (map q_id (sort_key q_id (select_rows st kind now (finds db))))"
    by (auto simp: select_rows_def distinct_map inj_on_def)
  then have "distinct (map q_id ?rows)"
    by (simp add: sql_limit_def take_map[symmetric])
  ultimately show ?thesis by simp
qed

lemma bridge_record_updates:
  assumes wf: "journal_wf db" and ok: "bridge_record_attempt io i c h b nx t db = (Inr u, db')"
  shows "journal_wf db' \<and> c_next_status c \<noteq> Submitting
    \<and> journal_view db' = map (\<lambda>r. if r_id r = i then attempt_record c h b nx t r else r) (journal_view db)"
proof -
  have s: "c_next_status c \<noteq> Submitting"
    and db': "db' = update_where (\<lambda>row. q_id row = i) (attempt_update c h b nx t) db"
    using ok by (auto simp: bridge_record_attempt_def record_attempt_def apfst_def map_prod_def settle_ok
        rbind_Inr_iff split: prod.splits if_splits)
  have "journal_wf db'"
    unfolding db' using wf s
    by (intro update_where_wf) (auto simp: attempt_update_def status_not_submitting captured_def)
  moreover have "record_of (if q_id row = i then attempt_update c h b nx t row else row)
      = (if r_id (record_of row) = i then attempt_record c h b nx t (record_of row) else record_of row)"
    if "row \<in> set (finds db)" for row
    using that wf record_of_attempt_update record_of_fields(1)
    by (auto simp: journal_wf_def list_all_iff)
  ultimately show ?thesis using s by (simp add: journal_view_def db' finds_update_where)
qed

lemma unpark_difficulty_rows:
  assumes "journal_wf db"
  shows "journal_wf (snd (unpark_for_difficulty io d db))"
    "list_all2 parked_step (journal_view db) (journal_view (snd (unpark_for_difficulty io d db)))"
proof -
  show wf: "journal_wf (snd (unpark_for_difficulty io d db))"
    using journal_step_wf[OF assms next_rowid_fresh, of io "OpUnparkDifficulty d"] by simp
  show "list_all2 parked_step (journal_view db) (journal_view (snd (unpark_for_difficulty io d db)))"
    by (rule journal_step_parks[OF assms _ wf])
       (auto simp: unpark_for_difficulty_def snd_settle Let_def finds_update_where rbind_Inr_iff
         list_all2_map2 list_all2_same split: sum.splits)
qed

lemma unpark_xuni_rows:
  assumes "journal_wf db"
  shows "journal_wf (snd (unpark_xuni_for_window io m db))"
    "list_all2 parked_step (journal_view db) (journal_view (snd (unpark_xuni_for_window io m db)))"
proof -
  show wf: "journal_wf (snd (unpark_xuni_for_window io m db))"
    using journal_step_wf[OF assms next_rowid_fresh, of io "OpUnparkXuni m"] by simp
  show "list_all2 parked_step (journal_view db) (journal_view (snd (unpark_xuni_for_window io m db)))"
    by (rule journal_step_parks[OF assms _ wf])
       (auto simp: unpark_xuni_for_window_def snd_settle Let_def finds_update_where rbind_Inr_iff
         list_all2_map2 list_all2_same exhaust_row_def readmit_row_def captured_def split: sum.splits)
qed

lemma snd_apfst [simp]: "snd (apfst f p) = snd p"
  by (cases p) simp

interpretation jb: journal_access bridge_fetch_eligible_of_kind bridge_fetch_awaiting_confirmation
  bridge_record_attempt bridge_unpark_for_difficulty bridge_unpark_xuni_for_window
  bridge_record_difficulty journal_view journal_wf
proof unfold_locales
  fix j j' :: journal_db and io k now n rs r i c h b nx t e u d m
  show "journal_wf j \<Longrightarrow> distinct (map r_id (journal_view j))"
  proof -
    assume wf: "journal_wf j"
    then have "map r_id (journal_view j) = map q_id (finds j)"
      by (auto simp: journal_view_def journal_wf_def list_all_iff record_of_fields(1))
    then show "distinct (map r_id (journal_view j))"
      using wf strict_sorted_iff[of "map q_id (finds j)"] by (simp add: journal_wf_def)
  qed
  show "journal_wf j \<Longrightarrow> bridge_fetch_eligible_of_kind io k now n j = Inr rs \<Longrightarrow> r \<in> set rs \<Longrightarrow>
      r \<in> set (journal_view j) \<and> r_status r = Pending \<and> p_kind (r_payload r) = k \<and> record_due now r"
    using fetch_by_status_sound[of j io Pending "Some (kind_as_str k)" now n rs r]
    by (simp add: bridge_fetch_eligible_of_kind_def fetch_eligible_of_kind_def)
  show "journal_wf j \<Longrightarrow> bridge_fetch_awaiting_confirmation io now n j = Inr rs \<Longrightarrow> r \<in> set rs \<Longrightarrow>
      r \<in> set (journal_view j) \<and> r_status r = AcceptedUnconfirmed \<and> record_due now r"
    using fetch_by_status_sound[of j io AcceptedUnconfirmed None now n rs r]
    by (simp add: bridge_fetch_awaiting_confirmation_def fetch_awaiting_confirmation_def)
  show "journal_wf j \<Longrightarrow> bridge_fetch_awaiting_confirmation io now n j = Inr rs \<Longrightarrow> distinct (map r_id rs)"
    using fetch_by_status_distinct[of j io "''AcceptedUnconfirmed''" None now n rs]
    by (simp add: bridge_fetch_awaiting_confirmation_def fetch_awaiting_confirmation_def)
  show "bridge_record_attempt io i c h b nx t j = (Inl e, j') \<Longrightarrow> j' = j"
    by (auto simp: bridge_record_attempt_def record_attempt_def apfst_def map_prod_def map_err_Inl_iff
        split: prod.splits dest: settle_error)
  show "journal_wf j \<Longrightarrow> bridge_record_attempt io i c h b nx t j = (Inr u, j') \<Longrightarrow>
      journal_wf j' \<and> c_next_status c \<noteq> Submitting
      \<and> journal_view j' = map (\<lambda>r. if r_id r = i then attempt_record c h b nx t r else r) (journal_view j)"
    by (rule bridge_record_updates)
  show "journal_wf j \<Longrightarrow> journal_wf (snd (bridge_unpark_for_difficulty io d j))
      \<and> list_all2 parked_step (journal_view j) (journal_view (snd (bridge_unpark_for_difficulty io d j)))"
    by (simp add: bridge_unpark_for_difficulty_def unpark_difficulty_rows)
  show "journal_wf j \<Longrightarrow> journal_wf (snd (bridge_unpark_xuni_for_window io m j))
      \<and> list_all2 parked_step (journal_view j) (journal_view (snd (bridge_unpark_xuni_for_window io m j)))"
    by (simp add: bridge_unpark_xuni_for_window_def unpark_xuni_rows)
  show "journal_wf j \<Longrightarrow> journal_wf (snd (bridge_record_difficulty io d t j))
      \<and> journal_view (snd (bridge_record_difficulty io d t j)) = journal_view j"
    by (auto simp: bridge_record_difficulty_def record_difficulty_def snd_settle rbind_Inr_iff
        journal_view_def journal_wf_def split: sum.splits)
qed

end
