(* ===== verification/Classifier.thy ===== *)
theory Classifier
  imports Core_Types
begin

text \<open>
  \<^verbatim>\<open>tm-submit/src/classifier.rs\<close>: the hand-written JSON scanner, the two bounded number
  parsers and the truth table that turns one \<^verbatim>\<open>/verify\<close> response into a verdict.

  The scanner's cursor \<^verbatim>\<open>(s, &mut i)\<close> is the remaining suffix of the body: a function that
  advances \<^verbatim>\<open>i\<close> returns the rest, and a function that fails returns \<^term>\<open>None\<close>, after which
  no caller looks at the cursor again.  \<^verbatim>\<open>String::from_utf8_lossy\<close> is the identity here: the
  scanner copies a UTF-8 body byte by byte and only cuts or substitutes at ASCII bytes.
\<close>

definition TRANSPORT_ERROR :: int where "TRANSPORT_ERROR = 0"

definition is_blank :: "string \<Rightarrow> bool" where
  "is_blank s = list_all is_ascii_whitespace s"

definition skip_ws :: "string \<Rightarrow> string" where
  "skip_ws s = dropWhile is_ascii_whitespace s"

abbreviation quote :: char where "quote \<equiv> CHR 0x22"
abbreviation backslash :: char where "backslash \<equiv> CHR 0x5C"

text \<open>The single-character escapes of a JSON string.\<close>

definition json_escape :: "char \<Rightarrow> char option" where
  "json_escape c =
     (if c = quote then Some quote
      else if c = backslash then Some backslash
      else if c = CHR ''/'' then Some (CHR ''/'')
      else if c = CHR ''b'' then Some (CHR 0x08)
      else if c = CHR ''f'' then Some (CHR 0x0c)
      else if c = CHR ''n'' then Some (CHR 0x0a)
      else if c = CHR ''r'' then Some (CHR 0x0d)
      else if c = CHR ''t'' then Some (CHR 0x09)
      else None)"

fun hex_code :: "nat \<Rightarrow> string \<Rightarrow> nat option" where
  "hex_code code [] = Some code"
| "hex_code code (h # hs) =
     (case to_digit16 h of None \<Rightarrow> None | Some d \<Rightarrow> hex_code (code * 16 + d) hs)"

definition unescape_code :: "nat \<Rightarrow> char" where
  "unescape_code code = (if code < 0x80 then char_of code else CHR ''?'')"

text \<open>The byte an escape stands for, with the text after it; the cursor is past the backslash.\<close>

definition unescape :: "string \<Rightarrow> (char \<times> string) option" where
  "unescape s =
     (case s of
        [] \<Rightarrow> None
      | e # s1 \<Rightarrow>
          (case json_escape e of
             Some b \<Rightarrow> Some (b, s1)
           | None \<Rightarrow>
               if e = CHR ''u'' then
                 (case s1 of
                    h1 # h2 # h3 # h4 # s2 \<Rightarrow>
                      map_option (\<lambda>code. (unescape_code code, s2)) (hex_code 0 [h1, h2, h3, h4])
                  | _ \<Rightarrow> None)
               else None))"

lemma unescape_shorter: "unescape s = Some (b, r) \<Longrightarrow> length r < length s"
  by (auto simp: unescape_def split: list.splits option.splits if_splits)

function json_str_body :: "string \<Rightarrow> string \<Rightarrow> (string \<times> string) option" where
  "json_str_body out [] = None"
| "json_str_body out (c # s) =
     (if c = quote then Some (out, s)
      else if c = backslash then
        (case unescape s of
           None \<Rightarrow> None
         | Some (b, r) \<Rightarrow> json_str_body (out @ [b]) r)
      else json_str_body (out @ [c]) s)"
  by pat_completeness auto
termination
  by (relation "measure (\<lambda>(out, s). length s)") (auto dest: unescape_shorter)

definition parse_json_string :: "string \<Rightarrow> (string \<times> string) option" where
  "parse_json_string s =
     (case s of
        [] \<Rightarrow> None
      | c # r \<Rightarrow> if c \<noteq> quote then None else json_str_body [] r)"

lemma json_str_body_shorter: "json_str_body out s = Some (v, r) \<Longrightarrow> length r < length s"
proof (induction out s rule: json_str_body.induct)
  case (2 out c s)
  show ?case
  proof (cases "c = backslash")
    case True
    with "2.prems" obtain b t where u: "unescape s = Some (b, t)"
      and t: "json_str_body (out @ [b]) t = Some (v, r)"
      by (auto split: option.splits)
    from "2.IH"(1)[of "(b, t)" b t] True u t have "length r < length t" by simp
    with unescape_shorter[OF u] show ?thesis by simp
  next
    case False
    then show ?thesis using "2.IH"(2) "2.prems" by (cases "c = quote") auto
  qed
qed simp

lemma parse_json_string_shorter: "parse_json_string s = Some (v, r) \<Longrightarrow> length r < length s"
  by (auto simp: parse_json_string_def split: list.splits if_splits dest: json_str_body_shorter)

text \<open>The bracket-matching loop of \<^verbatim>\<open>skip_json_value\<close>.\<close>

function skip_struct :: "char \<Rightarrow> char \<Rightarrow> int \<Rightarrow> string \<Rightarrow> string option" where
  "skip_struct opn cls depth [] = None"
| "skip_struct opn cls depth (d # s) =
     (if d = quote then
        (case parse_json_string (d # s) of
           None \<Rightarrow> None
         | Some (v, r) \<Rightarrow> skip_struct opn cls depth r)
      else
        let depth1 = (if d = opn then depth + 1 else depth)
        in if d = cls then
             (if depth1 - 1 = 0 then Some s else skip_struct opn cls (depth1 - 1) s)
           else skip_struct opn cls depth1 s)"
  by pat_completeness auto
termination
  by (relation "measure (\<lambda>(opn, cls, depth, s). length s)")
    (auto dest: parse_json_string_shorter)

definition scalar_char :: "char \<Rightarrow> bool" where
  "scalar_char c \<longleftrightarrow>
     c \<noteq> CHR '','' \<and> c \<noteq> CHR ''}'' \<and> c \<noteq> CHR '']'' \<and> \<not> is_ascii_whitespace c"

definition skip_json_value :: "string \<Rightarrow> string option" where
  "skip_json_value s0 =
     (case skip_ws s0 of
        [] \<Rightarrow> None
      | c # s \<Rightarrow>
          if c = quote then map_option snd (parse_json_string (c # s))
          else if c = CHR ''{'' \<or> c = CHR ''['' then
            skip_struct c (if c = CHR ''{'' then CHR ''}'' else CHR '']'') 0 (c # s)
          else Some (dropWhile scalar_char (c # s)))"

definition capture_scalar :: "string \<Rightarrow> string option" where
  "capture_scalar s0 =
     (case skip_ws s0 of
        [] \<Rightarrow> None
      | c # s \<Rightarrow>
          if c = quote then map_option fst (parse_json_string (c # s))
          else if c = CHR ''{'' \<or> c = CHR ''['' then None
          else Some (takeWhile scalar_char (c # s)))"

lemma length_skip_ws: "length (skip_ws s) \<le> length s"
  by (simp add: skip_ws_def length_dropWhile_le)

lemma skip_struct_shorter: "skip_struct opn cls depth s = Some r \<Longrightarrow> length r < length s"
proof (induction opn cls depth s rule: skip_struct.induct)
  case (2 opn cls depth d s)
  then show ?case
    by (auto simp: Let_def split: if_splits option.splits dest!: parse_json_string_shorter) fastforce+
qed simp

lemma skip_json_value_le: "skip_json_value s = Some r \<Longrightarrow> length r \<le> length s"
proof (cases "skip_ws s")
  case (Cons c t)
  assume r: "skip_json_value s = Some r"
  have "length r \<le> length (c # t)"
    using r length_dropWhile_le[of scalar_char "c # t"]
    unfolding skip_json_value_def Cons list.case
    by (auto simp del: dropWhile.simps split: if_splits
        dest!: parse_json_string_shorter skip_struct_shorter)
  then show ?thesis using Cons length_skip_ws[of s] by simp
qed (simp add: skip_json_value_def)

text \<open>The member loop of \<^verbatim>\<open>extract_json_field\<close>.\<close>

function extract_members :: "string \<Rightarrow> string \<Rightarrow> string option" where
  "extract_members key s =
     (case parse_json_string (skip_ws s) of
        None \<Rightarrow> None
      | Some (k, r) \<Rightarrow>
          (case skip_ws r of
             [] \<Rightarrow> None
           | c # r1 \<Rightarrow>
               if c \<noteq> CHR '':'' then None
               else if k = key then capture_scalar r1
               else
                 (case skip_json_value r1 of
                    None \<Rightarrow> None
                  | Some r2 \<Rightarrow>
                      (case skip_ws r2 of
                         [] \<Rightarrow> None
                       | d # r3 \<Rightarrow> if d = CHR '','' then extract_members key r3 else None))))"
  by pat_completeness auto
termination
proof (relation "measure (\<lambda>(key, s). length s)", goal_cases)
  case (2 key s kr k r c r1 r2 d r3)
  then have "length r < length (skip_ws s)" by (auto dest: parse_json_string_shorter)
  moreover have "length r1 < length r" using 2 length_skip_ws[of r] by simp
  moreover have "length r2 \<le> length r1" using 2 by (auto dest: skip_json_value_le)
  moreover have "length r3 < length r2" using 2 length_skip_ws[of r2] by simp
  ultimately show ?case using length_skip_ws[of s] by simp
qed simp

declare extract_members.simps [simp del]

definition extract_json_field :: "string \<Rightarrow> string \<Rightarrow> string option" where
  "extract_json_field body key =
     (case skip_ws body of
        [] \<Rightarrow> None
      | c # s \<Rightarrow>
          if c \<noteq> CHR ''{'' then None
          else (case skip_ws s of
                  [] \<Rightarrow> None
                | d # s1 \<Rightarrow> if d = CHR ''}'' then None else extract_members key (d # s1)))"

definition extract_json_message :: "string \<Rightarrow> string option" where
  "extract_json_message body =
     (case extract_json_field body ''message'' of
        Some m \<Rightarrow> Some m
      | None \<Rightarrow> extract_json_field body ''error'')"

subsection \<open>Number parsers\<close>

definition u32_max :: nat where "u32_max = 4294967295"

fun hint_digits :: "nat \<Rightarrow> string \<Rightarrow> nat option" where
  "hint_digits value [] = Some value"
| "hint_digits value (c # s) =
     (if is_ascii_digit c then
        let value' = value * 10 + digit_val c
        in if u32_max < value' then None else hint_digits value' s
      else Some value)"

fun parse_difficulty_hint :: "string \<Rightarrow> nat option" where
  "parse_difficulty_hint (a # b # s) =
     (if a = CHR ''m'' \<and> b = CHR ''='' \<and> s \<noteq> [] \<and> is_ascii_digit (hd s)
      then hint_digits 0 s
      else parse_difficulty_hint (b # s))"
| "parse_difficulty_hint _ = None"

fun retry_digits :: "int \<Rightarrow> string \<Rightarrow> (int \<times> string) option" where
  "retry_digits value [] = Some (value, [])"
| "retry_digits value (c # s) =
     (if is_ascii_digit c then
        if 100000000 < value then None
        else retry_digits (value * 10 + int (digit_val c)) s
      else Some (value, c # s))"

definition parse_retry_after_seconds :: "string \<Rightarrow> int option" where
  "parse_retry_after_seconds header_value =
     (case skip_ws header_value of
        [] \<Rightarrow> None
      | c # s \<Rightarrow>
          if \<not> is_ascii_digit c then None
          else (case retry_digits 0 (c # s) of
                  None \<Rightarrow> None
                | Some (value, r) \<Rightarrow> if skip_ws r \<noteq> [] then None else Some value))"

subsection \<open>The truth table\<close>

definition TERMINAL_MARKERS :: "string list" where
  "TERMINAL_MARKERS =
     [''Invalid key format'',
      ''Invalid salt format'',
      ''Missing hash_to_verify, key, or account'',
      ''Hash does not contain any of the valid targets'',
      ''should not be greater than 150 characters'',
      ''Hash verification failed'']"

definition terminal_marker :: "string \<Rightarrow> string option" where
  "terminal_marker message = List.find (str_contains message) TERMINAL_MARKERS"

definition is_xuni_window_rejection :: "string \<Rightarrow> bool" where
  "is_xuni_window_rejection message \<longleftrightarrow>
     str_contains message ''outside of proper time frame''
   \<or> str_contains message ''outside of time window''
   \<or> str_contains message ''time frame''
   \<or> str_contains message ''time window''"

definition is_difficulty_mismatch :: "string \<Rightarrow> bool" where
  "is_difficulty_mismatch message \<longleftrightarrow>
     str_contains message (''Hash does not contain '' @ [CHR 0x27] @ ''m='')
   \<or> (str_contains message ''does not contain'' \<and> str_contains message ''m='')"

definition pending :: "string \<Rightarrow> classification" where
  "pending reason =
     \<lparr> c_next_status = Pending, c_server_difficulty_hint = None,
       c_needs_lookup_confirmation = False, c_reason = reason \<rparr>"

definition quarantined :: "string \<Rightarrow> classification" where
  "quarantined reason =
     \<lparr> c_next_status = Quarantined, c_server_difficulty_hint = None,
       c_needs_lookup_confirmation = False, c_reason = reason \<rparr>"

text \<open>The em dash of the reason texts, in UTF-8.\<close>

definition em_dash :: string where
  "em_dash = [CHR 0xE2, CHR 0x80, CHR 0x94]"

definition classify :: "int \<Rightarrow> string \<Rightarrow> find_kind \<Rightarrow> string option \<Rightarrow> classification" where
  "classify http_status body kind retry_after =
    (if http_status \<le> 0 then pending ''transport failure; will retry with backoff''
     else if body = [] \<or> is_blank body then
       pending (''empty response body (http '' @ show_int http_status
                @ ''); will retry with backoff'')
     else
       let message = (case extract_json_message body of Some m \<Rightarrow> m | None \<Rightarrow> body)
       in if http_status = 200 then
            \<lparr> c_next_status = AcceptedUnconfirmed, c_server_difficulty_hint = None,
              c_needs_lookup_confirmation = True,
              c_reason = ''http 200; awaiting /get_block confirmation'' \<rparr>
          else if http_status = 429 then
            (let c = pending ''rate limited (429)''
             in case Option.bind retry_after parse_retry_after_seconds of
                  Some secs \<Rightarrow>
                    c\<lparr> c_reason := c_reason c @ ''; retry_after_s='' @ show_int secs \<rparr>
                | None \<Rightarrow> c)
          else if http_status = 408 \<or> http_status = 425 \<or> 500 \<le> http_status then
            pending (''server unhealthy (http '' @ show_int http_status
                     @ ''); will retry with backoff'')
          else if (http_status = 400 \<or> http_status = 409)
                  \<and> str_contains message ''already exists'' then
            \<lparr> c_next_status = AcceptedUnconfirmed, c_server_difficulty_hint = None,
              c_needs_lookup_confirmation = True,
              c_reason = ''duplicate key (already exists); confirming via /get_block'' \<rparr>
          else
            case terminal_marker message of
              Some marker \<Rightarrow>
                \<lparr> c_next_status = PermanentlyInvalid, c_server_difficulty_hint = None,
                  c_needs_lookup_confirmation = False,
                  c_reason = ''server rejected permanently (http '' @ show_int http_status
                    @ '', matched '' @ [quote] @ marker @ [quote]
                    @ ''); retrying cannot change this answer: '' @ message \<rparr>
            | None \<Rightarrow>
                if is_xuni_window_rejection message then
                  if kind = Xuni then
                    \<lparr> c_next_status = ParkedXuniWindow, c_server_difficulty_hint = None,
                      c_needs_lookup_confirmation = False,
                      c_reason =
                        ''XUNI outside server time window; parked for a later window'' \<rparr>
                  else quarantined
                    (''IMPOSSIBLE: XUNI-window rejection for a XEN11 record '' @ em_dash
                     @ '' server semantics changed, investigate: '' @ message)
                else
                  case (if is_difficulty_mismatch message \<or> http_status = 401
                        then parse_difficulty_hint message else None) of
                    Some hint \<Rightarrow>
                      \<lparr> c_next_status = ParkedDifficulty, c_server_difficulty_hint = Some hint,
                        c_needs_lookup_confirmation = False,
                        c_reason = ''difficulty too low (server currently at m=''
                          @ show_nat hint @ ''); parked until difficulty falls'' \<rparr>
                  | None \<Rightarrow>
                      quarantined (''unrecognized response (http '' @ show_int http_status
                                   @ ''): '' @ message))"

subsection \<open>What the verdicts mean\<close>

text \<open>The text the table is matched against: the \<^verbatim>\<open>message\<close> or \<^verbatim>\<open>error\<close> field of a
  JSON body, the raw body otherwise.\<close>

definition response_message :: "string \<Rightarrow> string" where
  "response_message body = (case extract_json_message body of Some m \<Rightarrow> m | None \<Rightarrow> body)"

lemmas classify_unfold =
  classify_def Let_def pending_def quarantined_def response_message_def[symmetric]

lemma terminal_marker_Some:
  "terminal_marker m = Some k \<Longrightarrow> k \<in> set TERMINAL_MARKERS \<and> str_contains m k"
  by (auto simp: terminal_marker_def find_Some_iff)

lemma classify_transport: "st \<le> 0 \<Longrightarrow> c_next_status (classify st body kind ra) = Pending"
  by (simp add: classify_unfold)

lemma classify_blank:
  "body = [] \<or> is_blank body \<Longrightarrow> c_next_status (classify st body kind ra) = Pending"
  by (simp add: classify_unfold)

lemma classify_unhealthy:
  "st = 408 \<or> st = 425 \<or> st = 429 \<or> 500 \<le> st \<Longrightarrow> c_next_status (classify st body kind ra) = Pending"
  by (auto simp: classify_unfold split: option.splits)

lemma classify_range:
  "c_next_status (classify st body kind ra)
     \<in> {Pending, AcceptedUnconfirmed, PermanentlyInvalid, ParkedXuniWindow, ParkedDifficulty,
        Quarantined}"
  by (simp add: classify_unfold split: option.split)

lemma classify_lookup:
  "c_needs_lookup_confirmation (classify st body kind ra)
     = (c_next_status (classify st body kind ra) = AcceptedUnconfirmed)"
  by (simp add: classify_unfold split: option.split)

lemma classify_hint:
  "(c_server_difficulty_hint (classify st body kind ra) = None)
     = (c_next_status (classify st body kind ra) \<noteq> ParkedDifficulty)"
  by (simp add: classify_unfold split: option.split)

lemma classify_parks_only_xuni:
  "c_next_status (classify st body Xen11 ra) \<noteq> ParkedXuniWindow"
  by (simp add: classify_unfold split: option.split)

lemma classify_invalid:
  assumes "c_next_status (classify st body kind ra) = PermanentlyInvalid"
  obtains k where "terminal_marker (response_message body) = Some k"
    and "0 < st" and "st \<notin> {200, 408, 425, 429}" and "st < 500" and "\<not> is_blank body"
  using assms that by (auto simp: classify_unfold split: if_splits option.splits)

lemma hint_digits_bound: "hint_digits v s = Some n \<Longrightarrow> v \<le> u32_max \<Longrightarrow> n \<le> u32_max"
  by (induction v s rule: hint_digits.induct) (auto simp: Let_def split: if_splits)

lemma parse_difficulty_hint_bound: "parse_difficulty_hint s = Some n \<Longrightarrow> n \<le> u32_max"
  by (induction s rule: parse_difficulty_hint.induct)
    (auto split: if_splits dest: hint_digits_bound)

lemma hint_digits_value:
  assumes "\<And>c. c \<in> set s \<Longrightarrow> is_ascii_digit c" and "digits_value v s \<le> u32_max"
    and "rest = [] \<or> \<not> is_ascii_digit (hd rest)"
  shows "hint_digits v (s @ rest) = Some (digits_value v s)"
  using assms
proof (induction s arbitrary: v)
  case Nil
  then show ?case by (cases rest) auto
next
  case (Cons c s)
  have mono: "w \<le> digits_value w t" for w t
  proof (induction t arbitrary: w)
    case (Cons d t)
    have "w \<le> w * 10 + digit_val d" by simp
    also have "\<dots> \<le> digits_value (w * 10 + digit_val d) t" by (rule Cons.IH)
    finally show ?case by simp
  qed simp
  have "v * 10 + digit_val c \<le> u32_max"
    using Cons.prems(2) mono[of "v * 10 + digit_val c" s] by simp
  with Cons show ?case by (simp add: Let_def)
qed

lemma parse_difficulty_hint_show:
  assumes "n \<le> u32_max" and "rest = [] \<or> \<not> is_ascii_digit (hd rest)"
  shows "parse_difficulty_hint (''m='' @ show_nat n @ rest) = Some n"
proof -
  have "show_nat n @ rest \<noteq> []" by simp
  moreover have "is_ascii_digit (hd (show_nat n @ rest))"
    using show_nat_digits[of "hd (show_nat n)" n] by simp
  moreover have "hint_digits 0 (show_nat n @ rest) = Some n"
    using hint_digits_value[of "show_nat n" 0 rest] show_nat_digits assms by simp
  ultimately show ?thesis by simp
qed

text \<open>C23.  a verdict never writes a find off because of the server's or the network's state.  The only
  terminal verdict the classifier can return is \<^const>\<open>PermanentlyInvalid\<close>, and only for a
  conclusive non-200 answer below 500 that is neither 408, 425 nor 429, has a non-blank body and
  carries one of the terminal markers verbatim.\<close>

theorem terminal_verdict_is_conclusive:
  assumes "is_terminal (c_next_status (classify st body kind ra))"
  shows "c_next_status (classify st body kind ra) = PermanentlyInvalid
    \<and> 0 < st \<and> st < 500 \<and> st \<notin> {200, 408, 425, 429} \<and> \<not> is_blank body
    \<and> list_ex (str_contains (response_message body)) TERMINAL_MARKERS"
proof -
  have s: "c_next_status (classify st body kind ra) = PermanentlyInvalid"
    using assms classify_range[of st body kind ra] by (auto simp: is_terminal_iff)
  obtain k where k: "terminal_marker (response_message body) = Some k"
    and rest: "0 < st" "st \<notin> {200, 408, 425, 429}" "st < 500" "\<not> is_blank body"
    by (rule classify_invalid[OF s])
  from terminal_marker_Some[OF k] rest s show ?thesis by (auto simp: list_ex_iff)
qed

theorem terminal_verdict_is_conclusive_witness:
  "\<not> is_blank ''Hash verification failed.''"
proof -
  have "is_terminal (c_next_status (classify 401 ''Hash verification failed.'' Xen11 None))"
    by code_simp
  from terminal_verdict_is_conclusive[OF this] show ?thesis by blast
qed

text \<open>C24.  the shape of every verdict.  A 200 is never more than \<^const>\<open>AcceptedUnconfirmed\<close>; the
  \<^verbatim>\<open>/get_block\<close> lookup is requested for exactly the accepted verdicts; a difficulty hint
  accompanies exactly the difficulty parks and fits 32 bits; a XEN11 find is never parked for a
  XUNI window.\<close>

theorem verdict_shape:
  "(c_needs_lookup_confirmation (classify st body kind ra)
      = (c_next_status (classify st body kind ra) = AcceptedUnconfirmed))
   \<and> ((c_server_difficulty_hint (classify st body kind ra) = None)
      = (c_next_status (classify st body kind ra) \<noteq> ParkedDifficulty))
   \<and> pred_option (\<lambda>h. h \<le> u32_max) (c_server_difficulty_hint (classify st body kind ra))
   \<and> c_next_status (classify st body kind ra) \<notin> {Submitting, Acked, Dead}
   \<and> c_next_status (classify st body Xen11 ra) \<noteq> ParkedXuniWindow"
proof (intro conjI classify_lookup classify_hint classify_parks_only_xuni)
  show "pred_option (\<lambda>h. h \<le> u32_max) (c_server_difficulty_hint (classify st body kind ra))"
    using parse_difficulty_hint_bound
    by (auto simp: classify_unfold split: option.splits if_splits)
  show "c_next_status (classify st body kind ra) \<notin> {Submitting, Acked, Dead}"
    using classify_range[of st body kind ra] by auto
qed

end
