(* ===== verification/Core_Encoding.thy ===== *)
theory Core_Encoding
  imports Core_Types
begin

text \<open>
  \<^verbatim>\<open>tm-core/src/encoding.rs\<close>, \<^verbatim>\<open>matching.rs\<close> and \<^verbatim>\<open>address.rs\<close>: unpadded base64,
  hex decoding, PHC assembly, the find-detection rules and EIP-55 addresses.  The \<^verbatim>\<open>hex\<close>
  crate's \<^verbatim>\<open>decode\<close> and the \<^verbatim>\<open>sha3\<close> crate's Keccak-256 are parameters.
\<close>

subsection \<open>Base64\<close>

definition base64_chars :: string where
  "base64_chars = ''ABCDEFGHIJKLMNOPQRSTUVWXYZabcdefghijklmnopqrstuvwxyz0123456789+/''"

definition base64_char :: "u32 \<Rightarrow> char" where
  "base64_char v = base64_chars ! unat (v AND 0x3f)"

fun base64_encode :: "bytes \<Rightarrow> string" where
  "base64_encode (a # b # c # rest) =
     (let v = push_bit 16 (ucast a) OR push_bit 8 (ucast b) OR (ucast c :: u32)
      in base64_char (drop_bit 18 v) # base64_char (drop_bit 12 v)
         # base64_char (drop_bit 6 v) # base64_char v # base64_encode rest)"
| "base64_encode [a] =
     (let v = push_bit 16 (ucast a :: u32)
      in [base64_char (drop_bit 18 v), base64_char (drop_bit 12 v)])"
| "base64_encode [a, b] =
     (let v = push_bit 16 (ucast a) OR (push_bit 8 (ucast b) :: u32)
      in [base64_char (drop_bit 18 v), base64_char (drop_bit 12 v), base64_char (drop_bit 6 v)])"
| "base64_encode [] = []"

definition base64_encoded_len :: "nat \<Rightarrow> nat" where
  "base64_encoded_len input_len =
     (let full = input_len div 3; remaining = input_len mod 3
      in full * 4 + (if remaining = 0 then 0 else remaining + 1))"

subsection \<open>Hex and PHC strings\<close>

datatype hex_error = OddLength | NonHexCharacter

text \<open>\<open>decode\<close> is \<^verbatim>\<open>hex::decode\<close>; any error of it is reported as \<open>NonHexCharacter\<close>.\<close>

definition hex_to_bytes ::
  "(string \<Rightarrow> bytes option) \<Rightarrow> string \<Rightarrow> hex_error + bytes" where
  "hex_to_bytes decode text =
     (if length text mod 2 \<noteq> 0 then Inl OddLength
      else case decode text of None \<Rightarrow> Inl NonHexCharacter | Some bs \<Rightarrow> Inr bs)"

definition assemble_phc ::
  "(string \<Rightarrow> bytes option) \<Rightarrow> nat \<Rightarrow> string \<Rightarrow> string \<Rightarrow> hex_error + string" where
  "assemble_phc decode memory_cost hexsalt digest_b64 =
     (case hex_to_bytes decode hexsalt of
        Inl e \<Rightarrow> Inl e
      | Inr salt_bytes \<Rightarrow>
          Inr (''$argon2id$v=19$m='' @ show_nat memory_cost @ '',t=1,p=1$''
               @ base64_encode salt_bytes @ ''$'' @ digest_b64))"

text \<open>\<^verbatim>\<open>rsplit_once('$')\<close>, keeping the part after the last dollar.\<close>

fun after_last_dollar :: "string \<Rightarrow> string option" where
  "after_last_dollar [] = None"
| "after_last_dollar (c # s) =
     (case after_last_dollar s of
        Some d \<Rightarrow> Some d
      | None \<Rightarrow> if c = CHR ''$'' then Some s else None)"

definition phc_digest :: "string \<Rightarrow> string option" where
  "phc_digest phc =
     (case after_last_dollar phc of
        None \<Rightarrow> None
      | Some digest \<Rightarrow> if digest = [] then None else Some digest)"

subsection \<open>Find detection\<close>

definition is_superblock_hash :: "string \<Rightarrow> bool" where
  "is_superblock_hash hash \<longleftrightarrow> 50 \<le> length (filter is_ascii_uppercase hash)"

fun has_xuni_match :: "string \<Rightarrow> bool" where
  "has_xuni_match (a # b # c # d # e # s) =
     ([a, b, c, d] = ''XUNI'' \<and> is_ascii_digit e \<or> has_xuni_match (b # c # d # e # s))"
| "has_xuni_match _ = False"

definition is_within_xuni_window_at :: "nat \<Rightarrow> bool" where
  "is_within_xuni_window_at minute \<longleftrightarrow> \<not> (5 \<le> minute \<and> minute < 55)"

subsection \<open>Addresses\<close>

definition strip_0x :: "string \<Rightarrow> string option" where
  "strip_0x s = (if starts_with s ''0x'' then Some (drop 2 s) else None)"

text \<open>\<open>keccak256_hex\<close> is the upper-case hex of the crate's digest; indexing past its end would
  panic, which 64 hex characters rule out.\<close>

definition to_checksum_address :: "(string \<Rightarrow> string) \<Rightarrow> string \<Rightarrow> string option" where
  "to_checksum_address keccak256_hex address =
     (case strip_0x address of
        None \<Rightarrow> None
      | Some body \<Rightarrow>
          if length body \<noteq> 40 \<or> \<not> list_all is_ascii_hexdigit body then None
          else let lower = map to_ascii_lower body; hash = keccak256_hex lower
               in Some (''0x'' @ map (\<lambda>(i, c). if byte_of (hash ! i) \<ge> byte_of (CHR ''8'')
                                              then to_ascii_upper c else c)
                                     (enumerate 0 lower)))"

definition is_valid_ethereum_address :: "(string \<Rightarrow> string) \<Rightarrow> string \<Rightarrow> bool" where
  "is_valid_ethereum_address keccak256_hex address =
     (case to_checksum_address keccak256_hex address of
        Some checksummed \<Rightarrow> checksummed = address
      | None \<Rightarrow> False)"

definition salt_hex_for_address :: "string \<Rightarrow> string option" where
  "salt_hex_for_address address =
     (case strip_0x address of
        None \<Rightarrow> None
      | Some body \<Rightarrow>
          if length body = 40 \<and> list_all is_ascii_hexdigit body then Some body else None)"

subsection \<open>Lemmas\<close>

lemma length_base64_chars [simp]: "length base64_chars = 64"
  by (simp add: base64_chars_def)

lemma base64_index_bound: "unat ((v::u32) AND 0x3f) < 64"
proof -
  have "unat (v AND 0x3f) \<le> unat (0x3f :: u32)"
    by (rule word_and_le1 [THEN word_le_nat_alt [THEN iffD1]])
  then show ?thesis by simp
qed

lemma base64_char_mem: "base64_char v \<in> set base64_chars"
  using base64_index_bound[of v] by (simp add: base64_char_def)

lemma base64_encoded_len_step: "base64_encoded_len (Suc (Suc (Suc n))) = base64_encoded_len n + 4"
proof -
  have "Suc (Suc (Suc n)) = n + 3" by simp
  then show ?thesis unfolding base64_encoded_len_def by (simp only: div_add_self2 mod_add_self2) (simp add: Let_def)
qed

lemma length_base64_encode: "length (base64_encode bs) = base64_encoded_len (length bs)"
proof (induction bs rule: base64_encode.induct)
  case (1 a b c rest)
  then show ?case by (simp add: Let_def base64_encoded_len_step)
qed (simp_all add: Let_def base64_encoded_len_def)

lemma base64_encode_chars: "set (base64_encode bs) \<subseteq> set base64_chars"
  by (induction bs rule: base64_encode.induct) (simp_all add: Let_def base64_char_mem)

lemma after_last_dollar_append:
  "CHR ''$'' \<notin> set d \<Longrightarrow> after_last_dollar (p @ CHR ''$'' # d) = Some d"
proof -
  assume d: "CHR ''$'' \<notin> set d"
  have "after_last_dollar d = None" using d by (induction d) auto
  then show ?thesis by (induction p) auto
qed

lemma base64_char_inj:
  assumes "base64_char v = base64_char w"
  shows "v AND 0x3f = w AND 0x3f"
proof -
  have d: "distinct base64_chars" by (simp add: base64_chars_def)
  have "unat (v AND 0x3f) = unat (w AND 0x3f)"
    using assms nth_eq_iff_index_eq[OF d] base64_index_bound[of v] base64_index_bound[of w]
    by (simp add: base64_char_def)
  then show ?thesis by (rule word_unat_eq_iff[THEN iffD2])
qed

lemma and_3f: "(v::u32) AND 0x3f = take_bit 6 v"
  by (simp add: take_bit_eq_mask mask_eq_exp_minus_1)

lemma sextet_bit:
  assumes "base64_char (drop_bit k v) = base64_char (drop_bit k w)" and "k \<le> n" and "n < k + 6"
  shows "bit v n = bit w n"
proof -
  have "bit (take_bit 6 (drop_bit k v)) (n - k) = bit (take_bit 6 (drop_bit k w)) (n - k)"
    using base64_char_inj[OF assms(1)] by (simp only: and_3f)
  moreover have "n - k < 6" using assms(2,3) by simp
  ultimately show ?thesis using assms(2) by (simp add: bit_take_bit_iff bit_drop_bit_eq)
qed

text \<open>Four equal characters are an equal 24-bit group.\<close>

lemma group_bit:
  assumes "base64_char (drop_bit 18 v) = base64_char (drop_bit 18 w)"
    and "base64_char (drop_bit 12 v) = base64_char (drop_bit 12 w)"
    and "base64_char (drop_bit 6 v) = base64_char (drop_bit 6 w)"
    and "base64_char v = base64_char w" and "n < 24"
  shows "bit v n = bit w n"
proof -
  consider "n < 6" | "6 \<le> n \<and> n < 12" | "12 \<le> n \<and> n < 18" | "18 \<le> n"
    by linarith
  then show ?thesis
  proof cases
    case 1
    then show ?thesis using sextet_bit[of 0 v w n] assms(4) by simp
  next
    case 2
    then show ?thesis using sextet_bit[OF assms(3), of n] by simp
  next
    case 3
    then show ?thesis using sextet_bit[OF assms(2), of n] by simp
  next
    case 4
    then show ?thesis using sextet_bit[OF assms(1), of n] assms(5) by simp
  qed
qed

definition group24 :: "u8 \<Rightarrow> u8 \<Rightarrow> u8 \<Rightarrow> u32" where
  "group24 a b c = push_bit 16 (ucast a) OR push_bit 8 (ucast b) OR ucast c"

lemma group24_byte_bits:
  assumes "n < 8"
  shows "bit (group24 a b c) (n + 16) = bit a n" and "bit (group24 a b c) (n + 8) = bit b n"
    and "bit (group24 a b c) n = bit c n"
  using assms bit_imp_le_length[of b "8 + n"] bit_imp_le_length[of c "8 + n"]
    bit_imp_le_length[of c "16 + n"]
  by (auto simp: add.commute group24_def bit_or_iff bit_push_bit_iff bit_ucast_iff)

lemma group24_inj:
  assumes "\<And>n. n < 24 \<Longrightarrow> bit (group24 a b c) n = bit (group24 a' b' c') n"
  shows "a = a' \<and> b = b' \<and> c = c'"
proof (intro conjI; rule bit_word_eqI)
  fix n :: nat
  assume n: "n < LENGTH(8)"
  then have n8: "n < 8" by simp
  show "bit a n = bit a' n" using assms[of "n + 16"] n8 group24_byte_bits[OF n8] by simp
  show "bit b n = bit b' n" using assms[of "n + 8"] n8 group24_byte_bits[OF n8] by simp
  show "bit c n = bit c' n" using assms[of n] n8 group24_byte_bits[OF n8] by simp
qed

lemma base64_encode_group:
  "base64_encode (a # b # c # rest) =
     base64_char (drop_bit 18 (group24 a b c)) # base64_char (drop_bit 12 (group24 a b c))
     # base64_char (drop_bit 6 (group24 a b c)) # base64_char (group24 a b c) # base64_encode rest"
  by (simp add: Let_def group24_def or.assoc)

lemma base64_encode_one:
  "base64_encode [a] =
     [base64_char (drop_bit 18 (group24 a 0 0)), base64_char (drop_bit 12 (group24 a 0 0))]"
  by (simp add: Let_def group24_def)

lemma base64_encode_two:
  "base64_encode [a, b] =
     [base64_char (drop_bit 18 (group24 a b 0)), base64_char (drop_bit 12 (group24 a b 0)),
      base64_char (drop_bit 6 (group24 a b 0))]"
  by (simp add: Let_def group24_def)

lemma group24_low_zero:
  assumes "n < 8" shows "\<not> bit (group24 a b 0) n" and "\<not> bit (group24 a 0 0) (n + 8)"
  using assms group24_byte_bits[of n] by simp_all

lemma base64_encoded_len_inj:
  assumes "base64_encoded_len m = base64_encoded_len n" shows "m = n"
proof -
  have enc: "base64_encoded_len k div 4 = k div 3 \<and> base64_encoded_len k mod 4 = (if k mod 3 = 0 then 0 else k mod 3 + 1)"
    for k
  proof -
    have "k mod 3 < 3" by simp
    then show ?thesis by (auto simp: base64_encoded_len_def Let_def)
  qed
  from enc[of m] enc[of n] assms have "m div 3 = n div 3" "m mod 3 = n mod 3"
    by (auto split: if_splits)
  then show ?thesis by (metis div_mult_mod_eq)
qed

lemma group24_one_inj:
  assumes "base64_char (drop_bit 18 (group24 a 0 0)) = base64_char (drop_bit 18 (group24 a' 0 0))"
    and "base64_char (drop_bit 12 (group24 a 0 0)) = base64_char (drop_bit 12 (group24 a' 0 0))"
  shows "a = a'"
proof (rule bit_word_eqI)
  fix n :: nat assume "n < LENGTH(8)"
  then have n: "n < 8" by simp
  have "bit (group24 a 0 0) (n + 16) = bit (group24 a' 0 0) (n + 16)"
  proof (cases "n < 2")
    case True
    show ?thesis by (rule sextet_bit[OF assms(2)]) (use True in simp_all)
  next
    case False
    show ?thesis by (rule sextet_bit[OF assms(1)]) (use False n in simp_all)
  qed
  then show "bit a n = bit a' n" using group24_byte_bits(1)[OF n] by simp
qed

lemma group24_two_inj:
  assumes "base64_char (drop_bit 18 (group24 a b 0)) = base64_char (drop_bit 18 (group24 a' b' 0))"
    and "base64_char (drop_bit 12 (group24 a b 0)) = base64_char (drop_bit 12 (group24 a' b' 0))"
    and "base64_char (drop_bit 6 (group24 a b 0)) = base64_char (drop_bit 6 (group24 a' b' 0))"
  shows "a = a' \<and> b = b'"
proof -
  have "a = a' \<and> b = b' \<and> (0::u8) = 0"
  proof (rule group24_inj)
    fix n :: nat assume n: "n < 24"
    consider "n < 8" | "8 \<le> n \<and> n < 12" | "12 \<le> n \<and> n < 18" | "18 \<le> n" by linarith
    then show "bit (group24 a b 0) n = bit (group24 a' b' 0) n"
    proof cases
      case 1
      then show ?thesis by (simp add: group24_low_zero)
    next
      case 2
      show ?thesis by (rule sextet_bit[OF assms(3)]) (use 2 in simp_all)
    next
      case 3
      show ?thesis by (rule sextet_bit[OF assms(2)]) (use 3 in simp_all)
    next
      case 4
      show ?thesis by (rule sextet_bit[OF assms(1)]) (use 4 n in simp_all)
    qed
  qed
  then show ?thesis by simp
qed

lemma base64_encode_inj: "base64_encode xs = base64_encode ys \<Longrightarrow> xs = ys"
proof (induction xs arbitrary: ys rule: base64_encode.induct)
  case (1 a b c rest)
  from 1(2) have "length ys = Suc (Suc (Suc (length rest)))"
    using base64_encoded_len_inj length_base64_encode by (metis length_Cons)
  then obtain a' b' c' rest' where ys: "ys = a' # b' # c' # rest'"
    by (metis length_Suc_conv)
  note e = 1(2)[unfolded ys base64_encode_group list.inject]
  have "a = a' \<and> b = b' \<and> c = c'" by (rule group24_inj) (use e group_bit in blast)
  moreover have "rest = rest'" using 1(1)[OF refl] e by blast
  ultimately show ?case by (simp add: ys)
next
  case (2 a)
  from 2 have "length ys = 1" using base64_encoded_len_inj length_base64_encode
    by (metis One_nat_def length_Cons list.size(3))
  then obtain a' where ys: "ys = [a']" by (auto simp: length_Suc_conv)
  show ?case using 2 group24_one_inj unfolding ys base64_encode_one list.inject by blast
next
  case (3 a b)
  from 3 have "length ys = 2" using base64_encoded_len_inj length_base64_encode
    by (metis length_Cons list.size(3) numeral_2_eq_2)
  then obtain a' b' where ys: "ys = [a', b']"
    by (metis (no_types, lifting) length_0_conv length_Suc_conv numeral_2_eq_2)
  show ?case using 3 group24_two_inj unfolding ys base64_encode_two list.inject by blast
next
  case 4
  then show ?case using base64_encoded_len_inj length_base64_encode
    by (metis length_0_conv)
qed

lemma has_xuni_match_iff:
  "has_xuni_match h \<longleftrightarrow> (\<exists>p d s. h = p @ ''XUNI'' @ d # s \<and> is_ascii_digit d)"
  (is "_ \<longleftrightarrow> ?R h")
proof (induction h rule: has_xuni_match.induct)
  case (1 a b c d e s)
  have step: "?R (a # t) \<longleftrightarrow> (\<exists>d s. a # t = ''XUNI'' @ d # s \<and> is_ascii_digit d) \<or> ?R t" for t
  proof
    assume "?R (a # t)"
    then obtain p d s where h: "a # t = p @ ''XUNI'' @ d # s" and d: "is_ascii_digit d" by blast
    show "(\<exists>d s. a # t = ''XUNI'' @ d # s \<and> is_ascii_digit d) \<or> ?R t"
    proof (cases p)
      case Nil
      with h d show ?thesis by (metis append_Nil)
    next
      case (Cons x q)
      with h have "t = q @ ''XUNI'' @ d # s" by simp
      with d show ?thesis by blast
    qed
  next
    assume "(\<exists>d s. a # t = ''XUNI'' @ d # s \<and> is_ascii_digit d) \<or> ?R t"
    then show "?R (a # t)"
    proof
      assume "\<exists>d s. a # t = ''XUNI'' @ d # s \<and> is_ascii_digit d"
      then show ?thesis by (metis append_Nil)
    next
      assume "?R t"
      then show ?thesis by (metis append_Cons)
    qed
  qed
  show ?case unfolding step[of "b # c # d # e # s"] using 1 by auto
qed (auto simp: Cons_eq_append_conv)

lemma ascii_case_lower_upper:
  "is_ascii_hexdigit c \<Longrightarrow> to_ascii_lower (to_ascii_upper (to_ascii_lower c)) = to_ascii_lower c"
  "to_ascii_lower (to_ascii_lower c) = to_ascii_lower c"
  "is_ascii_hexdigit c \<Longrightarrow> is_ascii_hexdigit (to_ascii_upper (to_ascii_lower c))"
  "is_ascii_hexdigit c \<Longrightarrow> is_ascii_hexdigit (to_ascii_lower c)"
  by (auto simp: ascii_simps of_char_of)

lemma phc_digest_assemble:
  assumes "assemble_phc decode m hexsalt d = Inr phc" and "d \<noteq> []" and "CHR ''$'' \<notin> set d"
  shows "phc_digest phc = Some d"
proof -
  from assms(1) obtain salt where
    "phc = (''$argon2id$v=19$m='' @ show_nat m @ '',t=1,p=1$'' @ base64_encode salt) @ CHR ''$'' # d"
    by (auto simp: assemble_phc_def split: sum.splits)
  then have "after_last_dollar phc = Some d"
    using after_last_dollar_append[OF assms(3)] by (simp only:)
  then show ?thesis using assms(2) by (simp add: phc_digest_def)
qed

lemma dollar_not_base64: "CHR ''$'' \<notin> set (base64_encode bs)"
  using base64_encode_chars[of bs] by (auto simp: base64_chars_def)

lemma base64_encode_nonempty: "bs \<noteq> [] \<Longrightarrow> base64_encode bs \<noteq> []"
  using base64_encode_inj[of bs "[]"] by auto

text \<open>base64 as the miner emits it loses nothing: two digests with the same text are the same
  bytes, the text has exactly the announced length, and every character is of the alphabet.\<close>

theorem base64_faithful:
  "(base64_encode xs = base64_encode ys) = (xs = ys)
   \<and> length (base64_encode xs) = base64_encoded_len (length xs)
   \<and> set (base64_encode xs) \<subseteq> set base64_chars"
  using base64_encode_inj length_base64_encode base64_encode_chars by auto

text \<open>the PHC string of a find carries the batch's own memory cost in its header, and the
  digest comes back out of it unchanged, for every digest that is the base64 of some bytes.\<close>

theorem phc_roundtrip:
  assumes "assemble_phc decode m hexsalt (base64_encode bs) = Inr phc" and "bs \<noteq> []"
  shows "phc_digest phc = Some (base64_encode bs)
         \<and> starts_with phc (''$argon2id$v=19$m='' @ show_nat m @ '',t=1,p=1$'')"
proof
  show "phc_digest phc = Some (base64_encode bs)"
    using phc_digest_assemble[OF assms(1) base64_encode_nonempty[OF assms(2)] dollar_not_base64] .
  show "starts_with phc (''$argon2id$v=19$m='' @ show_nat m @ '',t=1,p=1$'')"
    using assms(1) unfolding starts_with_iff by (auto simp: assemble_phc_def split: sum.splits)
qed

theorem phc_roundtrip_witness:
  "phc_digest ''$argon2id$v=19$m=8,t=1,p=1$q80$AQI'' = Some ''AQI''"
proof -
  have show8: "show_nat 8 = ''8''" by code_simp
  have a: "assemble_phc (\<lambda>_. Some [0xab, 0xcd]) 8 ''abcd'' (base64_encode [1, 2])
      = Inr ''$argon2id$v=19$m=8,t=1,p=1$q80$AQI''"
    unfolding assemble_phc_def hex_to_bytes_def show8 by code_simp
  have b: "base64_encode [1, 2] = ''AQI''" by code_simp
  from phc_roundtrip[OF a] show ?thesis unfolding b by simp
qed

text \<open>EIP-55 checksumming is idempotent and only changes letter case: the checksummed form of
  any accepted address is itself accepted, is accepted as the salt source, and names the same
  forty hex digits.\<close>

theorem checksum_address_valid:
  assumes "to_checksum_address keccak256_hex a = Some b"
  shows "is_valid_ethereum_address keccak256_hex b \<and> salt_hex_for_address b = Some (drop 2 b)
         \<and> map to_ascii_lower b = map to_ascii_lower a"
proof -
  from assms obtain body where body: "strip_0x a = Some body" "length body = 40"
      "list_all is_ascii_hexdigit body"
    and b: "b = ''0x'' @ map (\<lambda>(i, c). if byte_of (keccak256_hex (map to_ascii_lower body) ! i)
        \<ge> byte_of (CHR ''8'') then to_ascii_upper c else c) (enumerate 0 (map to_ascii_lower body))"
      (is "_ = _ @ ?u")
    by (auto simp: to_checksum_address_def Let_def split: option.splits if_splits)
  have len: "length ?u = 40" using body(2) by simp
  have low: "map to_ascii_lower ?u = map to_ascii_lower body"
    using body(2,3) by (intro nth_equalityI)
      (auto simp: nth_enumerate_eq list_all_length ascii_case_lower_upper)
  have hexu: "list_all is_ascii_hexdigit ?u"
    using body(2,3) by (auto simp: list_all_length nth_enumerate_eq ascii_case_lower_upper)
  have a: "a = ''0x'' @ body" using body(1)
    by (auto simp: strip_0x_def starts_with_iff split: if_splits)
  have strip: "strip_0x b = Some ?u" by (simp add: b strip_0x_def)
  have "to_checksum_address keccak256_hex b = Some b"
    unfolding to_checksum_address_def strip using len hexu low b by (simp add: Let_def)
  then have "is_valid_ethereum_address keccak256_hex b"
    by (simp add: is_valid_ethereum_address_def)
  moreover have "salt_hex_for_address b = Some (drop 2 b)"
    using strip len hexu b by (simp add: salt_hex_for_address_def)
  moreover have "map to_ascii_lower b = map to_ascii_lower a" using low b a by simp
  ultimately show ?thesis by blast
qed

theorem checksum_address_valid_witness:
  "is_valid_ethereum_address (\<lambda>_. replicate 64 (CHR ''9''))
     ''0xABABABABABABABABABABABABABABABABABABABAB''"
proof -
  have "to_checksum_address (\<lambda>_. replicate 64 (CHR ''9''))
      ''0xabababababababababababababababababababab''
    = Some ''0xABABABABABABABABABABABABABABABABABABABAB''"
    by code_simp
  from checksum_address_valid[OF this] show ?thesis by blast
qed

end
