(* ===== verification/Clocktime.thy ===== *)
theory Clocktime
  imports Core_Encoding
begin

text \<open>
  \<^verbatim>\<open>tm-submit/src/clocktime.rs\<close>: Hinnant's civil-date conversions, the ISO-8601 text the
  journal stores and compares, the HTTP \<^verbatim>\<open>Date\<close> parser and the XUNI window.

  \<^verbatim>\<open>parse_http_date_ms\<close> takes the year from a header the server (or anyone on the plaintext
  path) controls, so its 64-bit products wrap in the model as they do in a release build.  The
  theorems show that the stored texts compare like the instants they denote and that the date
  conversions invert each other.
\<close>

definition MS_PER_HOUR :: int where "MS_PER_HOUR = 3600 * 1000"
definition XUNI_OPEN_BEFORE_HOUR_MS :: int where "XUNI_OPEN_BEFORE_HOUR_MS = 5 * 60 * 1000"
definition XUNI_OPEN_AFTER_HOUR_MS :: int where "XUNI_OPEN_AFTER_HOUR_MS = 5 * 60 * 1000"

definition days_from_civil :: "int \<Rightarrow> int \<Rightarrow> int \<Rightarrow> int" where
  "days_from_civil y0 m d =
     (let y = y0 - (if m \<le> 2 then 1 else 0);
          era = (if 0 \<le> y then y else y - 399) sdiv 400;
          yoe = y - era * 400;
          doy = (153 * (m + (if 2 < m then - 3 else 9)) + 2) sdiv 5 + d - 1;
          doe = yoe * 365 + yoe sdiv 4 - yoe sdiv 100 + doy
      in wrap_i64 (wrap_i64 (era * 146097) + doe - 719468))"

text \<open>From \<^verbatim>\<open>doe\<close> on the source computes in \<^verbatim>\<open>u32\<close>.\<close>

definition civil_from_days :: "int \<Rightarrow> int \<times> int \<times> int" where
  "civil_from_days z0 =
     (let z = z0 + 719468;
          era = (if 0 \<le> z then z else z - 146096) sdiv 146097;
          doe = (z - era * 146097) mod 2 ^ 32;
          yoe = (doe - doe div 1460 + doe div 36524 - doe div 146096) div 365;
          y = yoe + era * 400;
          doy = doe - (365 * yoe + yoe div 4 - yoe div 100);
          mp = (5 * doy + 2) div 153;
          d = doy - (153 * mp + 2) div 5 + 1;
          m = (if mp < 10 then mp + 3 else mp - 9)
      in (y + (if m \<le> 2 then 1 else 0), m, d))"

definition floor_div :: "int \<Rightarrow> int \<Rightarrow> int" where
  "floor_div a b =
     (let q = a sdiv b in if a smod b \<noteq> 0 \<and> (a < 0) \<noteq> (b < 0) then q - 1 else q)"

definition iso_utc :: "int \<Rightarrow> string" where
  "iso_utc epoch_ms =
     (let days = floor_div epoch_ms 86400000;
          rem0 = epoch_ms - days * 86400000;
          (y, mo, da) = civil_from_days days;
          h = rem0 sdiv 3600000;
          rem1 = rem0 smod 3600000;
          mi = rem1 sdiv 60000;
          rem2 = rem1 smod 60000;
          s = rem2 sdiv 1000
      in show_pad 4 y @ ''-'' @ show_pad 2 mo @ ''-'' @ show_pad 2 da @ ''T''
         @ show_pad 2 h @ '':'' @ show_pad 2 mi @ '':'' @ show_pad 2 s @ ''Z'')"

definition MONTH_NAMES :: "string list" where
  "MONTH_NAMES = [''Jan'', ''Feb'', ''Mar'', ''Apr'', ''May'', ''Jun'', ''Jul'', ''Aug'',
                  ''Sep'', ''Oct'', ''Nov'', ''Dec'']"

fun position_of :: "'a \<Rightarrow> 'a list \<Rightarrow> nat option" where
  "position_of x [] = None"
| "position_of x (y # ys) = (if x = y then Some 0 else map_option Suc (position_of x ys))"

definition month_from_name :: "string \<Rightarrow> int" where
  "month_from_name mon =
     (case position_of mon MONTH_NAMES of None \<Rightarrow> 0 | Some i \<Rightarrow> int i + 1)"

text \<open>\<^verbatim>\<open>str::parse\<close> for \<^verbatim>\<open>u32\<close> and \<^verbatim>\<open>i64\<close>: an optional sign (only \<^verbatim>\<open>+\<close> for the
  unsigned type), at least one digit, nothing else, and the value in range.\<close>

definition parse_digits :: "string \<Rightarrow> nat option" where
  "parse_digits s = (if s \<noteq> [] \<and> list_all is_ascii_digit s then Some (digits_value 0 s) else None)"

definition parse_u32 :: "string \<Rightarrow> int option" where
  "parse_u32 s =
     (case parse_digits (if s \<noteq> [] \<and> hd s = CHR ''+'' then tl s else s) of
        None \<Rightarrow> None
      | Some n \<Rightarrow> if n < 2 ^ 32 then Some (int n) else None)"

definition parse_i64 :: "string \<Rightarrow> int option" where
  "parse_i64 s =
     (if s \<noteq> [] \<and> hd s = CHR ''-'' then
        (case parse_digits (tl s) of
           None \<Rightarrow> None
         | Some n \<Rightarrow> if n \<le> 2 ^ 63 then Some (- int n) else None)
      else
        (case parse_digits (if s \<noteq> [] \<and> hd s = CHR ''+'' then tl s else s) of
           None \<Rightarrow> None
         | Some n \<Rightarrow> if n < 2 ^ 63 then Some (int n) else None))"

text \<open>\<^verbatim>\<open>split_ascii_whitespace\<close>.\<close>

fun split_ws :: "string \<Rightarrow> string \<Rightarrow> string list" where
  "split_ws word [] = (if word = [] then [] else [word])"
| "split_ws word (c # s) =
     (if is_ascii_whitespace c then (if word = [] then split_ws [] s else word # split_ws [] s)
      else split_ws (word @ [c]) s)"

definition after_comma :: "string \<Rightarrow> string" where
  "after_comma s = (case dropWhile (\<lambda>c. c \<noteq> CHR '','') s of [] \<Rightarrow> s | _ # r \<Rightarrow> r)"

text \<open>The clock part \<^verbatim>\<open>hh:mm:ss\<close>, as seconds of the day.\<close>

definition parse_hms :: "string \<Rightarrow> int option" where
  "parse_hms b =
     (if length b \<noteq> 8 \<or> b ! 2 \<noteq> CHR '':'' \<or> b ! 5 \<noteq> CHR '':'' then None
      else if \<not> list_all (\<lambda>i. is_ascii_digit (b ! i)) [0, 1, 3, 4, 6, 7] then None
      else
        let h = int (digit_val (b ! 0) * 10 + digit_val (b ! 1));
            mi = int (digit_val (b ! 3) * 10 + digit_val (b ! 4));
            s = int (digit_val (b ! 6) * 10 + digit_val (b ! 7))
        in if 23 < h \<or> 59 < mi \<or> 60 < s then None else Some (h * 3600 + mi * 60 + s))"

definition parse_http_date_ms :: "string \<Rightarrow> int option" where
  "parse_http_date_ms date_header =
     (case split_ws [] (after_comma date_header) of
        f_day # mon # f_year # hms # tz # rest \<Rightarrow>
          (case parse_u32 f_day of
             None \<Rightarrow> None
           | Some day \<Rightarrow>
               (case parse_i64 f_year of
                  None \<Rightarrow> None
                | Some year \<Rightarrow>
                    if tz \<noteq> ''GMT'' \<and> tz \<noteq> ''UTC'' then None
                    else
                      let month = month_from_name mon
                      in if month = 0 \<or> \<not> (1 \<le> day \<and> day \<le> 31) \<or> year < 1970 then None
                         else
                           (case parse_hms hms of
                              None \<Rightarrow> None
                            | Some secs \<Rightarrow>
                                Some (wrap_i64 (wrap_i64 (days_from_civil year month day * 86400000)
                                                + secs * 1000)))))
      | _ \<Rightarrow> None)"

record xuni_window_state =
  win_open :: bool
  ms_until_close :: int

definition xuni_window_at :: "int \<Rightarrow> xuni_window_state" where
  "xuni_window_at server_epoch_ms =
     (let into_hour = server_epoch_ms - floor_div server_epoch_ms MS_PER_HOUR * MS_PER_HOUR
      in if MS_PER_HOUR - XUNI_OPEN_BEFORE_HOUR_MS \<le> into_hour then
           \<lparr> win_open = True,
             ms_until_close = (MS_PER_HOUR - into_hour) + XUNI_OPEN_AFTER_HOUR_MS \<rparr>
         else if into_hour < XUNI_OPEN_AFTER_HOUR_MS then
           \<lparr> win_open = True, ms_until_close = XUNI_OPEN_AFTER_HOUR_MS - into_hour \<rparr>
         else \<lparr> win_open = False, ms_until_close = 0 \<rparr>)"

subsection \<open>Floor division\<close>

lemma floor_div_eq: "0 < b \<Longrightarrow> floor_div a b = a div b"
proof -
  assume b: "0 < b"
  show ?thesis
  proof (cases "0 \<le> a")
    case True
    then show ?thesis using b by (simp add: floor_div_def Let_def sdiv_nonneg)
  next
    case False
    then have s: "a sdiv b = - ((- a) div b)" and m: "a smod b = - ((- a) mod b)"
      using b by (simp_all add: signed_divide_int_def signed_modulo_int_def sgn_if)
    have "a div b = - ((- a) div b) - (if (- a) mod b = 0 then 0 else 1)"
      using zdiv_zminus1_eq_if[of b "- a"] b by simp
    then show ?thesis using b False by (auto simp: floor_div_def Let_def s m)
  qed
qed

lemma xuni_window_unfold:
  "xuni_window_at t =
    (let r = t mod 3600000
     in if 3300000 \<le> r then \<lparr> win_open = True, ms_until_close = 3900000 - r \<rparr>
        else if r < 300000 then \<lparr> win_open = True, ms_until_close = 300000 - r \<rparr>
        else \<lparr> win_open = False, ms_until_close = 0 \<rparr>)"
  by (simp add: xuni_window_at_def floor_div_eq MS_PER_HOUR_def XUNI_OPEN_BEFORE_HOUR_MS_def
      XUNI_OPEN_AFTER_HOUR_MS_def Let_def minus_div_mult_eq_mod)


lemma era_eq: "0 < b \<Longrightarrow> (if 0 \<le> z then z else z - (b - 1)) sdiv b = z div b" for z b :: int
proof -
  assume b: "0 < b"
  show ?thesis
  proof (cases "0 \<le> z")
    case True
    then show ?thesis using b by (simp add: sdiv_nonneg)
  next
    case False
    have "(z - (b - 1)) sdiv b = - ((b - 1 - z) div b)"
      using b False by (simp add: signed_divide_int_def sgn_if)
    also have "(b - 1 - z) div b = - (z div b)"
    proof -
      have "(b - 1 - z) div b = (b - 1 - z mod b + b * (- (z div b))) div b"
        by (simp add: algebra_simps minus_mult_div_eq_mod[symmetric])
      also have "\<dots> = - (z div b)"
        using b pos_mod_bound[OF b, of z] pos_mod_sign[OF b, of z]
        by (simp only: div_mult_self2) (simp add: div_pos_pos_trivial)
      finally show ?thesis .
    qed
    finally show ?thesis using False by simp
  qed
qed

subsection \<open>The year of an era\<close>

definition year_start :: "int \<Rightarrow> int" where
  "year_start y = 365 * y + y div 4 - y div 100 + y div 400"

definition doe_year :: "int \<Rightarrow> int" where
  "doe_year doe = (doe - doe div 1460 + doe div 36524 - doe div 146096) div 365"

lemma div_step: "0 < k \<Longrightarrow> (n + 1) div k = n div k + (if k dvd n + 1 then 1 else 0)" for n k :: int
proof -
  assume k: "0 < k"
  have n: "n + 1 = (n mod k + 1) + k * (n div k)" by simp
  have lt: "n mod k < k" "0 \<le> n mod k" using k by simp_all
  have "(n + 1) div k = (n mod k + 1) div k + n div k"
    using k by (subst n) (simp only: div_mult_self2)
  moreover have "k dvd n + 1 \<longleftrightarrow> n mod k + 1 = k"
  proof -
    have "k dvd n + 1 \<longleftrightarrow> k dvd n mod k + 1"
      by (simp add: dvd_eq_mod_eq_0 mod_add_left_eq)
    also have "\<dots> \<longleftrightarrow> n mod k + 1 = k" using lt zdvd_imp_le[of k "n mod k + 1"] by auto
    finally show ?thesis .
  qed
  moreover have "n mod k + 1 \<noteq> k \<Longrightarrow> (n mod k + 1) div k = 0" using lt by simp
  ultimately show ?thesis using k by auto
qed

lemma doe_year_step: "doe_year n \<le> doe_year (n + 1)"
proof -
  have "146096 dvd n + 1 \<Longrightarrow> 36524 dvd n + 1" using dvd_trans[of 36524 146096 "n + 1"] by simp
  then have "n - n div 1460 + n div 36524 - n div 146096
      \<le> (n + 1) - (n + 1) div 1460 + (n + 1) div 36524 - (n + 1) div 146096"
    by (auto simp: div_step)
  then show ?thesis unfolding doe_year_def by (rule zdiv_mono1) simp
qed

lemma doe_year_mono: "a \<le> b \<Longrightarrow> doe_year a \<le> doe_year b"
proof (induction "nat (b - a)" arbitrary: b)
  case 0
  then show ?case by simp
next
  case (Suc k)
  then have "doe_year a \<le> doe_year (b - 1)" by simp
  then show ?case using doe_year_step[of "b - 1"] by simp
qed

lemma doe_year_ends:
  "list_all (\<lambda>y. doe_year (year_start y) = y \<and> doe_year (year_start (y + 1) - 1) = y) [0..399]"
  by code_simp

lemma year_bracket:
  "0 \<le> doe \<Longrightarrow> doe < year_start (int n) \<Longrightarrow>
   \<exists>y. 0 \<le> y \<and> y < int n \<and> year_start y \<le> doe \<and> doe < year_start (y + 1)"
proof (induction n)
  case 0
  then show ?case by (simp add: year_start_def)
next
  case (Suc n)
  show ?case
  proof (cases "doe < year_start (int n)")
    case True
    then show ?thesis using Suc by fastforce
  next
    case False
    then show ?thesis using Suc.prems by (intro exI[of _ "int n"]) (auto simp: add.commute)
  qed
qed

lemma doe_year_bracket:
  assumes "0 \<le> doe" "doe < 146097"
  shows "0 \<le> doe_year doe" "doe_year doe \<le> 399"
    "year_start (doe_year doe) \<le> doe" "doe < year_start (doe_year doe + 1)"
proof -
  have "year_start (int 400) = 146097" by (simp add: year_start_def)
  then obtain y where y: "0 \<le> y" "y \<le> 399" "year_start y \<le> doe" "doe < year_start (y + 1)"
    using year_bracket[of doe 400] assms by auto
  have "doe_year (year_start y) = y" "doe_year (year_start (y + 1) - 1) = y"
    using doe_year_ends y by (auto simp: list_all_iff)
  moreover have "doe_year (year_start y) \<le> doe_year doe" "doe_year doe \<le> doe_year (year_start (y + 1) - 1)"
    using y by (auto intro: doe_year_mono)
  ultimately have "doe_year doe = y" by simp
  then show "0 \<le> doe_year doe" "doe_year doe \<le> 399"
    "year_start (doe_year doe) \<le> doe" "doe < year_start (doe_year doe + 1)" using y by simp_all
qed


lemma year_start_step: "year_start y < year_start (y + 1)"
  by (auto simp: year_start_def div_step)

lemma year_start_mono: "a \<le> b \<Longrightarrow> year_start a \<le> year_start b"
proof (induction "nat (b - a)" arbitrary: b)
  case (Suc k)
  then have "year_start a \<le> year_start (b - 1)" by simp
  then show ?case using year_start_step[of "b - 1"] by simp
qed simp

lemma year_start_era:
  "0 \<le> y \<Longrightarrow> y < 400 \<Longrightarrow> year_start (y + era * 400) = era * 146097 + (365 * y + y div 4 - y div 100)"
proof -
  assume y: "0 \<le> y" "y < 400"
  have "(y + era * 400) div 4 = y div 4 + era * 100" "(y + era * 400) div 100 = y div 100 + era * 4"
    "(y + era * 400) div 400 = y div 400 + era"
    using div_mult_self1[of 4 y "era * 100"] div_mult_self1[of 100 y "era * 4"] by simp_all
  then show ?thesis using y by (simp add: year_start_def)
qed

lemma month_day_ranges:
  "list_all (\<lambda>doy. let mp = (5 * doy + 2) div 153; d = doy - (153 * mp + 2) div 5 + 1
      in 0 \<le> mp \<and> mp \<le> 11 \<and> 1 \<le> d \<and> d \<le> 31) [0..365]"
  by code_simp

text \<open>What the conversion computes, free of its arithmetic: the March-based year \<open>Y\<close> whose
  days contain \<open>z\<close>, and month and day inside it.\<close>

lemma civil_from_days_spec:
  obtains Y mp d where
    "civil_from_days z0 =
       (Y + (if 10 \<le> mp then 1 else 0), if mp < 10 then mp + 3 else mp - 9, d)"
    "year_start Y \<le> z0 + 719468" "z0 + 719468 < year_start (Y + 1)"
    "mp = (5 * (z0 + 719468 - year_start Y) + 2) div 153"
    "d = z0 + 719468 - year_start Y - (153 * mp + 2) div 5 + 1"
    "0 \<le> mp" "mp \<le> 11" "1 \<le> d" "d \<le> 31"
proof -
  define z where "z = z0 + 719468"
  define era where "era = z div 146097"
  define doe where "doe = z mod 146097"
  have z: "z = doe + era * 146097" by (simp add: doe_def era_def)
  have doe: "0 \<le> doe" "doe < 146097" by (simp_all add: doe_def)
  define yoe where "yoe = doe_year doe"
  note br = doe_year_bracket[OF doe, folded yoe_def]
  define Y where "Y = yoe + era * 400"
  have ys: "year_start Y = era * 146097 + (365 * yoe + yoe div 4 - yoe div 100)"
    using br unfolding Y_def by (intro year_start_era) auto
  have ys0: "year_start yoe = 365 * yoe + yoe div 4 - yoe div 100"
    using br year_start_era[of yoe 0] by simp
  have ys1: "year_start (Y + 1) = year_start (yoe + 1) + era * 146097"
  proof (cases "yoe = 399")
    case True
    then have "Y + 1 = 0 + (era + 1) * 400" by (simp add: Y_def)
    then show ?thesis using year_start_era[of 0 "era + 1"] True
      by (simp add: year_start_def algebra_simps)
  next
    case False
    then show ?thesis using br year_start_era[of "yoe + 1" era] year_start_era[of "yoe + 1" 0]
      by (simp add: Y_def algebra_simps)
  qed
  define doy where "doy = z - year_start Y"
  have doy: "doy = doe - (365 * yoe + yoe div 4 - yoe div 100)" by (simp add: doy_def z ys)
  have doy0: "0 \<le> doy" using br ys0 by (simp add: doy)
  have lt: "z < year_start (Y + 1)" using br by (simp add: ys1 z)
  have "year_start (Y + 1) \<le> year_start Y + 366" by (auto simp: year_start_def div_step)
  then have doy1: "doy \<le> 365" using lt by (simp add: doy_def)
  define mp where "mp = (5 * doy + 2) div 153"
  define d where "d = doy - (153 * mp + 2) div 5 + 1"
  have mp: "0 \<le> mp" "mp \<le> 11" and d: "1 \<le> d" "d \<le> 31"
    using month_day_ranges doy0 doy1 unfolding d_def mp_def by (simp_all add: list_all_iff Let_def)
  have era_c: "(if 0 \<le> z then z else z - 146096) sdiv 146097 = era"
    using era_eq[of 146097 z] by (cases "0 \<le> z") (simp_all add: era_def)
  have "z - era * 146097 = doe" by (simp add: z)
  moreover have "doe mod 2 ^ 32 = doe" using doe by simp
  ultimately have "civil_from_days z0 =
      (Y + (if (if mp < 10 then mp + 3 else mp - 9) \<le> 2 then 1 else 0), if mp < 10 then mp + 3 else mp - 9, d)"
    unfolding civil_from_days_def z_def[symmetric] Let_def era_c
    by (simp add: yoe_def[unfolded doe_year_def, symmetric] doy[symmetric] mp_def[symmetric]
        d_def[symmetric] Y_def)
  moreover have "(if mp < 10 then mp + 3 else mp - 9) \<le> 2 \<longleftrightarrow> 10 \<le> mp" using mp by auto
  ultimately have eq: "civil_from_days z0 =
      (Y + (if 10 \<le> mp then 1 else 0), if mp < 10 then mp + 3 else mp - 9, d)" by presburger
  have doy_z: "doy = z0 + 719468 - year_start Y" by (simp add: doy_def z_def)
  show thesis
  proof (rule that[OF eq])
    show "year_start Y \<le> z0 + 719468" using doy0 doy_z by linarith
    show "z0 + 719468 < year_start (Y + 1)" using lt by (simp only: z_def)
    show "mp = (5 * (z0 + 719468 - year_start Y) + 2) div 153" by (simp only: mp_def doy_z)
    show "d = z0 + 719468 - year_start Y - (153 * mp + 2) div 5 + 1" by (simp only: d_def doy_z)
  qed (fact mp d)+
qed


definition civil_key :: "int \<times> int \<times> int \<Rightarrow> int" where
  "civil_key ymd = (case ymd of (y, m, d) \<Rightarrow> (12 * y + m - 1) * 32 + d)"

lemma civil_key_mono:
  assumes "a < b"
  shows "civil_key (civil_from_days a) < civil_key (civil_from_days b)"
proof -
  obtain Y mp d where A: "civil_from_days a =
       (Y + (if 10 \<le> mp then 1 else 0), if mp < 10 then mp + 3 else mp - 9, d)"
    "year_start Y \<le> a + 719468" "a + 719468 < year_start (Y + 1)"
    "mp = (5 * (a + 719468 - year_start Y) + 2) div 153"
    "d = a + 719468 - year_start Y - (153 * mp + 2) div 5 + 1"
    "0 \<le> mp" "mp \<le> 11" "1 \<le> d" "d \<le> 31" by (rule civil_from_days_spec)
  obtain Y' mp' d' where B: "civil_from_days b =
       (Y' + (if 10 \<le> mp' then 1 else 0), if mp' < 10 then mp' + 3 else mp' - 9, d')"
    "year_start Y' \<le> b + 719468" "b + 719468 < year_start (Y' + 1)"
    "mp' = (5 * (b + 719468 - year_start Y') + 2) div 153"
    "d' = b + 719468 - year_start Y' - (153 * mp' + 2) div 5 + 1"
    "0 \<le> mp'" "mp' \<le> 11" "1 \<le> d'" "d' \<le> 31" by (rule civil_from_days_spec)
  have keys: "civil_key (civil_from_days a) = (12 * Y + mp + 2) * 32 + d"
    "civil_key (civil_from_days b) = (12 * Y' + mp' + 2) * 32 + d'"
    by (simp_all add: A(1) B(1) civil_key_def algebra_simps)
  have "Y \<le> Y'" using year_start_mono[of "Y' + 1" Y] A(2) B(3) assms by linarith
  then consider "Y < Y'" | "Y = Y'" by linarith
  then show ?thesis
  proof cases
    case 1
    then show ?thesis using A(6-9) B(6-9) by (simp add: keys)
  next
    case 2
    then have "mp \<le> mp'" using assms unfolding A(4) B(4) by (intro zdiv_mono1) simp_all
    moreover have "mp = mp' \<Longrightarrow> d < d'" using 2 assms A(5) B(5) by simp
    ultimately show ?thesis using 2 A(6-9) B(6-9) by (cases "mp = mp'") (simp_all add: keys)
  qed
qed

lemma civil_from_days_ranges:
  "civil_from_days z = (y, m, d) \<Longrightarrow> 1 \<le> m \<and> m \<le> 12 \<and> 1 \<le> d \<and> d \<le> 31"
  by (rule civil_from_days_spec[of z]) (auto split: if_splits)

lemma civil_year_range:
  assumes "0 \<le> z" "z \<le> 2932896" "civil_from_days z = (y, m, d)"
  shows "0 \<le> y" "y \<le> 9999"
proof -
  have lo: "civil_from_days 0 = (1970, 1, 1)" and hi: "civil_from_days 2932896 = (9999, 12, 31)"
    by code_simp+
  have "civil_key (1970, 1, 1) \<le> civil_key (y, m, d)" "civil_key (y, m, d) \<le> civil_key (9999, 12, 31)"
    using civil_key_mono[of 0 z] civil_key_mono[of z 2932896] assms lo hi
    by (cases "z = 0"; cases "z = 2932896"; force)+
  moreover have "1 \<le> m \<and> m \<le> 12 \<and> 1 \<le> d \<and> d \<le> 31" using assms(3) by (rule civil_from_days_ranges)
  ultimately show "0 \<le> y" "y \<le> 9999" by (simp_all add: civil_key_def)
qed

lemma days_from_civil_floor:
  fixes Y mp d :: int
  assumes "0 \<le> mp" "mp \<le> 11"
  shows "days_from_civil (Y + (if 10 \<le> mp then 1 else 0)) (if mp < 10 then mp + 3 else mp - 9) d
    = wrap_i64 (wrap_i64 (Y div 400 * 146097) + (365 * (Y mod 400) + Y mod 400 div 4 - Y mod 400 div 100
        + (153 * mp + 2) div 5 + d - 1) - 719468)"
proof -
  let ?m = "if mp < 10 then mp + 3 else mp - 9"
  have m: "?m + (if 2 < ?m then - 3 else 9) = mp" "(?m \<le> 2) = (10 \<le> mp)" using assms by auto
  have era: "(if 0 \<le> Y then Y else Y - 399) sdiv 400 = Y div 400"
    using era_eq[of 400 Y] by (cases "0 \<le> Y") simp_all
  have "Y - Y div 400 * 400 = Y mod 400" by (simp add: minus_div_mult_eq_mod)
  moreover have "Y + (if 10 \<le> mp then 1 else 0) - (if 10 \<le> mp then 1 else 0) = Y" by simp
  ultimately show ?thesis
    unfolding days_from_civil_def Let_def m using assms
    by (simp only: era) (simp add: sdiv_nonneg algebra_simps)
qed

text \<open>The two civil-date conversions agree: turning a day number into a date and the date
  back into a day number is the identity, with no 64-bit product wrapping on the way.\<close>

theorem days_civil_roundtrip:
  assumes "abs z \<le> 10 ^ 15"
  shows "(case civil_from_days z of (y, m, d) \<Rightarrow> days_from_civil y m d) = z"
proof -
  obtain Y mp d where A: "civil_from_days z =
       (Y + (if 10 \<le> mp then 1 else 0), if mp < 10 then mp + 3 else mp - 9, d)"
    "d = z + 719468 - year_start Y - (153 * mp + 2) div 5 + 1" "0 \<le> mp" "mp \<le> 11"
    "year_start Y \<le> z + 719468" "z + 719468 < year_start (Y + 1)"
    by (rule civil_from_days_spec)
  define era yoe where "era = Y div 400" and "yoe = Y mod 400"
  have y: "0 \<le> yoe" "yoe < 400" "Y = yoe + era * 400" by (simp_all add: yoe_def era_def)
  have ys: "year_start Y = era * 146097 + (365 * yoe + yoe div 4 - yoe div 100)"
    using y year_start_era by simp
  have "year_start (Y + 1) \<le> year_start Y + 366" by (auto simp: year_start_def div_step)
  moreover have "0 \<le> yoe div 4" "yoe div 4 \<le> 100" "0 \<le> yoe div 100" "yoe div 100 \<le> 4"
    using y(1,2) by presburger+
  moreover have "z \<le> 1000000000000000" "- z \<le> 1000000000000000" using assms by simp_all
  ultimately have "era * 146097 \<le> 1000010000000000" "- 1000010000000000 \<le> era * 146097"
    using A(5,6) y(1,2) ys by linarith+
  then have w: "wrap_i64 (era * 146097) = era * 146097" "wrap_i64 z = z"
    using assms by (auto simp: in_i64_def i64_min_def i64_max_def abs_le_iff intro!: wrap_i64_id)
  have "era * 146097 + (365 * yoe + yoe div 4 - yoe div 100 + (153 * mp + 2) div 5 + d - 1) - 719468 = z"
    using A(2) ys by simp
  then show ?thesis
    unfolding A(1) prod.case days_from_civil_floor[OF A(3,4)] era_def[symmetric] yoe_def[symmetric]
    by (simp only: w)
qed

theorem days_civil_roundtrip_witness:
  "(case civil_from_days 20652 of (y, m, d) \<Rightarrow> days_from_civil y m d) = 20652
   \<and> civil_from_days 20652 = (2026, 7, 18)"
  using days_civil_roundtrip[of 20652] by (simp, code_simp)

subsection \<open>Stored timestamps compare like instants\<close>

definition iso_text :: "int \<Rightarrow> int \<Rightarrow> int \<Rightarrow> int \<Rightarrow> int \<Rightarrow> int \<Rightarrow> string" where
  "iso_text y mo da h mi s = show_pad 4 y @ ''-'' @ show_pad 2 mo @ ''-'' @ show_pad 2 da @ ''T''
         @ show_pad 2 h @ '':'' @ show_pad 2 mi @ '':'' @ show_pad 2 s @ ''Z''"

lemma text_le_field:
  assumes "0 \<le> i" "i < 10 ^ w" "0 \<le> j" "j < 10 ^ w" "0 < w"
  shows "text_le (show_pad w i @ c # x) (show_pad w j @ c # y) \<longleftrightarrow> i < j \<or> i = j \<and> text_le x y"
proof -
  have "length (show_pad w i) = length (show_pad w j)"
    using show_pad_fixed(1)[of i w] show_pad_fixed(1)[of j w] assms by simp
  from text_le_append[OF this, of "c # x" "c # y"] show ?thesis
    using show_pad_le[OF assms] by (simp add: less_le)
qed

lemma iso_text_le:
  assumes "0 \<le> y" "y \<le> 9999" "1 \<le> mo \<and> mo \<le> 12 \<and> 1 \<le> da \<and> da \<le> 31"
    "0 \<le> h" "h < 24" "0 \<le> mi" "mi < 60" "0 \<le> s" "s < 60"
    "0 \<le> y'" "y' \<le> 9999" "1 \<le> mo' \<and> mo' \<le> 12 \<and> 1 \<le> da' \<and> da' \<le> 31"
    "0 \<le> h'" "h' < 24" "0 \<le> mi'" "mi' < 60" "0 \<le> s'" "s' < 60"
  shows "text_le (iso_text y mo da h mi s) (iso_text y' mo' da' h' mi' s') \<longleftrightarrow>
    y < y' \<or> y = y' \<and> (mo < mo' \<or> mo = mo' \<and> (da < da' \<or> da = da' \<and>
      (h < h' \<or> h = h' \<and> (mi < mi' \<or> mi = mi' \<and> s \<le> s'))))"
proof -
  have le: "s \<le> s' \<longleftrightarrow> s < s' \<or> s = s'" by auto
  show ?thesis unfolding iso_text_def le using assms by (simp add: text_le_field)
qed

lemma iso_utc_text:
  assumes "0 \<le> t" "civil_from_days (t div 86400000) = (y, mo, da)"
  shows "iso_utc t = iso_text y mo da (t mod 86400000 div 3600000)
    (t mod 3600000 div 60000) (t mod 60000 div 1000)"
proof -
  have r: "t - t div 86400000 * 86400000 = t mod 86400000" by (simp add: minus_div_mult_eq_mod)
  have "t mod 86400000 mod 3600000 = t mod 3600000" "t mod 3600000 mod 60000 = t mod 60000"
    by (simp_all add: mod_mod_cancel)
  then show ?thesis
    by (simp add: iso_utc_def iso_text_def floor_div_eq assms r sdiv_nonneg smod_nonneg Let_def)
qed

lemma mixed_radix_digit:
  fixes t k n r :: int
  assumes "0 < k" "0 < n" "r = k * n"
  shows "t mod r div k = t div k mod n" "0 \<le> t mod r div k" "t mod r div k < n"
proof -
  show "t mod r div k = t div k mod n" using assms by (simp add: zmod_zmult2_eq)
  then show "0 \<le> t mod r div k" "t mod r div k < n" using assms by simp_all
qed

lemma clock_fields:
  fixes t :: int
  shows "0 \<le> t mod 86400000 div 3600000" "t mod 86400000 div 3600000 < 24"
    "0 \<le> t mod 3600000 div 60000" "t mod 3600000 div 60000 < 60"
    "0 \<le> t mod 60000 div 1000" "t mod 60000 div 1000 < 60"
  by (rule mixed_radix_digit[of 3600000 24 86400000 t] mixed_radix_digit[of 60000 60 3600000 t]
      mixed_radix_digit[of 1000 60 60000 t]; simp)+

lemma clock_fields_of_seconds:
  fixes t :: int
  shows "t div 86400000 = t div 1000 div 86400"
    "t mod 86400000 div 3600000 = t div 1000 div 3600 mod 24"
    "t mod 3600000 div 60000 = t div 1000 div 60 mod 60"
    "t mod 60000 div 1000 = t div 1000 mod 60"
proof -
  have q: "t div (1000 * k) = t div 1000 div k" if "0 \<le> k" for k :: int
    using that by (rule zdiv_zmult2_eq)
  have n: "1000 * 86400 = (86400000 :: int)" "1000 * 3600 = (3600000 :: int)" "1000 * 60 = (60000 :: int)"
    by simp_all
  show "t div 86400000 = t div 1000 div 86400" by (rule q[of 86400, unfolded n]) simp
  have "t div 3600000 = t div 1000 div 3600" by (rule q[of 3600, unfolded n]) simp
  then show "t mod 86400000 div 3600000 = t div 1000 div 3600 mod 24"
    using mixed_radix_digit(1)[of 3600000 24 86400000 t] by simp
  have "t div 60000 = t div 1000 div 60" by (rule q[of 60, unfolded n]) simp
  then show "t mod 3600000 div 60000 = t div 1000 div 60 mod 60"
    using mixed_radix_digit(1)[of 60000 60 3600000 t] by simp
  show "t mod 60000 div 1000 = t div 1000 mod 60"
    using mixed_radix_digit(1)[of 1000 60 60000 t] by simp
qed

lemma seconds_of_day:
  "t div 1000 = t div 86400000 * 86400 + (t mod 86400000 div 3600000) * 3600
     + (t mod 3600000 div 60000) * 60 + t mod 60000 div 1000" for t :: int
proof -
  define S A B where "S = t div 1000" and "A = S div 60" and "B = S div 3600"
  have B: "B = A div 60" "S div 86400 = B div 24"
    unfolding A_def B_def using zdiv_zmult2_eq[of 60 S 60] zdiv_zmult2_eq[of 24 S 3600] by simp_all
  have comb: "S = C * 86400 + p * 3600 + q * 60 + r"
    if "S = A * 60 + r" "A = B * 60 + q" "B = C * 24 + p" for C p q r :: int
    using that by simp
  have "S = S div 86400 * 86400 + (B mod 24) * 3600 + (A mod 60) * 60 + S mod 60"
  proof (rule comb)
    show "S = A * 60 + S mod 60" unfolding A_def by (rule div_mult_mod_eq[symmetric])
    show "A = B * 60 + A mod 60" unfolding B(1) by (rule div_mult_mod_eq[symmetric])
    show "B = S div 86400 * 24 + B mod 24" unfolding B(2) by (rule div_mult_mod_eq[symmetric])
  qed
  then show ?thesis
    unfolding clock_fields_of_seconds S_def[symmetric] A_def[symmetric] B_def[symmetric] .
qed

lemma clock_lex:
  fixes h m s h' m' s' :: int
  assumes "h * 3600 + m * 60 + s < h' * 3600 + m' * 60 + s'"
    "0 \<le> m" "m < 60" "0 \<le> s" "s < 60" "0 \<le> m'" "m' < 60" "0 \<le> s'" "s' < 60"
  shows "\<not> (h' < h \<or> h' = h \<and> (m' < m \<or> m' = m \<and> s' \<le> s))"
  using assms by linarith

lemma civil_lex:
  assumes "civil_key (y, m, d) < civil_key (y', m', d')"
    "1 \<le> m" "m \<le> 12" "1 \<le> d" "d \<le> 31" "1 \<le> m'" "m' \<le> 12" "1 \<le> d'" "d' \<le> 31"
  shows "\<not> (y' < y \<or> y' = y \<and> (m' < m \<or> m' = m \<and> (d' < d \<or> d' = d \<and> P)))"
proof -
  have k: "(12 * y + m - 1) * 32 + d < (12 * y' + m' - 1) * 32 + d'"
    using assms(1) by (simp add: civil_key_def)
  have "\<not> y' < y"
  proof
    assume "y' < y"
    then have "y' + 1 \<le> y" by simp
    then show False using k assms(2-) by (simp add: algebra_simps)
  qed
  moreover have "\<not> (y' = y \<and> m' < m)" using k assms(2-) by auto
  moreover have "\<not> (y' = y \<and> m' = m \<and> d' \<le> d)" using k by auto
  ultimately show ?thesis by auto
qed

definition iso_max_ms :: int where "iso_max_ms = 253402300799999"

lemma iso_utc_mono:
  assumes a: "0 \<le> a" "a \<le> iso_max_ms" and b: "0 \<le> b" "b \<le> iso_max_ms"
    and lt: "a div 1000 < b div 1000"
  shows "\<not> text_le (iso_utc b) (iso_utc a)"
proof -
  obtain y m d where ca: "civil_from_days (a div 86400000) = (y, m, d)" by (metis prod_cases3)
  obtain y' m' d' where cb: "civil_from_days (b div 86400000) = (y', m', d')" by (metis prod_cases3)
  have days: "0 \<le> a div 86400000" "a div 86400000 \<le> 2932896" "0 \<le> b div 86400000" "b div 86400000 \<le> 2932896"
    using a b zdiv_mono1[of a iso_max_ms 86400000] zdiv_mono1[of b iso_max_ms 86400000]
    by (simp_all add: pos_imp_zdiv_nonneg_iff iso_max_ms_def)
  note ra = civil_year_range[OF days(1,2) ca] civil_from_days_ranges[OF ca]
  note rb = civil_year_range[OF days(3,4) cb] civil_from_days_ranges[OF cb]
  note clock = clock_fields[of a] clock_fields[of b]
  have le: "text_le (iso_utc b) (iso_utc a) \<longleftrightarrow>
    y' < y \<or> y' = y \<and> (m' < m \<or> m' = m \<and> (d' < d \<or> d' = d \<and>
      (b mod 86400000 div 3600000 < a mod 86400000 div 3600000
       \<or> b mod 86400000 div 3600000 = a mod 86400000 div 3600000 \<and>
      (b mod 3600000 div 60000 < a mod 3600000 div 60000
       \<or> b mod 3600000 div 60000 = a mod 3600000 div 60000 \<and> b mod 60000 div 1000 \<le> a mod 60000 div 1000))))"
    unfolding iso_utc_text[OF a(1) ca] iso_utc_text[OF b(1) cb]
    by (rule iso_text_le[OF rb clock(7-12) ra clock(1-6)])
  show ?thesis
  proof (cases "a div 86400000 = b div 86400000")
    case True
    then have same: "y' = y" "m' = m" "d' = d" using ca cb by simp_all
    have "(a mod 86400000 div 3600000) * 3600 + (a mod 3600000 div 60000) * 60 + a mod 60000 div 1000
      < (b mod 86400000 div 3600000) * 3600 + (b mod 3600000 div 60000) * 60 + b mod 60000 div 1000"
      using seconds_of_day[of a] seconds_of_day[of b] lt True by linarith
    then show ?thesis using clock_lex clock unfolding le same by blast
  next
    case False
    moreover have "a \<le> b" using lt zdiv_mono1[of b a 1000] by linarith
    ultimately have "a div 86400000 < b div 86400000" using zdiv_mono1[of a b 86400000] by simp
    then have "civil_key (y, m, d) < civil_key (y', m', d')"
      using civil_key_mono ca cb by metis
    then show ?thesis using civil_lex ra rb unfolding le by blast
  qed
qed


text \<open>C25.  The journal keeps timestamps as text and compares them as text
  (\<^verbatim>\<open>next_attempt_at <= ?\<close>).  For every pair of instants from 1970 to the end of the year 9999 the
  textual order of \<^verbatim>\<open>iso_utc\<close> is the order of the instants, at the stored one-second
  resolution.\<close>

theorem iso_utc_orders_instants:
  assumes "0 \<le> a" "a \<le> iso_max_ms" "0 \<le> b" "b \<le> iso_max_ms"
  shows "text_le (iso_utc a) (iso_utc b) \<longleftrightarrow> a div 1000 \<le> b div 1000"
proof (cases "a div 1000" "b div 1000" rule: linorder_cases)
  case less
  then show ?thesis using iso_utc_mono[of a b] text_le_total[of "iso_utc a"] assms by auto
next
  case greater
  then show ?thesis using iso_utc_mono[of b a] assms by auto
next
  case equal
  note f = clock_fields_of_seconds
  obtain y m d where c: "civil_from_days (a div 86400000) = (y, m, d)" by (metis prod_cases3)
  moreover have "civil_from_days (b div 86400000) = (y, m, d)" using c f(1) equal by metis
  ultimately have "iso_utc a = iso_utc b"
    using assms equal by (simp only: iso_utc_text f)
  then show ?thesis using equal by simp
qed

theorem iso_utc_orders_instants_witness:
  "text_le (iso_utc 1784332800000) (iso_utc 1784336399999)
   \<and> \<not> text_le (iso_utc 1784336400000) (iso_utc 1784336399999)
   \<and> iso_utc 1784332800000 = ''2026-07-18T00:00:00Z''"
proof -
  have "text_le (iso_utc 1784332800000) (iso_utc 1784336399999)"
    "\<not> text_le (iso_utc 1784336400000) (iso_utc 1784336399999)"
    using iso_utc_orders_instants[of 1784332800000 1784336399999]
      iso_utc_orders_instants[of 1784336400000 1784336399999] by (simp_all add: iso_max_ms_def)
  moreover have "iso_utc 1784332800000 = ''2026-07-18T00:00:00Z''" by code_simp
  ultimately show ?thesis by blast
qed

subsection \<open>The XUNI window\<close>

lemma mod_shift:
  fixes t d k :: int
  assumes "0 < k" "0 \<le> d"
  shows "t mod k + d < k \<Longrightarrow> (t + d) mod k = t mod k + d"
    "k \<le> t mod k + d \<Longrightarrow> t mod k + d < 2 * k \<Longrightarrow> (t + d) mod k = t mod k + d - k"
proof -
  have e: "(t + d) mod k = (t mod k + d) mod k" by (simp add: mod_add_left_eq)
  have nn: "0 \<le> t mod k" using assms by simp
  show "t mod k + d < k \<Longrightarrow> (t + d) mod k = t mod k + d"
    unfolding e using assms nn by (intro mod_pos_pos_trivial) simp_all
  assume w: "k \<le> t mod k + d" "t mod k + d < 2 * k"
  have "(t mod k + d) mod k = (t mod k + d - k) mod k" by simp
  also have "\<dots> = t mod k + d - k" using w by (intro mod_pos_pos_trivial) simp_all
  finally show "(t + d) mod k = t mod k + d - k" unfolding e .
qed

text \<open>Inside an open window the close instant is the same whenever it is asked for.\<close>

lemma xuni_window_shift:
  assumes "win_open (xuni_window_at t)" "0 \<le> d" "d < ms_until_close (xuni_window_at t)"
  shows "xuni_window_at (t + d)
    = \<lparr> win_open = True, ms_until_close = ms_until_close (xuni_window_at t) - d \<rparr>"
proof -
  let ?r = "t mod 3600000"
  have r: "0 \<le> ?r" "?r < 3600000" by simp_all
  consider (late) "3300000 \<le> ?r" "d < 3900000 - ?r" | (early) "?r < 300000" "d < 300000 - ?r"
    using assms by (auto simp: xuni_window_unfold Let_def split: if_splits)
  then show ?thesis
  proof cases
    case late
    then show ?thesis using r assms(2) mod_shift[of 3600000 d t]
      by (cases "?r + d < 3600000") (simp_all add: xuni_window_unfold Let_def)
  next
    case early
    then show ?thesis using r assms(2) mod_shift(1)[of 3600000 d t]
      by (simp add: xuni_window_unfold Let_def)
  qed
qed

lemma xuni_window_closes:
  assumes "win_open (xuni_window_at t)"
  shows "\<not> win_open (xuni_window_at (t + ms_until_close (xuni_window_at t)))"
proof -
  let ?r = "t mod 3600000"
  have r: "0 \<le> ?r" "?r < 3600000" by simp_all
  consider (late) "3300000 \<le> ?r" | (early) "?r < 300000"
    using assms by (auto simp: xuni_window_unfold Let_def split: if_splits)
  then show ?thesis
  proof cases
    case late
    then show ?thesis using r mod_shift(2)[of 3600000 "3900000 - ?r" t]
      by (simp add: xuni_window_unfold Let_def)
  next
    case early
    then show ?thesis using r mod_shift(1)[of 3600000 "300000 - ?r" t]
      by (simp add: xuni_window_unfold Let_def)
  qed
qed

lemma xuni_minute: "nat (t div 60000 mod 60) = nat (t mod 3600000 div 60000)"
  using mixed_radix_digit(1)[of 60000 60 3600000 t] by simp

lemma minute_of:
  fixes r :: int
  assumes "0 \<le> r"
  shows "nat (r div 60000) < 5 \<longleftrightarrow> r < 300000" "55 \<le> nat (r div 60000) \<longleftrightarrow> 3300000 \<le> r"
proof -
  define q where "q = r div 60000"
  have lo: "q * 60000 \<le> r" unfolding q_def using div_mult_mod_eq[of r 60000] pos_mod_sign[of 60000 r]
    by (metis le_add_same_cancel1 zero_less_numeral)
  have hi: "r < (q + 1) * 60000" unfolding q_def distrib_right mult_1
    using div_mult_mod_eq[of r 60000] pos_mod_bound[of 60000 r] by (metis add_strict_left_mono zero_less_numeral)
  show "nat (r div 60000) < 5 \<longleftrightarrow> r < 300000" "55 \<le> nat (r div 60000) \<longleftrightarrow> 3300000 \<le> r"
    unfolding q_def[symmetric] using lo hi assms by (auto simp: nat_less_iff le_nat_iff)
qed

text \<open>C26.  The submitter's view of the XUNI window (\<^verbatim>\<open>xuni_window_at\<close>) is the miner's
  minute-granular one (\<^verbatim>\<open>is_within_xuni_window_at\<close>), and its time-to-close is exact: while it
  is open the close lies at most ten minutes ahead, every instant before it is still inside with
  correspondingly less time left, and at it the window is shut.\<close>

theorem xuni_window_exact:
  "(win_open (xuni_window_at t) = is_within_xuni_window_at (nat (t div 60000 mod 60)))
   \<and> (win_open (xuni_window_at t) \<longrightarrow>
        0 < ms_until_close (xuni_window_at t) \<and> ms_until_close (xuni_window_at t) \<le> 600000
        \<and> (\<forall>d. 0 \<le> d \<and> d < ms_until_close (xuni_window_at t) \<longrightarrow>
              win_open (xuni_window_at (t + d))
              \<and> ms_until_close (xuni_window_at (t + d)) = ms_until_close (xuni_window_at t) - d)
        \<and> \<not> win_open (xuni_window_at (t + ms_until_close (xuni_window_at t))))"
proof -
  have r: "0 \<le> t mod 3600000" "t mod 3600000 < 3600000" by simp_all
  have m: "nat (t div 60000 mod 60) < 5 \<longleftrightarrow> t mod 3600000 < 300000"
    "55 \<le> nat (t div 60000 mod 60) \<longleftrightarrow> 3300000 \<le> t mod 3600000"
    unfolding xuni_minute using minute_of[OF r(1)] by simp_all
  have "win_open (xuni_window_at t) = is_within_xuni_window_at (nat (t div 60000 mod 60))"
    using m by (auto simp: xuni_window_unfold Let_def is_within_xuni_window_at_def)
  moreover have "win_open (xuni_window_at t) \<Longrightarrow>
      0 < ms_until_close (xuni_window_at t) \<and> ms_until_close (xuni_window_at t) \<le> 600000"
    using r by (auto simp: xuni_window_unfold Let_def split: if_splits)
  ultimately show ?thesis using xuni_window_shift[of t] xuni_window_closes[of t] by simp
qed

theorem xuni_window_exact_witness:
  "win_open (xuni_window_at 3540000)
   \<and> ms_until_close (xuni_window_at 3540000) = 360000
   \<and> ms_until_close (xuni_window_at (3540000 + 200000)) = 160000
   \<and> \<not> win_open (xuni_window_at (3540000 + 360000))"
proof -
  have "win_open (xuni_window_at 3540000)" "ms_until_close (xuni_window_at 3540000) = 360000"
    by (simp_all add: xuni_window_unfold)
  then show ?thesis using xuni_window_exact[of 3540000] by (auto dest!: spec[of _ 200000])
qed

end
