(* ===== verification/Breaker.thy ===== *)
theory Breaker
  imports F64 Transition_Systems
begin

text \<open>
  \<^verbatim>\<open>tm-submit/src/breaker.rs\<close>: the circuit breaker in front of \<^verbatim>\<open>/verify\<close>.  The struct is
  a record; the injected clock and jitter source are read where the source calls them and appear
  as the arguments \<open>now\<close> and \<open>jit\<close> of the operations that read them.  The operations are the
  events of a transition system (\<open>breaker_step\<close>) whose reachable states carry the invariant
  \<open>breaker_wf\<close>; \<open>abs_breaker\<close> maps a state to the three-state automaton the module comment
  describes, and every operation refines that automaton.
\<close>

subsection \<open>State and operations\<close>

datatype breaker_state = Closed | Opened | HalfOpen

record breaker_config =
  failure_threshold :: int
  probe_base_ms :: int
  probe_cap_ms :: int
  probe_cap_xuni_ms :: int
  jitter_fraction :: f64

definition default_breaker_config :: breaker_config where
  "default_breaker_config =
     \<lparr> failure_threshold = 3, probe_base_ms = 5000, probe_cap_ms = 60000,
       probe_cap_xuni_ms = 5000, jitter_fraction = rnd (1 / 5) \<rparr>"

record circuit_breaker =
  b_cfg :: breaker_config
  b_state :: breaker_state
  consecutive_failures :: int
  probe_interval_ms :: int
  next_probe_at_ms :: int
  admission_available :: bool
  xuni_pressure :: bool

definition breaker_new :: "breaker_config \<Rightarrow> circuit_breaker" where
  "breaker_new cfg =
     \<lparr> b_cfg = cfg, b_state = Closed, consecutive_failures = 0, probe_interval_ms = 0,
       next_probe_at_ms = 0, admission_available = False, xuni_pressure = False \<rparr>"

definition active_cap_ms :: "circuit_breaker \<Rightarrow> int" where
  "active_cap_ms b =
     (if xuni_pressure b then min (probe_cap_ms (b_cfg b)) (probe_cap_xuni_ms (b_cfg b))
      else probe_cap_ms (b_cfg b))"

definition schedule_probe :: "int \<Rightarrow> f64 \<Rightarrow> circuit_breaker \<Rightarrow> circuit_breaker" where
  "schedule_probe now jit b =
     (let cap = active_cap_ms b;
          base = min (probe_interval_ms b) cap;
          delay0 = wrap_i64 (base
            + f64_to_i64 (f64_mul (f64_mul jit (jitter_fraction (b_cfg b))) (f64_of_int base)));
          delay = (if xuni_pressure b then min delay0 cap else delay0)
      in b\<lparr> next_probe_at_ms := wrap_i64 (now + delay) \<rparr>)"

definition breaker_open :: "int \<Rightarrow> f64 \<Rightarrow> circuit_breaker \<Rightarrow> circuit_breaker" where
  "breaker_open now jit b =
     schedule_probe now jit (b\<lparr> b_state := Opened, admission_available := False \<rparr>)"

definition probe_due :: "int \<Rightarrow> circuit_breaker \<Rightarrow> bool" where
  "probe_due now b \<longleftrightarrow> b_state b = Opened \<and> next_probe_at_ms b \<le> now"

definition on_probe_success :: "circuit_breaker \<Rightarrow> circuit_breaker" where
  "on_probe_success b =
     (if b_state b \<noteq> Opened then b
      else b\<lparr> b_state := HalfOpen, admission_available := True \<rparr>)"

definition on_probe_failure :: "int \<Rightarrow> f64 \<Rightarrow> circuit_breaker \<Rightarrow> circuit_breaker" where
  "on_probe_failure now jit b =
     (if b_state b \<noteq> Opened then b
      else schedule_probe now jit
        (b\<lparr> probe_interval_ms :=
             min (wrap_i64 (probe_interval_ms b * 2)) (probe_cap_ms (b_cfg b)) \<rparr>))"

definition try_admit :: "circuit_breaker \<Rightarrow> bool \<times> circuit_breaker" where
  "try_admit b =
     (case b_state b of
        Closed \<Rightarrow> (True, b)
      | HalfOpen \<Rightarrow>
          (if admission_available b then (True, b\<lparr> admission_available := False \<rparr>) else (False, b))
      | Opened \<Rightarrow> (False, b))"

definition on_verify_success :: "circuit_breaker \<Rightarrow> circuit_breaker" where
  "on_verify_success b =
     b\<lparr> b_state := Closed, consecutive_failures := 0,
        probe_interval_ms := probe_base_ms (b_cfg b), admission_available := False \<rparr>"

definition on_verify_transport_failure :: "int \<Rightarrow> f64 \<Rightarrow> circuit_breaker \<Rightarrow> circuit_breaker" where
  "on_verify_transport_failure now jit b =
     (case b_state b of
        HalfOpen \<Rightarrow>
          breaker_open now jit
            (b\<lparr> probe_interval_ms :=
                 min (wrap_i64 (max (probe_interval_ms b) (probe_base_ms (b_cfg b)) * 2))
                     (probe_cap_ms (b_cfg b)) \<rparr>)
      | Closed \<Rightarrow>
          (let b1 = b\<lparr> consecutive_failures := wrap_i32 (consecutive_failures b + 1) \<rparr>
           in if failure_threshold (b_cfg b1) \<le> consecutive_failures b1
              then breaker_open now jit (b1\<lparr> probe_interval_ms := probe_base_ms (b_cfg b1) \<rparr>)
              else b1)
      | Opened \<Rightarrow> b)"

definition on_verify_inconclusive :: "circuit_breaker \<Rightarrow> circuit_breaker" where
  "on_verify_inconclusive b =
     (let b1 = b\<lparr> consecutive_failures := 0 \<rparr>
      in if b_state b1 = HalfOpen then b1\<lparr> admission_available := True \<rparr> else b1)"

definition set_xuni_pressure :: "int \<Rightarrow> bool \<Rightarrow> circuit_breaker \<Rightarrow> circuit_breaker" where
  "set_xuni_pressure now eligible_xuni_exists b =
     (let was = xuni_pressure b;
          b1 = b\<lparr> xuni_pressure := eligible_xuni_exists \<rparr>
      in if \<not> was \<and> xuni_pressure b1 \<and> b_state b1 = Opened then
           (let latest = wrap_i64 (now + active_cap_ms b1)
            in b1\<lparr> next_probe_at_ms := min (next_probe_at_ms b1) latest \<rparr>)
         else b1)"

lemmas breaker_ops =
  on_probe_success_def on_probe_failure_def try_admit_def on_verify_success_def
  on_verify_transport_failure_def on_verify_inconclusive_def set_xuni_pressure_def
  breaker_open_def schedule_probe_def breaker_new_def Let_def

subsection \<open>The transition system\<close>

text \<open>One event per operation; the readings of clock and jitter are part of the event.\<close>

datatype breaker_event =
    EvProbeSuccess
  | EvProbeFailure int f64
  | EvAdmit
  | EvVerifySuccess
  | EvTransportFailure int f64
  | EvInconclusive
  | EvPressure int bool

fun breaker_step :: "circuit_breaker \<Rightarrow> breaker_event \<Rightarrow> circuit_breaker" where
  "breaker_step b EvProbeSuccess = on_probe_success b"
| "breaker_step b (EvProbeFailure now jit) = on_probe_failure now jit b"
| "breaker_step b EvAdmit = snd (try_admit b)"
| "breaker_step b EvVerifySuccess = on_verify_success b"
| "breaker_step b (EvTransportFailure now jit) = on_verify_transport_failure now jit b"
| "breaker_step b EvInconclusive = on_verify_inconclusive b"
| "breaker_step b (EvPressure now p) = set_xuni_pressure now p b"

text \<open>The readings the sources promise: a monotonic clock far from the end of its range and a
  uniform draw from \<open>[0, 1)\<close>.\<close>

definition unit_f64 :: "f64 \<Rightarrow> bool" where
  "unit_f64 j = (case j of Finite x \<Rightarrow> 0 \<le> x \<and> x \<le> 1 | _ \<Rightarrow> False)"

definition clock_ok :: "int \<Rightarrow> bool" where
  "clock_ok now \<longleftrightarrow> 0 \<le> now \<and> now < 2 ^ 62"

fun event_ok :: "breaker_event \<Rightarrow> bool" where
  "event_ok (EvProbeFailure now jit) = (clock_ok now \<and> unit_f64 jit)"
| "event_ok (EvTransportFailure now jit) = (clock_ok now \<and> unit_f64 jit)"
| "event_ok (EvPressure now p) = clock_ok now"
| "event_ok _ = True"

definition breaker_config_ok :: "breaker_config \<Rightarrow> bool" where
  "breaker_config_ok cfg \<longleftrightarrow>
     1 \<le> failure_threshold cfg \<and> failure_threshold cfg < 2 ^ 31
     \<and> 0 < probe_base_ms cfg \<and> probe_base_ms cfg \<le> probe_cap_ms cfg \<and> probe_cap_ms cfg < 2 ^ 32
     \<and> 0 < probe_cap_xuni_ms cfg \<and> unit_f64 (jitter_fraction cfg)"

definition breaker_wf :: "circuit_breaker \<Rightarrow> bool" where
  "breaker_wf b \<longleftrightarrow>
     breaker_config_ok (b_cfg b)
     \<and> (admission_available b \<longrightarrow> b_state b = HalfOpen)
     \<and> 0 \<le> consecutive_failures b \<and> consecutive_failures b \<le> failure_threshold (b_cfg b)
     \<and> (b_state b = Closed \<longrightarrow> consecutive_failures b < failure_threshold (b_cfg b))
     \<and> 0 \<le> probe_interval_ms b \<and> probe_interval_ms b \<le> probe_cap_ms (b_cfg b)
     \<and> (b_state b \<noteq> Closed \<longrightarrow> probe_base_ms (b_cfg b) \<le> probe_interval_ms b)"

text \<open>The contract, as an automaton over the three states.\<close>

datatype breaker_spec = SClosed nat | SOpen | SHalfOpen bool

fun breaker_spec_step :: "nat \<Rightarrow> breaker_spec \<Rightarrow> breaker_event \<Rightarrow> breaker_spec" where
  "breaker_spec_step thr s EvVerifySuccess = SClosed 0"
| "breaker_spec_step thr (SClosed k) (EvTransportFailure now jit) =
     (if thr \<le> Suc k then SOpen else SClosed (Suc k))"
| "breaker_spec_step thr (SClosed k) EvInconclusive = SClosed 0"
| "breaker_spec_step thr SOpen EvProbeSuccess = SHalfOpen True"
| "breaker_spec_step thr (SHalfOpen a) EvAdmit = SHalfOpen False"
| "breaker_spec_step thr (SHalfOpen a) EvInconclusive = SHalfOpen True"
| "breaker_spec_step thr (SHalfOpen a) (EvTransportFailure now jit) = SOpen"
| "breaker_spec_step thr s e = s"

definition abs_breaker :: "circuit_breaker \<Rightarrow> breaker_spec" where
  "abs_breaker b =
     (case b_state b of
        Closed \<Rightarrow> SClosed (nat (consecutive_failures b))
      | Opened \<Rightarrow> SOpen
      | HalfOpen \<Rightarrow> SHalfOpen (admission_available b))"

subsection \<open>Invariant and refinement\<close>

lemma schedule_probe_frame [simp]:
  "b_cfg (schedule_probe now jit b) = b_cfg b" "b_state (schedule_probe now jit b) = b_state b"
  "consecutive_failures (schedule_probe now jit b) = consecutive_failures b"
  "probe_interval_ms (schedule_probe now jit b) = probe_interval_ms b"
  "admission_available (schedule_probe now jit b) = admission_available b"
  "xuni_pressure (schedule_probe now jit b) = xuni_pressure b"
  by (simp_all add: schedule_probe_def Let_def)

lemma breaker_open_frame [simp]:
  "b_cfg (breaker_open now jit b) = b_cfg b" "b_state (breaker_open now jit b) = Opened"
  "consecutive_failures (breaker_open now jit b) = consecutive_failures b"
  "probe_interval_ms (breaker_open now jit b) = probe_interval_ms b"
  "admission_available (breaker_open now jit b) = False"
  "xuni_pressure (breaker_open now jit b) = xuni_pressure b"
  by (simp_all add: breaker_open_def)

lemmas breaker_step_defs =
  on_probe_success_def on_probe_failure_def try_admit_def on_verify_success_def
  on_verify_transport_failure_def on_verify_inconclusive_def set_xuni_pressure_def Let_def

lemma breaker_step_cfg [simp]: "b_cfg (breaker_step b e) = b_cfg b"
  by (cases e) (auto simp: breaker_step_defs split: breaker_state.splits)

lemma wrap_i64_probe: "0 \<le> i \<Longrightarrow> i < 2 ^ 33 \<Longrightarrow> wrap_i64 i = i"
  by (rule wrap_i64_id) (simp add: in_i64_def i64_min_def i64_max_def)

lemma breaker_step_wf: "breaker_wf b \<Longrightarrow> breaker_wf (breaker_step b e)"
proof (cases e)
  case (EvTransportFailure now jit)
  assume "breaker_wf b"
  then show ?thesis using EvTransportFailure
    by (cases "b_state b")
       (auto simp: breaker_wf_def breaker_config_ok_def breaker_step_defs wrap_i64_probe wrap_i32_id)
next
  case (EvProbeFailure now jit)
  assume "breaker_wf b"
  then show ?thesis using EvProbeFailure
    by (auto simp: breaker_wf_def breaker_config_ok_def breaker_step_defs wrap_i64_probe)
qed (auto simp: breaker_wf_def breaker_config_ok_def breaker_step_defs split: breaker_state.splits)

lemma breaker_step_abs:
  "breaker_wf b \<Longrightarrow>
   abs_breaker (breaker_step b e)
     = breaker_spec_step (nat (failure_threshold (b_cfg b))) (abs_breaker b) e"
proof (cases e)
  case (EvTransportFailure now jit)
  assume "breaker_wf b"
  then show ?thesis using EvTransportFailure
    by (cases "b_state b")
       (auto simp: breaker_wf_def breaker_config_ok_def breaker_step_defs abs_breaker_def
         wrap_i32_id nat_add_distrib)
qed (auto simp: breaker_step_defs abs_breaker_def breaker_wf_def split: breaker_state.splits)

lemma breaker_new_wf:
  "breaker_config_ok cfg \<Longrightarrow> breaker_wf (breaker_new cfg)" "b_cfg (breaker_new cfg) = cfg"
  by (simp_all add: breaker_new_def breaker_wf_def breaker_config_ok_def)

interpretation br: functional_refinement
  "\<lambda>b. b = breaker_new cfg \<and> breaker_config_ok cfg" breaker_step event_ok
  "\<lambda>b. breaker_wf b \<and> b_cfg b = cfg" abs_breaker
  "breaker_spec_step (nat (failure_threshold cfg))" for cfg
  by unfold_locales
     (auto simp: breaker_step_abs breaker_step_wf breaker_new_wf)

text \<open>C12.  Whatever sequence of operations is applied to a fresh breaker with a sane
  configuration, at whatever clock and jitter readings, the breaker behaves as the three-state
  automaton of its module comment: it opens at the \<^verbatim>\<open>failure_threshold\<close>-th consecutive
  \<^verbatim>\<open>/verify\<close> failure, becomes half-open only on a successful probe, and closes only on a
  verification success.\<close>

theorem breaker_refines_automaton:
  assumes "breaker_config_ok cfg" "list_all event_ok es"
  shows "abs_breaker (run breaker_step (breaker_new cfg) es)
    = run (breaker_spec_step (nat (failure_threshold cfg))) (SClosed 0) es"
proof -
  have "abs_breaker (breaker_new cfg) = SClosed 0" by (simp add: abs_breaker_def breaker_new_def)
  then show ?thesis
    using br.run_refines[of "breaker_new cfg" cfg es] breaker_new_wf[of cfg] assms by simp
qed

definition quarter_jitter_config :: breaker_config where
  "quarter_jitter_config = default_breaker_config\<lparr> jitter_fraction := Finite (1 / 4) \<rparr>"

lemma quarter_jitter_config_ok: "breaker_config_ok quarter_jitter_config"
  by (simp add: breaker_config_ok_def quarter_jitter_config_def default_breaker_config_def unit_f64_def)

theorem breaker_refines_automaton_witness:
  "abs_breaker (run breaker_step (breaker_new quarter_jitter_config)
     [EvTransportFailure 0 (Finite 0), EvTransportFailure 1 (Finite 0), EvTransportFailure 2 (Finite 0),
      EvProbeSuccess, EvAdmit]) = SHalfOpen False"
  using breaker_refines_automaton[OF quarter_jitter_config_ok,
      of "[EvTransportFailure 0 (Finite 0), EvTransportFailure 1 (Finite 0),
           EvTransportFailure 2 (Finite 0), EvProbeSuccess, EvAdmit]"]
  by (simp add: clock_ok_def unit_f64_def quarter_jitter_config_def default_breaker_config_def)

subsection \<open>Half-open admits one submission\<close>

fun admissions :: "circuit_breaker \<Rightarrow> breaker_event list \<Rightarrow> nat" where
  "admissions b [] = 0"
| "admissions b (e # es) =
     (if e = EvAdmit \<and> fst (try_admit b) then 1 else 0) + admissions (breaker_step b e) es"

fun is_outcome :: "breaker_event \<Rightarrow> bool" where
  "is_outcome EvVerifySuccess = True"
| "is_outcome (EvTransportFailure now jit) = True"
| "is_outcome EvInconclusive = True"
| "is_outcome _ = False"

lemma half_open_quiet_step:
  assumes "b_state b = HalfOpen" "\<not> is_outcome e"
  shows "b_state (breaker_step b e) = HalfOpen"
    "admission_available (breaker_step b e) = (admission_available b \<and> e \<noteq> EvAdmit)"
    "fst (try_admit b) = admission_available b"
  using assms by (cases e; simp add: breaker_step_defs)+

text \<open>A half-open breaker lets exactly one submission through until its outcome is
  reported: over any sequence of operations without an outcome it grants one admission if the slot
  was free and somebody asked, none otherwise, and stays half-open.\<close>

theorem half_open_admits_once:
  assumes "b_state b = HalfOpen" "list_all (\<lambda>e. \<not> is_outcome e) es"
  shows "admissions b es = (if admission_available b \<and> EvAdmit \<in> set es then 1 else 0)
    \<and> b_state (run breaker_step b es) = HalfOpen"
  using assms
proof (induction es arbitrary: b)
  case Nil
  then show ?case by simp
next
  case (Cons e es)
  then have q: "b_state (breaker_step b e) = HalfOpen"
    "admission_available (breaker_step b e) = (admission_available b \<and> e \<noteq> EvAdmit)"
    "fst (try_admit b) = admission_available b"
    using half_open_quiet_step[of b e] by simp_all
  show ?case using Cons.IH[OF q(1)] Cons.prems(2) q by simp
qed

theorem half_open_admits_once_witness:
  "admissions (on_probe_success ((breaker_new quarter_jitter_config)\<lparr> b_state := Opened \<rparr>))
     [EvPressure 5 True, EvAdmit, EvProbeSuccess, EvAdmit, EvAdmit] = 1"
  using half_open_admits_once[of "on_probe_success ((breaker_new quarter_jitter_config)\<lparr> b_state := Opened \<rparr>)"
      "[EvPressure 5 True, EvAdmit, EvProbeSuccess, EvAdmit, EvAdmit]"]
  by (simp add: on_probe_success_def)

subsection \<open>Probe scheduling\<close>

lemma f64_unit_mul:
  assumes "unit_f64 x" "unit_f64 y"
  shows "unit_f64 (f64_mul x y)"
proof -
  obtain a b where ab: "x = Finite a" "y = Finite b" "0 \<le> a" "a \<le> 1" "0 \<le> b" "b \<le> 1"
    using assms by (auto simp: unit_f64_def split: f64.splits)
  then have "0 \<le> a * b" "a * b \<le> 1" by (simp_all add: mult_le_one)
  then obtain r where "rnd (a * b) = Finite r" "0 \<le> r" "r \<le> 1"
    using rnd_between[of 0 "a * b" 1] by auto
  then show ?thesis using ab by (simp add: unit_f64_def)
qed

lemma f64_share_bounds:
  assumes "unit_f64 x" "0 \<le> n" "n < 2 ^ 53"
  shows "0 \<le> f64_to_i64 (f64_mul x (f64_of_int n))" "f64_to_i64 (f64_mul x (f64_of_int n)) \<le> n"
proof -
  obtain a where a: "x = Finite a" "0 \<le> a" "a \<le> 1"
    using assms(1) by (auto simp: unit_f64_def split: f64.splits)
  have n: "(0::rat) \<le> of_int n" using assms by simp
  then have "0 \<le> a * of_int n" "a * of_int n \<le> of_int n" using a by (simp_all add: mult_left_le_one_le)
  then obtain r where r: "rnd (a * of_int n) = Finite r" "0 \<le> r" "r \<le> of_int n"
    using rnd_between[of 0 "a * of_int n" n] assms by auto
  then have "0 \<le> \<lfloor>r\<rfloor>" "\<lfloor>r\<rfloor> \<le> n" by (simp_all add: floor_le_iff)
  then show "0 \<le> f64_to_i64 (f64_mul x (f64_of_int n))" "f64_to_i64 (f64_mul x (f64_of_int n)) \<le> n"
    using r a assms by (simp_all add: f64_of_int_exact trunc_rat_def i64_min_def i64_max_def)
qed

text \<open>The jitter a delay gets on top: the reading times the configured fraction of the interval, truncated.\<close>

definition jitter_ms :: "breaker_config \<Rightarrow> f64 \<Rightarrow> int \<Rightarrow> int" where
  "jitter_ms cfg jit interval = f64_to_i64 (f64_mul (f64_mul jit (jitter_fraction cfg)) (f64_of_int interval))"

lemma schedule_probe_window:
  assumes "breaker_config_ok (b_cfg b)" "probe_base_ms (b_cfg b) \<le> probe_interval_ms b"
    "clock_ok now" "unit_f64 jit"
  shows "now < next_probe_at_ms (schedule_probe now jit b)"
    "now + min (probe_interval_ms b) (active_cap_ms b) \<le> next_probe_at_ms (schedule_probe now jit b)"
    "next_probe_at_ms (schedule_probe now jit b) \<le> now + 2 * min (probe_interval_ms b) (active_cap_ms b)"
    "xuni_pressure b \<Longrightarrow>
     next_probe_at_ms (schedule_probe now jit b) \<le> now + probe_cap_xuni_ms (b_cfg b)"
    "\<not> xuni_pressure b \<Longrightarrow> next_probe_at_ms (schedule_probe now jit b)
       = now + min (probe_interval_ms b) (active_cap_ms b) + jitter_ms (b_cfg b) jit (min (probe_interval_ms b) (active_cap_ms b))"
    "0 \<le> jitter_ms (b_cfg b) jit (min (probe_interval_ms b) (active_cap_ms b))"
    "jitter_ms (b_cfg b) jit (min (probe_interval_ms b) (active_cap_ms b)) \<le> min (probe_interval_ms b) (active_cap_ms b)"
proof -
  define cap where "cap = active_cap_ms b"
  define base where "base = min (probe_interval_ms b) cap"
  define share where "share = jitter_ms (b_cfg b) jit base"
  have cap: "0 < cap" "cap < 2 ^ 32" "xuni_pressure b \<Longrightarrow> cap \<le> probe_cap_xuni_ms (b_cfg b)"
    using assms(1) by (auto simp: cap_def active_cap_ms_def breaker_config_ok_def)
  have base: "0 < base" "base \<le> cap" "base < 2 ^ 32"
    using cap assms(1,2) by (auto simp: base_def breaker_config_ok_def)
  have "unit_f64 (f64_mul jit (jitter_fraction (b_cfg b)))"
    using assms(1,4) f64_unit_mul by (simp add: breaker_config_ok_def)
  then have share: "0 \<le> share" "share \<le> base"
    unfolding share_def jitter_ms_def using f64_share_bounds base by simp_all
  define delay where "delay = (if xuni_pressure b then min (base + share) cap else base + share)"
  have w: "wrap_i64 (base + share) = base + share"
    using share base by (intro wrap_i64_probe) simp_all
  have d: "base \<le> delay" "delay \<le> 2 * base" "xuni_pressure b \<Longrightarrow> delay \<le> cap"
    using share base by (auto simp: delay_def)
  have "wrap_i64 (now + delay) = now + delay"
    using d base assms(3) by (intro wrap_i64_id) (simp add: in_i64_def i64_min_def i64_max_def clock_ok_def)
  moreover have "next_probe_at_ms (schedule_probe now jit b) = wrap_i64 (now + delay)"
    by (simp add: schedule_probe_def Let_def cap_def[symmetric] base_def[symmetric]
        share_def[unfolded jitter_ms_def, symmetric] w delay_def)
  ultimately have n: "next_probe_at_ms (schedule_probe now jit b) = now + delay" by simp
  show "now < next_probe_at_ms (schedule_probe now jit b)"
    "now + min (probe_interval_ms b) (active_cap_ms b) \<le> next_probe_at_ms (schedule_probe now jit b)"
    "next_probe_at_ms (schedule_probe now jit b) \<le> now + 2 * min (probe_interval_ms b) (active_cap_ms b)"
    unfolding n cap_def[symmetric] base_def[symmetric] using d base by simp_all
  show "xuni_pressure b \<Longrightarrow>
     next_probe_at_ms (schedule_probe now jit b) \<le> now + probe_cap_xuni_ms (b_cfg b)"
    unfolding n using d(3) cap(3) by simp
  show "\<not> xuni_pressure b \<Longrightarrow> next_probe_at_ms (schedule_probe now jit b)
       = now + min (probe_interval_ms b) (active_cap_ms b) + jitter_ms (b_cfg b) jit (min (probe_interval_ms b) (active_cap_ms b))"
    "0 \<le> jitter_ms (b_cfg b) jit (min (probe_interval_ms b) (active_cap_ms b))"
    "jitter_ms (b_cfg b) jit (min (probe_interval_ms b) (active_cap_ms b)) \<le> min (probe_interval_ms b) (active_cap_ms b)"
    unfolding n cap_def[symmetric] base_def[symmetric] share_def[symmetric] using share by (simp_all add: delay_def)
qed

text \<open>C18.  When the next probe is due.  Every failure that leaves the breaker open schedules its next
  probe strictly in the future: the interval, which each failed probe doubles up to the ceiling, plus
  the jitter of that interval, which comes on top of the ceiling and is at most the interval again.
  While an eligible XUNI is waiting the XUNI ceiling bounds the whole delay, also for a probe that was
  scheduled before the flag turned on.  The probe becomes due at the scheduled instant and stays due.\<close>

theorem probe_schedule_bounds:
  assumes wf: "breaker_wf b" and now: "clock_ok now" and jit: "unit_f64 jit"
    and e: "e = EvProbeFailure now jit \<and> b_state b = Opened
          \<or> e = EvTransportFailure now jit \<and> b_state b \<noteq> Opened
          \<or> e = EvPressure now True \<and> \<not> xuni_pressure b \<and> b_state b = Opened"
    and opened: "b_state (breaker_step b e) = Opened"
    and i: "i = probe_interval_ms (breaker_step b e)"
  shows "(e \<noteq> EvPressure now True \<longrightarrow>
            now < next_probe_at_ms (breaker_step b e) \<and> i \<le> probe_cap_ms (b_cfg b)
            \<and> (\<not> xuni_pressure (breaker_step b e) \<longrightarrow>
                 next_probe_at_ms (breaker_step b e) = now + i + jitter_ms (b_cfg b) jit i
                 \<and> 0 \<le> jitter_ms (b_cfg b) jit i \<and> jitter_ms (b_cfg b) jit i \<le> i))
    \<and> (xuni_pressure (breaker_step b e) \<longrightarrow>
         next_probe_at_ms (breaker_step b e) \<le> now + probe_cap_xuni_ms (b_cfg b))
    \<and> (\<forall>t. probe_due t (breaker_step b e) = (next_probe_at_ms (breaker_step b e) \<le> t))
    \<and> (e = EvProbeFailure now jit \<longrightarrow> i = min (2 * probe_interval_ms b) (probe_cap_ms (b_cfg b)))"
proof -
  have cfg: "breaker_config_ok (b_cfg b)" using wf by (simp add: breaker_wf_def)
  have due: "\<forall>t. probe_due t (breaker_step b e) = (next_probe_at_ms (breaker_step b e) \<le> t)"
    using opened by (simp add: probe_due_def)
  show ?thesis
  proof (cases "e = EvPressure now True")
    case True
    then have "active_cap_ms (b\<lparr> xuni_pressure := True \<rparr>) \<le> probe_cap_xuni_ms (b_cfg b)"
      "0 < active_cap_ms (b\<lparr> xuni_pressure := True \<rparr>)" "active_cap_ms (b\<lparr> xuni_pressure := True \<rparr>) < 2 ^ 32"
      using cfg by (auto simp: active_cap_ms_def breaker_config_ok_def)
    moreover from this have "wrap_i64 (now + active_cap_ms (b\<lparr> xuni_pressure := True \<rparr>))
        = now + active_cap_ms (b\<lparr> xuni_pressure := True \<rparr>)"
      using now by (intro wrap_i64_id) (simp add: in_i64_def i64_min_def i64_max_def clock_ok_def)
    ultimately show ?thesis using True due e by (simp add: set_xuni_pressure_def Let_def min_le_iff_disj)
  next
    case False
    then obtain b1 where b1: "breaker_step b e = schedule_probe now jit b1" "b_cfg b1 = b_cfg b"
      "probe_base_ms (b_cfg b) \<le> probe_interval_ms b1" "probe_interval_ms b1 \<le> probe_cap_ms (b_cfg b)"
      "e = EvProbeFailure now jit \<Longrightarrow>
       probe_interval_ms b1 = min (2 * probe_interval_ms b) (probe_cap_ms (b_cfg b))"
      using e opened wf
      by (cases "b_state b")
         (auto simp: breaker_step_defs breaker_open_def breaker_wf_def breaker_config_ok_def wrap_i64_probe
           split: if_splits)
    have s: "probe_interval_ms (schedule_probe now jit b1) = probe_interval_ms b1" "xuni_pressure (schedule_probe now jit b1) = xuni_pressure b1"
      by (simp_all add: schedule_probe_def Let_def)
    have base: "\<not> xuni_pressure b1 \<Longrightarrow> min (probe_interval_ms b1) (active_cap_ms b1) = probe_interval_ms b1"
      using b1(2,4) by (simp add: active_cap_ms_def)
    note w = schedule_probe_window[of b1 now jit, unfolded b1(2), OF cfg b1(3) now jit]
    have "\<not> xuni_pressure b1 \<longrightarrow> next_probe_at_ms (schedule_probe now jit b1) = now + probe_interval_ms b1 + jitter_ms (b_cfg b) jit (probe_interval_ms b1)
        \<and> 0 \<le> jitter_ms (b_cfg b) jit (probe_interval_ms b1) \<and> jitter_ms (b_cfg b) jit (probe_interval_ms b1) \<le> probe_interval_ms b1"
      using w(5-7) base by metis
    then show ?thesis using w(1,4) due b1(4,5) False unfolding i b1(1) s by blast
  qed
qed

lemma rnd_eighth: "rnd (1 / 8) = Finite (1 / 8)"
proof -
  have "quotient_of (1 / 8 :: rat) = (1, 8)" "bitlen 1 = 1" "bitlen 8 = 4" by code_simp+
  then have b: "bin_exp (1 / 8) = - 3" by (simp add: bin_exp_def power_int_minus)
  have u: "ulp (1 / 8) = 1 / 2 ^ 55" by (simp add: ulp_def b power_int_minus divide_simps)
  have "(1 / 8 :: rat) / ulp (1 / 8) = of_int (2 ^ 52)" by (simp add: u)
  then have "round_even (1 / 8 / ulp (1 / 8)) = 2 ^ 52" by (metis round_even_int)
  then show ?thesis by (simp add: rnd_def Let_def u)
qed

theorem probe_schedule_bounds_witness:
  "let b = (breaker_new quarter_jitter_config)\<lparr> b_state := Opened, probe_interval_ms := 60000 \<rparr>
   in next_probe_at_ms (on_probe_failure 1000 (Finite (1 / 2)) b) = 68500
      \<and> probe_interval_ms (on_probe_failure 1000 (Finite (1 / 2)) b) = 60000"
proof -
  define b where "b = (breaker_new quarter_jitter_config)\<lparr> b_state := Opened, probe_interval_ms := 60000 \<rparr>"
  have b: "b_cfg b = quarter_jitter_config" "b_state b = Opened" "probe_interval_ms b = 60000" "\<not> xuni_pressure b"
    by (simp_all add: b_def breaker_new_def)
  have "breaker_wf b"
    using quarter_jitter_config_ok
    by (simp add: breaker_wf_def b) (simp add: b_def breaker_new_def quarter_jitter_config_def default_breaker_config_def)
  moreover have s: "b_state (breaker_step b (EvProbeFailure 1000 (Finite (1 / 2)))) = Opened"
    "\<not> xuni_pressure (breaker_step b (EvProbeFailure 1000 (Finite (1 / 2))))"
    using b by (simp_all add: on_probe_failure_def schedule_probe_def Let_def)
  moreover have "jitter_ms quarter_jitter_config (Finite (1 / 2)) 60000 = 7500"
    using rnd_eighth f64_of_int_exact[of 7500] f64_of_int_exact[of 60000]
    by (simp add: jitter_ms_def quarter_jitter_config_def f64_of_int_def trunc_rat_def i64_min_def i64_max_def)
  ultimately show ?thesis
    using probe_schedule_bounds[of b 1000 "Finite (1 / 2)" "EvProbeFailure 1000 (Finite (1 / 2))", OF _ _ _ _ _ refl] b
    unfolding b_def[symmetric] Let_def
    by (simp add: clock_ok_def unit_f64_def quarter_jitter_config_def default_breaker_config_def)
qed

end
