(* ===== verification/Drain.thy ===== *)
theory Drain
  imports F64 Core_Types Clocktime Transition_Systems
begin

text \<open>
  \<^verbatim>\<open>tm-submit/src/drain.rs\<close>: which journaled find is submitted next and how fast.
  \<open>select_next\<close> is the loop of the source over the oldest-first slice; it is shown equal to
  the declarative policy of the module comment.  The pacing rate is an \<^typ>\<open>f64\<close> with its
  rounding; the rate and the interval derived from it stay inside the configured band.
\<close>

datatype difficulty_trend = TrendUnknown | Flat | Rising | Falling

record drain_config =
  start_rate_per_s :: f64
  max_rate_per_s :: f64
  min_rate_per_s :: f64
  xuni_preempt_window_ms :: int

definition default_drain_config :: drain_config where
  "default_drain_config =
     \<lparr> start_rate_per_s = Finite 1, max_rate_per_s = Finite 4, min_rate_per_s = Finite (1 / 4),
       xuni_preempt_window_ms = 120000 \<rparr>"

record drain_scheduler =
  d_cfg :: drain_config
  rate_per_s :: f64

definition drain_new :: "drain_config \<Rightarrow> drain_scheduler" where
  "drain_new cfg =
     \<lparr> d_cfg = cfg,
       rate_per_s = (if f64_le (start_rate_per_s cfg) (Finite 0) then Finite 1
                     else start_rate_per_s cfg) \<rparr>"

fun select_scan ::
  "difficulty_trend \<Rightarrow> xuni_window_state \<Rightarrow> find_record option \<Rightarrow> find_record option
     \<Rightarrow> find_record list \<Rightarrow> find_record option \<times> find_record option" where
  "select_scan trend window oldest_xuni best_xen11 [] = (oldest_xuni, best_xen11)"
| "select_scan trend window oldest_xuni best_xen11 (r # rs) =
     (if p_kind (r_payload r) = Xuni then
        (if win_open window \<and> oldest_xuni = None
         then select_scan trend window (Some r) best_xen11 rs
         else select_scan trend window oldest_xuni best_xen11 rs)
      else
        (case best_xen11 of
           None \<Rightarrow> select_scan trend window oldest_xuni (Some r) rs
         | Some best \<Rightarrow>
             (if trend = Rising
                 \<and> p_memory_cost (r_payload r) < p_memory_cost (r_payload best)
              then select_scan trend window oldest_xuni (Some r) rs
              else select_scan trend window oldest_xuni best_xen11 rs)))"

definition select_next ::
  "drain_scheduler \<Rightarrow> find_record list \<Rightarrow> difficulty_trend \<Rightarrow> xuni_window_state
     \<Rightarrow> find_record option" where
  "select_next d eligible trend window =
     (let (oldest_xuni, best_xen11) = select_scan trend window None None eligible
      in case oldest_xuni of
           Some x \<Rightarrow>
             (if ms_until_close window \<le> xuni_preempt_window_ms (d_cfg d) then Some x
              else case best_xen11 of Some b \<Rightarrow> Some b | None \<Rightarrow> oldest_xuni)
         | None \<Rightarrow> (case best_xen11 of Some b \<Rightarrow> Some b | None \<Rightarrow> oldest_xuni))"

definition on_breaker_close :: "drain_scheduler \<Rightarrow> drain_scheduler" where
  "on_breaker_close d = d\<lparr> rate_per_s := start_rate_per_s (d_cfg d) \<rparr>"

definition on_healthy_round_trip :: "drain_scheduler \<Rightarrow> drain_scheduler" where
  "on_healthy_round_trip d =
     d\<lparr> rate_per_s := f64_min (f64_mul (rate_per_s d) (Finite 2)) (max_rate_per_s (d_cfg d)) \<rparr>"

definition on_throttle :: "drain_scheduler \<Rightarrow> drain_scheduler" where
  "on_throttle d =
     d\<lparr> rate_per_s := f64_max (f64_div (rate_per_s d) (Finite 2)) (min_rate_per_s (d_cfg d)) \<rparr>"

definition submit_interval_ms :: "drain_scheduler \<Rightarrow> int" where
  "submit_interval_ms d = f64_to_i64 (f64_div (Finite 1000) (rate_per_s d))"

subsection \<open>Selection\<close>

text \<open>The policy as the module comment words it: the oldest XUNI, the oldest XEN11 (lowest
  memory cost first while the difficulty rises, oldest among equals).\<close>

definition is_xuni :: "find_record \<Rightarrow> bool" where
  "is_xuni r \<longleftrightarrow> p_kind (r_payload r) = Xuni"

fun first_of :: "'a list \<Rightarrow> 'a option" where
  "first_of [] = None"
| "first_of (x # xs) = Some x"

definition lowest_margin :: "find_record list \<Rightarrow> find_record option" where
  "lowest_margin rs =
     find (\<lambda>r. list_all (\<lambda>q. p_memory_cost (r_payload r) \<le> p_memory_cost (r_payload q)) rs) rs"

definition drain_policy ::
  "int \<Rightarrow> find_record list \<Rightarrow> difficulty_trend \<Rightarrow> xuni_window_state \<Rightarrow> find_record option" where
  "drain_policy preempt eligible trend window =
     (let xuni = (if win_open window then filter is_xuni eligible else []);
          xen11 = filter (\<lambda>r. \<not> is_xuni r) eligible
      in if xuni \<noteq> [] \<and> ms_until_close window \<le> preempt then first_of xuni
         else if xen11 \<noteq> [] then (if trend = Rising then lowest_margin xen11 else first_of xen11)
         else first_of xuni)"

lemma select_scan_xuni:
  "fst (select_scan trend w ox bx rs) =
     (case ox of Some x \<Rightarrow> Some x
      | None \<Rightarrow> if win_open w then first_of (filter is_xuni rs) else None)"
  by (induction trend w ox bx rs rule: select_scan.induct) (auto simp: is_xuni_def split: option.splits)

lemma select_scan_some: 
  "snd (select_scan trend w ox (Some b) rs) = Some (fold
     (\<lambda>r best. if trend = Rising \<and> p_memory_cost (r_payload r) < p_memory_cost (r_payload best)
        then r else best) (filter (\<lambda>r. \<not> is_xuni r) rs) b)"
  by (induction trend w ox "Some b" rs arbitrary: b rule: select_scan.induct)
     (auto simp: is_xuni_def)

lemma fold_keep: "fold (\<lambda>r best. best) rs b = b"
  by (induction rs) auto

lemma find_cong_set: "(\<And>x. x \<in> set xs \<Longrightarrow> P x = Q x) \<Longrightarrow> find P xs = find Q xs"
  by (induction xs) auto

text \<open>The running minimum of a scan is the first of the minimal elements.\<close>

lemma fold_argmin:
  fixes m :: "'a \<Rightarrow> nat"
  shows "Some (fold (\<lambda>r best. if m r < m best then r else best) rs b)
    = find (\<lambda>r. list_all (\<lambda>q. m r \<le> m q) (b # rs)) (b # rs)"
proof (induction rs arbitrary: b)
  case Nil
  then show ?case by simp
next
  case (Cons r rs)
  show ?case
  proof (cases "m r < m b")
    case True
    have "find (\<lambda>x. list_all (\<lambda>q. m x \<le> m q) (r # rs)) (r # rs)
        = find (\<lambda>x. list_all (\<lambda>q. m x \<le> m q) (b # r # rs)) (r # rs)"
      using True by (intro find_cong_set) (auto simp: list_all_iff)
    then show ?thesis using True Cons[of r] by simp
  next
    case False
    have "find (\<lambda>x. list_all (\<lambda>q. m x \<le> m q) (b # rs)) (b # rs)
        = find (\<lambda>x. list_all (\<lambda>q. m x \<le> m q) (b # r # rs)) (b # r # rs)"
    proof (cases "list_all (\<lambda>q. m b \<le> m q) rs")
      case True
      then show ?thesis using False by simp
    next
      case nb: False
      have "find (\<lambda>x. list_all (\<lambda>q. m x \<le> m q) (b # rs)) rs
        = find (\<lambda>x. list_all (\<lambda>q. m x \<le> m q) (b # r # rs)) rs"
        using False by (intro find_cong_set) (auto simp: list_all_iff)
      moreover have "\<not> list_all (\<lambda>q. m r \<le> m q) (b # r # rs)"
        using nb False by (auto simp: list_all_iff)
      ultimately show ?thesis using nb by auto
    qed
    then show ?thesis using False Cons[of b] by simp
  qed
qed

lemma select_scan_xen11:
  "snd (select_scan trend w ox None rs) =
     (if trend = Rising then lowest_margin (filter (\<lambda>r. \<not> is_xuni r) rs)
      else first_of (filter (\<lambda>r. \<not> is_xuni r) rs))"
proof (induction trend w ox "None :: find_record option" rs rule: select_scan.induct)
  case (1 trend w ox)
  then show ?case by (simp add: lowest_margin_def)
next
  case (2 trend w ox r rs)
  show ?case
  proof (cases "is_xuni r")
    case True
    then show ?thesis using 2
      by (cases "win_open w \<and> ox = None") (auto simp: is_xuni_def)
  next
    case False
    then have "snd (select_scan trend w ox None (r # rs)) = snd (select_scan trend w ox (Some r) rs)"
      by (simp add: is_xuni_def)
    then show ?thesis
      using False fold_argmin[of "\<lambda>r. p_memory_cost (r_payload r)" "filter (\<lambda>r. \<not> is_xuni r) rs" r]
      by (simp add: select_scan_some lowest_margin_def fold_keep del: list.pred_inject find.simps)
  qed
qed

text \<open>C21.  Submission order is the documented policy: an expiring XUNI window preempts
  everything; otherwise XEN11 goes first, oldest first, or lowest memory cost first (oldest among
  equals) while the difficulty rises; XUNI follow while their window is open and are never selected
  while it is closed.\<close>

theorem select_next_policy:
  "select_next d eligible trend window
     = drain_policy (xuni_preempt_window_ms (d_cfg d)) eligible trend window"
proof -
  let ?x = "filter is_xuni eligible" and ?e = "filter (\<lambda>r. \<not> is_xuni r) eligible"
  have nonempty: "?e \<noteq> [] \<Longrightarrow> lowest_margin ?e \<noteq> None"
    using fold_argmin[of "\<lambda>r. p_memory_cost (r_payload r)" "tl ?e" "hd ?e"]
    by (auto simp: lowest_margin_def simp del: list.pred_inject find.simps dest: sym)
  obtain ox bx where s: "select_scan trend window None None eligible = (ox, bx)" by fastforce
  have ox: "ox = (if win_open window then first_of ?x else None)"
    using select_scan_xuni[of trend window None None eligible] s by simp
  have bx: "bx = (if trend = Rising then lowest_margin ?e else first_of ?e)"
    using select_scan_xen11[of trend window None eligible] s by simp
  have "lowest_margin [] = None" by (simp add: lowest_margin_def)
  then show ?thesis
    using nonempty by (cases ?x; cases ?e)
      (auto simp: select_next_def drain_policy_def s ox bx Let_def simp del: filter_eq_Cons_iff split: option.splits)
qed

subsection \<open>Pacing\<close>

datatype pace_event = BreakerClosed | HealthyRoundTrip | Throttled

fun pace_step :: "drain_scheduler \<Rightarrow> pace_event \<Rightarrow> drain_scheduler" where
  "pace_step d BreakerClosed = on_breaker_close d"
| "pace_step d HealthyRoundTrip = on_healthy_round_trip d"
| "pace_step d Throttled = on_throttle d"

text \<open>A usable configuration: finite rates, \<open>0 < min \<le> start \<le> max\<close>, none of them in the
  extremes of the exponent range.\<close>

definition drain_config_ok :: "drain_config \<Rightarrow> bool" where
  "drain_config_ok cfg =
     (case (min_rate_per_s cfg, start_rate_per_s cfg, max_rate_per_s cfg) of
        (Finite lo, Finite st, Finite hi) \<Rightarrow> 1 / 1000 \<le> lo \<and> lo \<le> st \<and> st \<le> hi \<and> hi \<le> 1000000
      | _ \<Rightarrow> False)"

definition rate_in_band :: "drain_scheduler \<Rightarrow> bool" where
  "rate_in_band d =
     (case (min_rate_per_s (d_cfg d), rate_per_s d, max_rate_per_s (d_cfg d)) of
        (Finite lo, Finite r, Finite hi) \<Rightarrow> lo \<le> r \<and> r \<le> hi
      | _ \<Rightarrow> False)"

lemma rnd_close:
  assumes "1 / 10000 \<le> x" "x \<le> 10000000"
  obtains r where "rnd x = Finite r" "x / 2 \<le> r" "r \<le> 2 * x"
proof -
  have "pow2 (- 1022) \<le> pow2 (- 14)" "pow2 24 \<le> pow2 1023"
    using power_int_increasing[of "- 1022" "- 14" "2::rat"] power_int_increasing[of 24 1023 "2::rat"] by simp_all
  moreover have "pow2 (- 14) = 1 / 16384" "pow2 24 = 16777216" by (simp_all add: power_int_minus)
  ultimately have "pow2 (- 1022) \<le> x" "x < pow2 1023" using assms by linarith+
  then obtain r where r: "rnd x = Finite r" "\<bar>r - x\<bar> \<le> x * pow2 (- 53)" by (rule rnd_rel_error)
  have "pow2 (- 53) \<le> pow2 (- 1)" using power_int_increasing[of "- 53" "- 1" "2::rat"] by simp
  then have "x * pow2 (- 53) \<le> x * (1 / 2)"
    using assms by (intro mult_left_mono) (simp_all add: power_int_minus)
  from order_trans[OF r(2) this] have "x / 2 \<le> r" "r \<le> 2 * x" using assms by linarith+
  then show thesis using that r(1) by blast
qed

lemma pace_step_cfg [simp]: "d_cfg (pace_step d e) = d_cfg d"
  by (cases e) (simp_all add: on_breaker_close_def on_healthy_round_trip_def on_throttle_def)

lemma pace_step_band:
  assumes "drain_config_ok (d_cfg d)" "rate_in_band d"
  shows "rate_in_band (pace_step d e)"
proof -
  obtain lo st hi r where c: "min_rate_per_s (d_cfg d) = Finite lo" "start_rate_per_s (d_cfg d) = Finite st"
    "max_rate_per_s (d_cfg d) = Finite hi" "rate_per_s d = Finite r"
    "1 / 1000 \<le> lo" "lo \<le> st" "st \<le> hi" "hi \<le> 1000000" "lo \<le> r" "r \<le> hi"
    using assms by (auto simp: drain_config_ok_def rate_in_band_def split: f64.splits)
  obtain u where u: "rnd (r * 2) = Finite u" "r * 2 / 2 \<le> u" using c by (auto intro: rnd_close[of "r * 2"])
  obtain v where v: "rnd (r / 2) = Finite v" "v \<le> 2 * (r / 2)" using c by (auto intro: rnd_close[of "r / 2"])
  show ?thesis using c u v
    by (cases e) (auto simp: rate_in_band_def on_breaker_close_def on_healthy_round_trip_def on_throttle_def
        f64_min_def f64_max_def)
qed

lemma drain_new_cfg [simp]: "d_cfg (drain_new cfg) = cfg"
  by (simp add: drain_new_def)

lemma drain_new_band: "drain_config_ok cfg \<Longrightarrow> rate_in_band (drain_new cfg)"
  by (auto simp: drain_config_ok_def rate_in_band_def drain_new_def split: f64.splits)

interpretation pace: invariant_system "\<lambda>d. d = drain_new cfg \<and> drain_config_ok cfg" pace_step
  "\<lambda>_. True" "\<lambda>d. rate_in_band d \<and> d_cfg d = cfg \<and> drain_config_ok cfg" for cfg
  by unfold_locales (auto simp: pace_step_band drain_new_band)

text \<open>C22.  Pacing never stampedes and never stops: after any sequence of breaker closures,
  healthy round trips and throttling responses the rate lies between the configured floor and
  ceiling, and the interval between two submissions in milliseconds lies between any integer bounds
  those rates imply (250 ms and 4 s for the defaults).\<close>

theorem pacing_stays_in_band:
  assumes "drain_config_ok cfg"
    and "max_rate_per_s cfg = Finite hi" "min_rate_per_s cfg = Finite lo"
    and "0 \<le> a" "of_int a * hi \<le> 1000" "1000 \<le> of_int b * lo" "b < 2 ^ 53"
  shows "rate_in_band (run pace_step (drain_new cfg) es)
    \<and> a \<le> submit_interval_ms (run pace_step (drain_new cfg) es)
    \<and> submit_interval_ms (run pace_step (drain_new cfg) es) \<le> b"
proof -
  define d where "d = run pace_step (drain_new cfg) es"
  have d: "rate_in_band d" "d_cfg d = cfg"
    using pace.run_inv[of "drain_new cfg" cfg es] drain_new_band[OF assms(1)] assms(1)
    by (simp_all add: d_def list_all_iff)
  then obtain r where r: "rate_per_s d = Finite r" "lo \<le> r" "r \<le> hi"
    using assms(2,3) by (auto simp: rate_in_band_def split: f64.splits)
  have lo: "1 / 1000 \<le> lo" using assms(1-3) by (auto simp: drain_config_ok_def split: f64.splits)
  have "of_int a \<le> 1000 / r" using assms(4,5) r lo
    by (simp add: pos_le_divide_eq) (meson mult_left_mono of_int_0_le_iff order_trans)
  moreover have "1000 / r \<le> of_int b"
  proof -
    have "0 < of_int b * lo" using assms(6) by linarith
    then have "(0::rat) < of_int b" using lo by (simp add: zero_less_mult_iff)
    then have "of_int b * lo \<le> of_int b * r" using r(2) by simp
    then show ?thesis using assms(6) r lo by (simp add: pos_divide_le_eq)
  qed
  ultimately obtain q where q: "rnd (1000 / r) = Finite q" "of_int a \<le> q" "q \<le> of_int b"
    using rnd_between[of a "1000 / r" b] assms(4,7) by blast
  have "a \<le> \<lfloor>q\<rfloor>" "\<lfloor>q\<rfloor> \<le> b" "0 \<le> q" using q assms(4) by (simp_all add: le_floor_iff floor_le_iff)
  then have "a \<le> submit_interval_ms d \<and> submit_interval_ms d \<le> b"
    using q r lo assms(4,7) by (auto simp: submit_interval_ms_def trunc_rat_def i64_min_def i64_max_def)
  then show ?thesis using d(1) unfolding d_def by blast
qed

theorem pacing_stays_in_band_witness:
  "250 \<le> submit_interval_ms (run pace_step (drain_new default_drain_config)
      [Throttled, Throttled, Throttled, HealthyRoundTrip, BreakerClosed])
   \<and> submit_interval_ms (run pace_step (drain_new default_drain_config)
      [Throttled, Throttled, Throttled, HealthyRoundTrip, BreakerClosed]) \<le> 4000"
  using pacing_stays_in_band[of default_drain_config 4 "1 / 4" 250 4000
      "[Throttled, Throttled, Throttled, HealthyRoundTrip, BreakerClosed]"]
  by (simp add: drain_config_ok_def default_drain_config_def)

lemma run_pace_cfg: "d_cfg (run pace_step d es) = d_cfg d"
  by (induction es arbitrary: d) simp_all

lemma rnd_nonpos: "x < 0 \<Longrightarrow> (\<exists>y. rnd x = Finite y \<and> y \<le> 0) \<or> rnd x = Infinite True"
proof -
  assume x: "x < 0"
  then have "x / ulp x \<le> of_int 0" by (simp add: divide_nonpos_pos)
  then have "round_even (x / ulp x) \<le> 0" by (rule round_even_le)
  then have "of_int (round_even (x / ulp x)) * ulp x \<le> 0" by (simp add: mult_nonpos_nonneg less_imp_le)
  then show ?thesis using x by (auto simp: rnd_def Let_def)
qed

text \<open>C28.  The guard of the constructor against a non-positive start rate is not kept.  The constructor
  replaces such a rate by one submission per second, but the reset after an outage restores the
  configured value.  The interval computed from it is the largest 64-bit integer for a rate of (positive)
  zero and not positive for a negative one; added to the clock of the drain loop, as it does it after a
  submission, either gives an instant that is not in the future, so submissions are no longer paced.\<close>

theorem breaker_close_drops_rate_guard:
  assumes "start_rate_per_s cfg = Finite r" "r \<le> 0" "0 < now" "now < 2 ^ 62"
    and "d = on_breaker_close (run pace_step (drain_new cfg) es)"
  shows "rate_per_s (drain_new cfg) = Finite 1 \<and> rate_per_s d = Finite r
    \<and> (r = 0 \<longrightarrow> submit_interval_ms d = i64_max) \<and> (r < 0 \<longrightarrow> submit_interval_ms d \<le> 0)
    \<and> wrap_i64 (now + submit_interval_ms d) \<le> now"
proof -
  have rate: "rate_per_s (drain_new cfg) = Finite 1" "rate_per_s d = Finite r"
    using assms(1,2,5) by (simp_all add: drain_new_def on_breaker_close_def run_pace_cfg)
  show ?thesis
  proof (cases "r = 0")
    case True
    then have i: "submit_interval_ms d = i64_max" using rate by (simp add: submit_interval_ms_def)
    have "now + i64_max + 2 ^ 63 = (now - 1) + 2 ^ 64" by (simp add: i64_max_def)
    moreover have "(now - 1 + 2 ^ 64) mod 2 ^ 64 = now - 1" using assms(3,4) by (simp only: mod_add_self2) simp
    ultimately have "(now + i64_max + 2 ^ 63) mod 2 ^ 64 = now - 1" by (simp only:)
    then show ?thesis using rate i True assms(3) by (simp add: wrap_i64_def)
  next
    case False
    then have neg: "1000 / r < 0" using assms(2) by (simp add: divide_pos_neg)
    have i: "submit_interval_ms d \<le> 0" "i64_min \<le> submit_interval_ms d"
      using rnd_nonpos[OF neg] False rate by (auto simp: submit_interval_ms_def trunc_rat_def i64_min_def i64_max_def ceiling_le_iff)
    then have "wrap_i64 (now + submit_interval_ms d) = now + submit_interval_ms d"
      using assms(3,4) by (intro wrap_i64_id) (simp add: in_i64_def i64_min_def i64_max_def)
    then show ?thesis using rate i False assms(2) by simp
  qed
qed

theorem breaker_close_drops_rate_guard_witness:
  "submit_interval_ms (on_breaker_close (run pace_step (drain_new (default_drain_config\<lparr> start_rate_per_s := Finite 0 \<rparr>)) [Throttled])) = i64_max
   \<and> wrap_i64 (5000 + submit_interval_ms (on_breaker_close (run pace_step
       (drain_new (default_drain_config\<lparr> start_rate_per_s := Finite (- 2) \<rparr>)) [HealthyRoundTrip]))) \<le> 5000"
  using breaker_close_drops_rate_guard[of "default_drain_config\<lparr> start_rate_per_s := Finite 0 \<rparr>" 0 5000, OF _ _ _ _ refl, of "[Throttled]"]
    breaker_close_drops_rate_guard[of "default_drain_config\<lparr> start_rate_per_s := Finite (- 2) \<rparr>" "- 2" 5000, OF _ _ _ _ refl, of "[HealthyRoundTrip]"]
  by simp

end
