(* ===== verification/Margin.thy ===== *)
theory Margin
  imports Prelude
begin

text \<open>
  \<^verbatim>\<open>tm-submit/src/margin.rs\<close>: the headroom added to the mined memory cost.  \<^verbatim>\<open>u32\<close>
  configuration values are naturals below \<open>2\<^sup>3\<^sup>2\<close>, the step count is a \<^verbatim>\<open>u64\<close>, the product
  saturates at \<open>2\<^sup>6\<^sup>4 - 1\<close> and the truncating cast back to \<^verbatim>\<open>u32\<close> is written out.
\<close>

datatype margin_mode = MarginOff | MarginFixed | MarginAuto

fun margin_mode_as_str :: "margin_mode \<Rightarrow> string" where
  "margin_mode_as_str MarginOff = ''off''"
| "margin_mode_as_str MarginFixed = ''fixed''"
| "margin_mode_as_str MarginAuto = ''auto''"

definition margin_mode_parse :: "string \<Rightarrow> margin_mode option" where
  "margin_mode_parse s =
     (let t = map to_ascii_lower s
      in if t = ''off'' \<or> t = ''none'' \<or> t = ''disabled'' then Some MarginOff
         else if t = ''fixed'' \<or> t = ''static'' \<or> t = ''constant'' then Some MarginFixed
         else if t = ''auto'' \<or> t = ''adaptive'' then Some MarginAuto
         else None)"

record margin_config =
  m_mode :: margin_mode
  margin_kib :: nat
  max_kib :: nat
  adjust_period_ms :: int

definition default_margin_config :: margin_config where
  "default_margin_config =
     \<lparr> m_mode = MarginOff, margin_kib = 1000, max_kib = 5000, adjust_period_ms = 300000 \<rparr>"

record margin_inputs =
  mi_breaker_open :: bool
  mi_outage_ms :: int
  mi_backlog :: nat

definition compute_margin :: "margin_config \<Rightarrow> margin_inputs \<Rightarrow> nat" where
  "compute_margin cfg inp =
     (case m_mode cfg of
        MarginOff \<Rightarrow> 0
      | MarginFixed \<Rightarrow> margin_kib cfg
      | MarginAuto \<Rightarrow>
          if \<not> mi_breaker_open inp \<and> mi_backlog inp = 0 then 0
          else
            let steps =
                  (if mi_breaker_open inp \<and> 0 < adjust_period_ms cfg \<and> 0 < mi_outage_ms inp
                   then 1 + nat (mi_outage_ms inp sdiv adjust_period_ms cfg) else 1);
                margin = min (margin_kib cfg * steps) (2 ^ 64 - 1)
            in min margin (max_kib cfg) mod 2 ^ 32)"

text \<open>What the comment above the function promises: one step at once, one more per elapsed
  adjustment period, up to the ceiling.\<close>

definition margin_steps :: "margin_config \<Rightarrow> margin_inputs \<Rightarrow> nat" where
  "margin_steps cfg inp =
     (if \<not> mi_breaker_open inp \<and> mi_backlog inp = 0 then 0
      else if mi_breaker_open inp \<and> 0 < adjust_period_ms cfg
        then Suc (nat (mi_outage_ms inp div adjust_period_ms cfg))
      else 1)"

lemma margin_auto:
  assumes "m_mode cfg = MarginAuto" "max_kib cfg < 2 ^ 32"
  shows "compute_margin cfg inp = min (margin_kib cfg * margin_steps cfg inp) (max_kib cfg)"
proof -
  have steps: "margin_steps cfg inp =
    (if \<not> mi_breaker_open inp \<and> mi_backlog inp = 0 then 0
     else if mi_breaker_open inp \<and> 0 < adjust_period_ms cfg \<and> 0 < mi_outage_ms inp
       then 1 + nat (mi_outage_ms inp sdiv adjust_period_ms cfg) else 1)"
    by (auto simp: margin_steps_def sdiv_nonneg div_nonpos_pos_le0)
  have sat: "min (min m (2 ^ 64 - 1)) (max_kib cfg) mod 2 ^ 32 = min m (max_kib cfg)" for m
    using assms(2) by (simp add: min_def)
  show ?thesis
    unfolding compute_margin_def Let_def sat steps using assms(1) by auto
qed

lemma margin_steps_mono:
  assumes "t \<le> u"
  shows "margin_steps cfg \<lparr> mi_breaker_open = True, mi_outage_ms = t, mi_backlog = n \<rparr>
    \<le> margin_steps cfg \<lparr> mi_breaker_open = True, mi_outage_ms = u, mi_backlog = m \<rparr>"
  using assms by (simp add: margin_steps_def nat_mono zdiv_mono1)

text \<open>The automatic margin costs nothing while the server is reachable and the journal is
  drained, is one step (capped) as soon as finds are exposed, grows by one step per elapsed
  adjustment period of the outage without ever falling or exceeding its ceiling, and neither the
  product nor the cast loses anything for 32-bit configuration values.\<close>

theorem auto_margin_ramp:
  assumes "m_mode cfg = MarginAuto" "max_kib cfg < 2 ^ 32" "t \<le> u"
  shows "compute_margin cfg \<lparr> mi_breaker_open = False, mi_outage_ms = t, mi_backlog = 0 \<rparr> = 0
    \<and> compute_margin cfg \<lparr> mi_breaker_open = False, mi_outage_ms = t, mi_backlog = Suc n \<rparr>
        = min (margin_kib cfg) (max_kib cfg)
    \<and> (0 < adjust_period_ms cfg \<longrightarrow>
         compute_margin cfg \<lparr> mi_breaker_open = True, mi_outage_ms = t, mi_backlog = n \<rparr>
         = min (margin_kib cfg * Suc (nat (t div adjust_period_ms cfg))) (max_kib cfg))
    \<and> compute_margin cfg \<lparr> mi_breaker_open = True, mi_outage_ms = t, mi_backlog = n \<rparr>
        \<le> compute_margin cfg \<lparr> mi_breaker_open = True, mi_outage_ms = u, mi_backlog = n \<rparr>
    \<and> compute_margin cfg \<lparr> mi_breaker_open = True, mi_outage_ms = u, mi_backlog = n \<rparr> \<le> max_kib cfg"
proof -
  have "margin_kib cfg * margin_steps cfg \<lparr> mi_breaker_open = True, mi_outage_ms = t, mi_backlog = n \<rparr>
    \<le> margin_kib cfg * margin_steps cfg \<lparr> mi_breaker_open = True, mi_outage_ms = u, mi_backlog = n \<rparr>"
    using margin_steps_mono[OF assms(3)] by (rule mult_le_mono2)
  then show ?thesis
    unfolding margin_auto[OF assms(1,2)] by (simp add: margin_steps_def min.coboundedI1 min_le_iff_disj)
qed

theorem auto_margin_ramp_witness:
  "compute_margin (default_margin_config\<lparr> m_mode := MarginAuto \<rparr>)
      \<lparr> mi_breaker_open = True, mi_outage_ms = 650000, mi_backlog = 4 \<rparr> = 3000
   \<and> compute_margin (default_margin_config\<lparr> m_mode := MarginAuto \<rparr>)
      \<lparr> mi_breaker_open = True, mi_outage_ms = 100000000, mi_backlog = 4 \<rparr> \<le> 5000"
  using auto_margin_ramp[of "default_margin_config\<lparr> m_mode := MarginAuto \<rparr>" 650000 100000000 4]
  by (simp add: default_margin_config_def)

end
