(* ===== verification/Submission.thy ===== *)
theory Submission
  imports Journal_Bridge Classifier Clocktime Breaker Drain Margin
begin

text \<open>
  \<^verbatim>\<open>tm-submit/src/manager.rs\<close>: the loop that drains the journal to the server.  The
  manager's fields (the step state, the shared block and the atomics), the journal it owns and the
  callbacks it has fired are one record.  Everything outside the repository answers through the
  record \<open>env\<close>: the clocks, the jitter source, the database engine, the HTTP transport and the
  mining threads, which may append finds to the journal before any of the manager's journal calls.
  Each interaction advances \<open>s_tick\<close>, and the answers are functions of it, so a clock read twice
  may differ, the server may answer the same request differently, and any journal call may fail.

  An operation of the source returning \<^verbatim>\<open>Result\<close> is a function from the manager to an error or
  a value together with the manager it leaves behind; \<open>mbind\<close> is the question-mark operator, so
  an error keeps the state changes made before it, as in the source.  \<^verbatim>\<open>Relaxed\<close> atomics and the
  three mutexes are ordinary fields: one step is atomic with respect to the difficulty poller.
  Logging is not modelled.
\<close>

subsection \<open>Configuration, counters, requests\<close>

record sub_config =
  fetch_limit :: nat
  confirm_fetch_limit :: nat
  backoff_base_ms :: int
  backoff_cap_ms :: int
  xuni_max_windows :: int
  idle_poll_ms :: int
  cfg_breaker :: breaker_config
  cfg_drain :: drain_config
  cfg_margin :: margin_config
  margin_eval_interval_ms :: int
  difficulty_quiesce_ms :: int

definition QUIESCE_MAX_MS :: int where "QUIESCE_MAX_MS = 60000"

definition default_sub_config :: sub_config where
  "default_sub_config =
     \<lparr> fetch_limit = 16, confirm_fetch_limit = 4, backoff_base_ms = 2000, backoff_cap_ms = 300000,
       xuni_max_windows = 3, idle_poll_ms = 250, cfg_breaker = default_breaker_config,
       cfg_drain = default_drain_config, cfg_margin = default_margin_config,
       margin_eval_interval_ms = 5000, difficulty_quiesce_ms = 5000 \<rparr>"

datatype step_result =
  StepIdle | Probed | Submitted | BreakerBlocked | ConfirmRetried | Quiescing

datatype confirm_body_check = Confirmed | Malformed | KeyMismatch | HashMismatch

record metrics =
  mt_submitted :: nat
  mt_resubmitted :: nat
  mt_acked :: nat
  mt_accepted_unconfirmed :: nat
  mt_reconciled_via_get_block :: nat
  mt_confirmation_retries :: nat
  mt_lying_200_detected :: nat
  mt_parked_difficulty :: nat
  mt_parked_xuni :: nat
  mt_quarantined :: nat
  mt_permanently_invalid :: nat
  mt_transport_failures :: nat
  mt_probes :: nat
  mt_margin_changes :: nat
  mt_difficulty_quiesces :: nat
  mt_confirm_body_rejected :: nat
  mt_thread_loop_exceptions :: nat

definition zero_metrics :: metrics where
  "zero_metrics =
     \<lparr> mt_submitted = 0, mt_resubmitted = 0, mt_acked = 0, mt_accepted_unconfirmed = 0,
       mt_reconciled_via_get_block = 0, mt_confirmation_retries = 0, mt_lying_200_detected = 0,
       mt_parked_difficulty = 0, mt_parked_xuni = 0, mt_quarantined = 0,
       mt_permanently_invalid = 0, mt_transport_failures = 0, mt_probes = 0,
       mt_margin_changes = 0, mt_difficulty_quiesces = 0, mt_confirm_body_rejected = 0,
       mt_thread_loop_exceptions = 0 \<rparr>"

datatype sub_event =
    DifficultyHint nat
  | Outcome find_record classification "int option"
  | NetworkState breaker_state
  | MarginChanged nat

record transport_result =
  transport_ok :: bool
  http_status :: int
  body :: string
  retry_after :: "string option"
  date_header :: "string option"
  transport_error :: string

datatype request = Submit found_payload | Confirm string | GetDifficulty | HealthProbe

record env =
  e_mono :: "nat \<Rightarrow> int"
  e_wall :: "nat \<Rightarrow> int"
  e_jitter :: "nat \<Rightarrow> f64"
  e_sql :: "nat \<Rightarrow> sql_io"
  e_rowid :: "int list \<Rightarrow> int"
  e_miners :: "nat \<Rightarrow> (sql_io \<times> found_payload) list"
  e_server :: "nat \<Rightarrow> request \<Rightarrow> transport_result"
  e_health :: "nat \<Rightarrow> transport_result option"

record manager =
  s_cfg :: sub_config
  s_breaker :: circuit_breaker
  s_scheduler :: drain_scheduler
  s_next_submit_allowed_ms :: int
  s_last_window_open :: bool
  s_last_margin_eval_ms :: int
  s_margin_eval_started :: bool
  s_last_difficulty :: "nat option"
  s_trend :: "difficulty_trend option"
  s_server_offset_ms :: "int option"
  s_metrics :: metrics
  s_margin_kib :: nat
  s_outage_started_ms :: int
  s_last_outage_span_ms :: int
  s_quiesce_until_ms :: int
  s_fatal :: bool
  s_running :: bool
  s_breaker_cache :: nat
  s_journal :: journal_db
  s_tick :: nat
  s_requests :: "request list"
  s_events :: "sub_event list"
  s_fired :: "sub_event list"
  s_fatal_calls :: "string list"

definition manager_new :: "sub_config \<Rightarrow> journal_db \<Rightarrow> manager" where
  "manager_new cfg db =
     \<lparr> s_cfg = cfg, s_breaker = breaker_new (cfg_breaker cfg),
       s_scheduler = drain_new (cfg_drain cfg), s_next_submit_allowed_ms = 0,
       s_last_window_open = False, s_last_margin_eval_ms = 0, s_margin_eval_started = False,
       s_last_difficulty = None, s_trend = None, s_server_offset_ms = None,
       s_metrics = zero_metrics, s_margin_kib = 0, s_outage_started_ms = 0,
       s_last_outage_span_ms = 0, s_quiesce_until_ms = 0, s_fatal = False, s_running = False,
       s_breaker_cache = 0, s_journal = db, s_tick = 0, s_requests = [], s_events = [],
       s_fired = [], s_fatal_calls = [] \<rparr>"

subsection \<open>Effects\<close>

type_synonym 'a act = "manager \<Rightarrow> (string + 'a) \<times> manager"

definition mret :: "'a \<Rightarrow> 'a act" where
  "mret a s = (Inr a, s)"

definition mbind :: "'a act \<Rightarrow> ('a \<Rightarrow> 'b act) \<Rightarrow> 'b act" where
  "mbind m f s = (case m s of (Inl e, s1) \<Rightarrow> (Inl e, s1) | (Inr a, s1) \<Rightarrow> f a s1)"

definition mget :: "(manager \<Rightarrow> 'a) \<Rightarrow> 'a act" where
  "mget g s = (Inr (g s), s)"

definition mmod :: "(manager \<Rightarrow> manager) \<Rightarrow> unit act" where
  "mmod f s = (Inr (), f s)"

definition mwhen :: "bool \<Rightarrow> unit act \<Rightarrow> unit act" where
  "mwhen b m = (if b then m else mret ())"

definition tick :: "manager \<Rightarrow> manager" where
  "tick s = s\<lparr> s_tick := Suc (s_tick s) \<rparr>"

definition read_mono :: "env \<Rightarrow> int act" where
  "read_mono env s = (Inr (e_mono env (s_tick s)), tick s)"

definition read_wall :: "env \<Rightarrow> int act" where
  "read_wall env s = (Inr (e_wall env (s_tick s)), tick s)"

definition read_jitter :: "env \<Rightarrow> f64 act" where
  "read_jitter env s = (Inr (e_jitter env (s_tick s)), tick s)"

definition miners_append :: "env \<Rightarrow> manager \<Rightarrow> journal_db" where
  "miners_append env s =
     run (\<lambda>db (io, p). snd (append_find io (e_rowid env) p db)) (s_journal s)
       (e_miners env (s_tick s))"

definition journal_call :: "env \<Rightarrow> (sql_io \<Rightarrow> journal_db \<Rightarrow> (string + 'a) \<times> journal_db) \<Rightarrow> 'a act" where
  "journal_call env f s =
     (let (res, db) = f (e_sql env (s_tick s)) (miners_append env s)
      in (res, tick (s\<lparr> s_journal := db \<rparr>)))"

definition journal_read :: "env \<Rightarrow> (sql_io \<Rightarrow> journal_db \<Rightarrow> string + 'a) \<Rightarrow> 'a act" where
  "journal_read env f = journal_call env (\<lambda>io db. (f io db, db))"

definition send :: "env \<Rightarrow> request \<Rightarrow> transport_result act" where
  "send env req s =
     (Inr (e_server env (s_tick s) req), tick (s\<lparr> s_requests := s_requests s @ [req] \<rparr>))"

definition send_health_probe :: "env \<Rightarrow> transport_result option act" where
  "send_health_probe env s =
     (case e_health env (s_tick s) of
        None \<Rightarrow> (Inr None, tick s)
      | Some r \<Rightarrow> (Inr (Some r), tick (s\<lparr> s_requests := s_requests s @ [HealthProbe] \<rparr>)))"

definition push_event :: "sub_event \<Rightarrow> unit act" where
  "push_event e = mmod (\<lambda>s. s\<lparr> s_events := s_events s @ [e] \<rparr>)"

definition bump :: "(metrics \<Rightarrow> metrics) \<Rightarrow> unit act" where
  "bump f = mmod (\<lambda>s. s\<lparr> s_metrics := f (s_metrics s) \<rparr>)"

text \<open>A breaker operation that schedules a probe reads the jitter source, then the clock; one that
  turns out not to schedule leaves the readings unused.\<close>

definition breaker_timed :: "env \<Rightarrow> (int \<Rightarrow> f64 \<Rightarrow> circuit_breaker \<Rightarrow> circuit_breaker) \<Rightarrow> unit act" where
  "breaker_timed env f =
     mbind (read_jitter env) (\<lambda>jit.
     mbind (read_mono env) (\<lambda>now.
     mmod (\<lambda>s. s\<lparr> s_breaker := f now jit (s_breaker s) \<rparr>)))"

definition breaker_now :: "(circuit_breaker \<Rightarrow> circuit_breaker) \<Rightarrow> unit act" where
  "breaker_now f = mmod (\<lambda>s. s\<lparr> s_breaker := f (s_breaker s) \<rparr>)"

definition pace :: "(drain_scheduler \<Rightarrow> drain_scheduler) \<Rightarrow> unit act" where
  "pace f = mmod (\<lambda>s. s\<lparr> s_scheduler := f (s_scheduler s) \<rparr>)"

subsection \<open>Difficulty integration\<close>

text \<open>\<^verbatim>\<open>AtomicI64::fetch_max\<close> on the deadline.\<close>

definition fetch_max_quiesce :: "int \<Rightarrow> int act" where
  "fetch_max_quiesce until s =
     (Inr (s_quiesce_until_ms s), s\<lparr> s_quiesce_until_ms := max (s_quiesce_until_ms s) until \<rparr>)"

definition arm_quiesce :: "env \<Rightarrow> unit act" where
  "arm_quiesce env =
     mbind (mget s_cfg) (\<lambda>cfg.
     let hold = max 0 (min QUIESCE_MAX_MS (difficulty_quiesce_ms cfg))
     in if hold = 0 then mret ()
        else
          mbind (read_mono env) (\<lambda>now.
          let until = wrap_i64 (now + hold)
          in mbind (fetch_max_quiesce until) (\<lambda>previous.
             if until \<le> previous then mret ()
             else bump (\<lambda>m. m\<lparr> mt_difficulty_quiesces := mt_difficulty_quiesces m + 1 \<rparr>))))"

definition observe_difficulty :: "env \<Rightarrow> nat \<Rightarrow> nat act" where
  "observe_difficulty env difficulty =
     mbind (mget s_last_difficulty) (\<lambda>previous.
     let changed = (case previous of Some prev \<Rightarrow> prev \<noteq> difficulty | None \<Rightarrow> False);
         decreased = (case previous of Some prev \<Rightarrow> difficulty < prev | None \<Rightarrow> False);
         first_observation = (previous = None)
     in
     mbind (mmod (\<lambda>s.
       (case previous of
          Some prev \<Rightarrow>
            s\<lparr> s_trend := Some (if prev < difficulty then Rising
                               else if difficulty < prev then Falling else Flat) \<rparr>
        | None \<Rightarrow> s)\<lparr> s_last_difficulty := Some difficulty \<rparr>)) (\<lambda>_.
     mbind (mwhen changed (arm_quiesce env)) (\<lambda>_.
     if decreased \<or> first_observation
     then journal_call env (\<lambda>io. bridge_unpark_for_difficulty io difficulty)
     else mret 0)))"

definition track_server_date :: "env \<Rightarrow> transport_result \<Rightarrow> unit act" where
  "track_server_date env r =
     (if \<not> transport_ok r then mret ()
      else case date_header r of
             None \<Rightarrow> mret ()
           | Some header \<Rightarrow>
               (case parse_http_date_ms header of
                  None \<Rightarrow> mret ()
                | Some server_ms \<Rightarrow>
                    mbind (read_wall env) (\<lambda>wall.
                    mmod (\<lambda>s. s\<lparr> s_server_offset_ms := Some (wrap_i64 (server_ms - wall)) \<rparr>))))"

definition record_hint :: "env \<Rightarrow> nat \<Rightarrow> unit act" where
  "record_hint env d =
     mbind (observe_difficulty env d) (\<lambda>_.
     mbind (read_wall env) (\<lambda>wall.
     mbind (journal_call env (\<lambda>io. bridge_record_difficulty io d (iso_utc wall))) (\<lambda>_.
     push_event (DifficultyHint d))))"

definition handle_difficulty_body :: "env \<Rightarrow> string \<Rightarrow> bool act" where
  "handle_difficulty_body env b =
     (case extract_json_field b ''difficulty'' of
        None \<Rightarrow> mret False
      | Some field \<Rightarrow>
          (case parse_difficulty_hint (''m='' @ field) of
             None \<Rightarrow> mret False
           | Some d \<Rightarrow> mbind (record_hint env d) (\<lambda>_. mret True)))"

subsection \<open>Backoff and confirmation\<close>

text \<open>The doubling loop: at most \<open>attempt_count\<close> times, while below the cap.\<close>

fun backoff_double :: "nat \<Rightarrow> int \<Rightarrow> int \<Rightarrow> int" where
  "backoff_double 0 cap delay = delay"
| "backoff_double (Suc n) cap delay =
     (if delay < cap then backoff_double n cap (wrap_i64 (delay * 2)) else delay)"

definition backoff_delay :: "sub_config \<Rightarrow> int \<Rightarrow> int option \<Rightarrow> int" where
  "backoff_delay cfg attempt_count retry_after_s =
     min (case retry_after_s of
            Some secs \<Rightarrow> wrap_i64 (secs * 1000)
          | None \<Rightarrow> backoff_double (nat attempt_count) (backoff_cap_ms cfg) (backoff_base_ms cfg))
       (backoff_cap_ms cfg)"

definition backoff_time_iso :: "env \<Rightarrow> int \<Rightarrow> int option \<Rightarrow> string act" where
  "backoff_time_iso env attempt_count retry_after_s =
     mbind (mget s_cfg) (\<lambda>cfg.
     mbind (read_wall env) (\<lambda>wall.
     mret (iso_utc (wrap_i64 (wall + backoff_delay cfg attempt_count retry_after_s)))))"

definition confirmation_matches :: "find_record \<Rightarrow> string \<Rightarrow> confirm_body_check" where
  "confirmation_matches rec b =
     (case extract_json_field b ''key'' of
        None \<Rightarrow> Malformed
      | Some key \<Rightarrow>
          if key \<noteq> p_key (r_payload rec) then KeyMismatch
          else
            (case extract_json_field b ''hash_to_verify'' of
               Some hash \<Rightarrow>
                 if hash \<noteq> p_hash_to_verify (r_payload rec) then HashMismatch else Confirmed
             | None \<Rightarrow> Confirmed))"

definition probe_response_healthy :: "transport_result \<Rightarrow> bool" where
  "probe_response_healthy r \<longleftrightarrow>
     transport_ok r \<and> http_status r = 200 \<and> \<not> trim_is_empty (body r)"

fun confirm_reject_reason :: "confirm_body_check \<Rightarrow> string" where
  "confirm_reject_reason KeyMismatch =
     ''/get_block 200 body describes a different key '' @ em_dash
       @ '' not a confirmation of this record, remaining unconfirmed''"
| "confirm_reject_reason HashMismatch =
     ''/get_block 200 has our key but a DIFFERENT hash_to_verify '' @ em_dash
       @ '' refusing to ack, remaining unconfirmed''"
| "confirm_reject_reason _ =
     ''/get_block 200 body malformed or missing key '' @ em_dash
       @ '' untrusted, remaining unconfirmed''"

subsection \<open>Margin and probe\<close>

definition age_outage :: "int \<Rightarrow> manager \<Rightarrow> manager" where
  "age_outage now s =
     (if b_state (s_breaker s) = Opened then
        (if s_outage_started_ms s = 0 then s\<lparr> s_outage_started_ms := now \<rparr> else s)
      else
        (let started = s_outage_started_ms s;
             s1 = (if started \<noteq> 0
                   then s\<lparr> s_last_outage_span_ms := max (wrap_i64 (now - started)) 0 \<rparr> else s)
         in s1\<lparr> s_outage_started_ms := 0 \<rparr>))"

definition update_margin :: "env \<Rightarrow> unit act" where
  "update_margin env =
     mbind (read_mono env) (\<lambda>now.
     mbind (mmod (age_outage now)) (\<lambda>_.
     mbind (mget (\<lambda>s. s)) (\<lambda>s.
     let cfg = cfg_margin (s_cfg s); is_open = (b_state (s_breaker s) = Opened)
     in
     if m_mode cfg = MarginOff then mret ()
     else if s_margin_eval_started s
             \<and> wrap_i64 (now - s_last_margin_eval_ms s) < margin_eval_interval_ms (s_cfg s)
     then mret ()
     else
       mbind (mmod (\<lambda>s. s\<lparr> s_last_margin_eval_ms := now, s_margin_eval_started := True \<rparr>)) (\<lambda>_.
       let outage = (if is_open then wrap_i64 (now - s_outage_started_ms s) else 0)
       in
       mbind (if m_mode cfg = MarginAuto
              then mbind (journal_read env bridge_counts) (\<lambda>c.
                     mret (jc_pending c + jc_parked c + jc_accepted_unconfirmed c + jc_quarantined c))
              else mret 0) (\<lambda>backlog.
       let nxt = compute_margin cfg
             \<lparr> mi_breaker_open = is_open, mi_outage_ms = outage, mi_backlog = backlog \<rparr>
       in
       mbind (mget s_margin_kib) (\<lambda>cur.
       if nxt = cur then mret ()
       else
         mbind (mmod (\<lambda>s. s\<lparr> s_margin_kib := nxt \<rparr>)) (\<lambda>_.
         mbind (bump (\<lambda>m. m\<lparr> mt_margin_changes := mt_margin_changes m + 1 \<rparr>)) (\<lambda>_.
         push_event (MarginChanged nxt)))))))))"

definition probe_health :: "env \<Rightarrow> (bool \<times> bool) act" where
  "probe_health env =
     mbind (send_health_probe env) (\<lambda>h.
     case h of
       None \<Rightarrow> mret (False, False)
     | Some r \<Rightarrow>
         mbind (track_server_date env r) (\<lambda>_.
         if probe_response_healthy r
         then mbind (handle_difficulty_body env (body r)) (\<lambda>seen. mret (True, seen))
         else mret (False, False)))"

definition probe_difficulty :: "env \<Rightarrow> bool \<Rightarrow> bool act" where
  "probe_difficulty env healthy =
     mbind (send env GetDifficulty) (\<lambda>r.
     mbind (track_server_date env r) (\<lambda>_.
     if probe_response_healthy r
     then mbind (handle_difficulty_body env (body r)) (\<lambda>_. mret True)
     else mret healthy))"

definition probe_step :: "env \<Rightarrow> step_result act" where
  "probe_step env =
     mbind (read_mono env) (\<lambda>now.
     mbind (mget s_breaker) (\<lambda>b.
     if \<not> probe_due now b then mret StepIdle
     else
       mbind (bump (\<lambda>m. m\<lparr> mt_probes := mt_probes m + 1 \<rparr>)) (\<lambda>_.
       mbind (probe_health env) (\<lambda>(healthy0, difficulty_seen).
       mbind (if \<not> healthy0 \<or> \<not> difficulty_seen then probe_difficulty env healthy0
              else mret healthy0) (\<lambda>healthy.
       mbind (if healthy then breaker_now on_probe_success
              else breaker_timed env on_probe_failure) (\<lambda>_.
       mbind (mget (\<lambda>s. b_state (s_breaker s))) (\<lambda>st.
       mbind (push_event (NetworkState st)) (\<lambda>_.
       mret Probed))))))))"

subsection \<open>Submission\<close>

definition body_check_of :: "find_record \<Rightarrow> transport_result \<Rightarrow> confirm_body_check" where
  "body_check_of rec conf =
     (if transport_ok conf \<and> http_status conf = 200 then confirmation_matches rec (body conf)
      else Malformed)"

text \<open>The confirmation lookup of a fresh submission: the adjusted verdict and the backoff time.\<close>

definition lookup_confirmation ::
  "env \<Rightarrow> find_record \<Rightarrow> classification \<Rightarrow> (classification \<times> string option) act" where
  "lookup_confirmation env rec c =
     mbind (send env (Confirm (p_key (r_payload rec)))) (\<lambda>conf.
     mbind (track_server_date env conf) (\<lambda>_.
     let http_200 = (transport_ok conf \<and> http_status conf = 200);
         body_check = body_check_of rec conf
     in
     if http_200 \<and> body_check = Confirmed then
       mbind (bump (\<lambda>m. m\<lparr> mt_reconciled_via_get_block := mt_reconciled_via_get_block m + 1 \<rparr>)) (\<lambda>_.
       mret (c\<lparr> c_next_status := Acked, c_needs_lookup_confirmation := False,
               c_reason := c_reason c @ ''; confirmed via /get_block (body matches key)'' \<rparr>, None))
     else if http_200 then
       mbind (backoff_time_iso env (r_attempt_count rec) None) (\<lambda>t.
       mbind (bump (\<lambda>m. m\<lparr> mt_confirm_body_rejected := mt_confirm_body_rejected m + 1 \<rparr>)) (\<lambda>_.
       mret (c\<lparr> c_reason := c_reason c @ ''; '' @ confirm_reject_reason body_check \<rparr>, Some t)))
     else if transport_ok conf \<and> http_status conf = 404 then
       mbind (backoff_time_iso env (r_attempt_count rec) None) (\<lambda>t.
       mbind (bump (\<lambda>m. m\<lparr> mt_lying_200_detected := mt_lying_200_detected m + 1 \<rparr>)) (\<lambda>_.
       mret (c\<lparr> c_next_status := Pending, c_needs_lookup_confirmation := False,
               c_reason := c_reason c @ ''; /get_block says ABSENT '' @ em_dash
                 @ '' server 200 was not durable, resubmitting'' \<rparr>, Some t)))
     else
       mbind (backoff_time_iso env (r_attempt_count rec) None) (\<lambda>t.
       mret (c\<lparr> c_reason := c_reason c @ ''; /get_block unavailable, remaining unconfirmed'' \<rparr>,
             Some t))))"

definition is_transport_failure :: "transport_result \<Rightarrow> bool" where
  "is_transport_failure res \<longleftrightarrow>
     \<not> transport_ok res \<or> 500 \<le> http_status res \<or> http_status res = 408 \<or> http_status res = 425
     \<or> trim_is_empty (body res)"

text \<open>Breaker and pacing after a recorded attempt.\<close>

definition settle_outcome :: "env \<Rightarrow> transport_result \<Rightarrow> classification \<Rightarrow> bool \<Rightarrow> unit act" where
  "settle_outcome env res c was_closed =
     (if c_next_status c = Acked \<or> c_next_status c = AcceptedUnconfirmed then
        mbind (breaker_now on_verify_success) (\<lambda>_.
        if was_closed then pace on_healthy_round_trip else pace on_breaker_close)
      else if is_transport_failure res then
        mbind (breaker_timed env on_verify_transport_failure) (\<lambda>_. pace on_throttle)
      else if http_status res = 429 then
        mbind (breaker_now on_verify_inconclusive) (\<lambda>_. pace on_throttle)
      else
        mbind (breaker_now on_verify_inconclusive) (\<lambda>_. pace on_healthy_round_trip))"

definition count_submission ::
  "find_record \<Rightarrow> transport_result \<Rightarrow> classification \<Rightarrow> metrics \<Rightarrow> metrics" where
  "count_submission rec res c m0 =
     (let m1 = m0\<lparr> mt_submitted := mt_submitted m0 + 1 \<rparr>;
          m2 = (if 0 < r_attempt_count rec
                then m1\<lparr> mt_resubmitted := mt_resubmitted m1 + 1 \<rparr> else m1);
          m3 = (if \<not> transport_ok res
                then m2\<lparr> mt_transport_failures := mt_transport_failures m2 + 1 \<rparr> else m2)
      in case c_next_status c of
           Acked \<Rightarrow> m3\<lparr> mt_acked := mt_acked m3 + 1 \<rparr>
         | AcceptedUnconfirmed \<Rightarrow> m3\<lparr> mt_accepted_unconfirmed := mt_accepted_unconfirmed m3 + 1 \<rparr>
         | ParkedDifficulty \<Rightarrow> m3\<lparr> mt_parked_difficulty := mt_parked_difficulty m3 + 1 \<rparr>
         | ParkedXuniWindow \<Rightarrow> m3\<lparr> mt_parked_xuni := mt_parked_xuni m3 + 1 \<rparr>
         | Quarantined \<Rightarrow> m3\<lparr> mt_quarantined := mt_quarantined m3 + 1 \<rparr>
         | PermanentlyInvalid \<Rightarrow> m3\<lparr> mt_permanently_invalid := mt_permanently_invalid m3 + 1 \<rparr>
         | _ \<Rightarrow> m3)"

text \<open>The verdict on one round trip, with the time of the next attempt.\<close>

definition judge_submission ::
  "env \<Rightarrow> find_record \<Rightarrow> transport_result \<Rightarrow> (classification \<times> string option) act" where
  "judge_submission env rec res =
     (let status = (if transport_ok res then http_status res else TRANSPORT_ERROR);
          c = classify status (body res) (p_kind (r_payload rec)) (retry_after res)
      in
      mbind (case c_server_difficulty_hint c of
               Some hint \<Rightarrow> record_hint env hint
             | None \<Rightarrow> mret ()) (\<lambda>_.
      mbind (if c_needs_lookup_confirmation c then lookup_confirmation env rec c
             else mret (c, None)) (\<lambda>(c, next_attempt).
      if c_next_status c = Pending \<and> next_attempt = None then
        (let retry_after_s =
               (if status = 429 then Option.bind (retry_after res) parse_retry_after_seconds else None)
         in mbind (backoff_time_iso env (r_attempt_count rec) retry_after_s) (\<lambda>t.
            mret (c, Some t)))
      else mret (c, next_attempt))))"

definition http_status_of :: "transport_result \<Rightarrow> int option" where
  "http_status_of res = (if transport_ok res then Some (http_status res) else None)"

definition submit_record :: "env \<Rightarrow> int \<Rightarrow> find_record \<Rightarrow> step_result act" where
  "submit_record env now_mono rec =
     mbind (mget (\<lambda>s. b_state (s_breaker s) = Closed)) (\<lambda>was_closed.
     mbind (send env (Submit (r_payload rec))) (\<lambda>res.
     mbind (track_server_date env res) (\<lambda>_.
     mbind (judge_submission env rec res) (\<lambda>(c, next_attempt).
     mbind (read_wall env) (\<lambda>wall.
     mbind (journal_call env (\<lambda>io.
       bridge_record_attempt io (r_id rec) c (http_status_of res) (body res) next_attempt
         (iso_utc wall))) (\<lambda>_.
     mbind (settle_outcome env res c was_closed) (\<lambda>_.
     mbind (mget (\<lambda>s. b_state (s_breaker s))) (\<lambda>st.
     mbind (push_event (NetworkState st)) (\<lambda>_.
     mbind (mmod (\<lambda>s. s\<lparr> s_next_submit_allowed_ms :=
                           wrap_i64 (now_mono + submit_interval_ms (s_scheduler s)) \<rparr>)) (\<lambda>_.
     mbind (bump (count_submission rec res c)) (\<lambda>_.
     mbind (push_event (Outcome rec c (http_status_of res))) (\<lambda>_.
     mret Submitted))))))))))))"

text \<open>The XUNI bookkeeping and the fetches of a submit step: nothing due, a hold, or the slice
  to choose from.\<close>

datatype step_plan = Stop step_result | Choose "find_record list" xuni_window_state

definition plan_step :: "env \<Rightarrow> int \<Rightarrow> step_plan act" where
  "plan_step env now_mono =
     mbind (mget s_server_offset_ms) (\<lambda>off.
     mbind (read_wall env) (\<lambda>wall.
     let window = xuni_window_at (wrap_i64 (wall + (case off of Some d \<Rightarrow> d | None \<Rightarrow> 0)))
     in
     mbind (mget (\<lambda>s. s)) (\<lambda>s.
     mbind (if win_open window \<and> \<not> s_last_window_open s
            then mbind (journal_call env (\<lambda>io.
                   bridge_unpark_xuni_for_window io (xuni_max_windows (s_cfg s)))) (\<lambda>_. mret ())
            else mret ()) (\<lambda>_.
     mbind (mmod (\<lambda>s. s\<lparr> s_last_window_open := win_open window \<rparr>)) (\<lambda>_.
     mbind (mget s_quiesce_until_ms) (\<lambda>until.
     if now_mono < until then mret (Stop Quiescing)
     else
       mbind (read_wall env) (\<lambda>wall2.
       let now_iso = iso_utc wall2
       in
       mbind (journal_read env (\<lambda>io.
         bridge_fetch_eligible_of_kind io Xen11 now_iso (fetch_limit (s_cfg s)))) (\<lambda>xen11.
       mbind (if win_open window
              then journal_read env (\<lambda>io.
                     bridge_fetch_eligible_of_kind io Xuni now_iso (fetch_limit (s_cfg s)))
              else mret []) (\<lambda>xuni.
       mbind (read_mono env) (\<lambda>now.
       mbind (breaker_now (set_xuni_pressure now (xuni \<noteq> []))) (\<lambda>_.
       if xen11 @ xuni = [] then mret (Stop StepIdle)
       else mret (Choose (xen11 @ xuni) window))))))))))))"

definition submit_due :: "env \<Rightarrow> int \<Rightarrow> step_result act" where
  "submit_due env now_mono =
     mbind (plan_step env now_mono) (\<lambda>plan.
     case plan of
       Stop r \<Rightarrow> mret r
     | Choose eligible window \<Rightarrow>
         mbind (mget (\<lambda>s. s)) (\<lambda>s.
         case select_next (s_scheduler s) eligible
                (case s_trend s of Some t \<Rightarrow> t | None \<Rightarrow> TrendUnknown) window of
           None \<Rightarrow> mret StepIdle
         | Some rec \<Rightarrow>
             (case try_admit (s_breaker s) of
                (admitted, b) \<Rightarrow>
                  mbind (mmod (\<lambda>s. s\<lparr> s_breaker := b \<rparr>)) (\<lambda>_.
                  if \<not> admitted then mret BreakerBlocked else submit_record env now_mono rec))))"

definition submit_step :: "env \<Rightarrow> step_result act" where
  "submit_step env =
     mbind (read_mono env) (\<lambda>now_mono.
     mbind (mget s_next_submit_allowed_ms) (\<lambda>allowed.
     if now_mono < allowed then mret StepIdle else submit_due env now_mono))"

subsection \<open>Confirmation retries\<close>

definition retry_verdict :: "find_status \<Rightarrow> string \<Rightarrow> classification" where
  "retry_verdict st reason =
     \<lparr> c_next_status = st, c_server_difficulty_hint = None, c_needs_lookup_confirmation = False,
       c_reason = reason \<rparr>"

definition judge_confirmation ::
  "env \<Rightarrow> find_record \<Rightarrow> transport_result \<Rightarrow> (classification \<times> string option) act" where
  "judge_confirmation env rec conf =
     (let http_200 = (transport_ok conf \<and> http_status conf = 200);
          body_check = body_check_of rec conf
      in
      if http_200 \<and> body_check = Confirmed then
        mbind (bump (\<lambda>m. m\<lparr> mt_acked := mt_acked m + 1,
                            mt_reconciled_via_get_block := mt_reconciled_via_get_block m + 1 \<rparr>)) (\<lambda>_.
        mret (retry_verdict Acked ''confirmed via /get_block (retry, body matches key)'', None))
      else if http_200 then
        mbind (backoff_time_iso env (r_attempt_count rec) None) (\<lambda>t.
        mbind (bump (\<lambda>m. m\<lparr> mt_confirm_body_rejected := mt_confirm_body_rejected m + 1 \<rparr>)) (\<lambda>_.
        mret (retry_verdict AcceptedUnconfirmed (confirm_reject_reason body_check), Some t)))
      else if transport_ok conf \<and> http_status conf = 404 then
        mbind (backoff_time_iso env (r_attempt_count rec) None) (\<lambda>t.
        mbind (bump (\<lambda>m. m\<lparr> mt_lying_200_detected := mt_lying_200_detected m + 1 \<rparr>)) (\<lambda>_.
        mret (retry_verdict Pending (''/get_block says ABSENT '' @ em_dash
                @ '' server 200 was not durable, resubmitting''), Some t)))
      else
        mbind (backoff_time_iso env (r_attempt_count rec) None) (\<lambda>t.
        mret (retry_verdict AcceptedUnconfirmed
                ''/get_block unavailable, remaining unconfirmed (retry backoff)'', Some t)))"

definition confirm_record :: "env \<Rightarrow> find_record \<Rightarrow> bool act" where
  "confirm_record env rec =
     mbind (send env (Confirm (p_key (r_payload rec)))) (\<lambda>conf.
     mbind (track_server_date env conf) (\<lambda>_.
     mbind (judge_confirmation env rec conf) (\<lambda>(c, next_attempt).
     mbind (read_wall env) (\<lambda>wall.
     mbind (journal_call env (\<lambda>io.
       bridge_record_attempt io (r_id rec) c (http_status_of conf) (body conf) next_attempt
         (iso_utc wall))) (\<lambda>_.
     mbind (bump (\<lambda>m. m\<lparr> mt_confirmation_retries := mt_confirmation_retries m + 1 \<rparr>)) (\<lambda>_.
     mbind (push_event (Outcome rec c (http_status_of conf))) (\<lambda>_.
     mret (transport_ok conf))))))))"

fun confirm_batch :: "env \<Rightarrow> find_record list \<Rightarrow> bool \<Rightarrow> bool act" where
  "confirm_batch env [] any = mret any"
| "confirm_batch env (rec # recs) any =
     mbind (confirm_record env rec) (\<lambda>ok.
     if \<not> ok then mret True else confirm_batch env recs True)"

definition confirm_step :: "env \<Rightarrow> step_result act" where
  "confirm_step env =
     mbind (mget (\<lambda>s. s)) (\<lambda>s.
     if b_state (s_breaker s) = Opened then mret StepIdle
     else
       mbind (read_wall env) (\<lambda>wall.
       mbind (journal_read env (\<lambda>io.
         bridge_fetch_awaiting_confirmation io (iso_utc wall) (confirm_fetch_limit (s_cfg s)))) (\<lambda>batch.
       mbind (confirm_batch env batch False) (\<lambda>any.
       mret (if any then ConfirmRetried else StepIdle)))))"

subsection \<open>The scheduling step\<close>

definition run_step :: "env \<Rightarrow> step_result act" where
  "run_step env =
     mbind (update_margin env) (\<lambda>_.
     mbind (mget (\<lambda>s. b_state (s_breaker s))) (\<lambda>st.
     if st = Opened then probe_step env
     else
       mbind (submit_step env) (\<lambda>submit_result.
       mbind (confirm_step env) (\<lambda>confirm_result.
       if (submit_result = StepIdle \<or> submit_result = Quiescing) \<and> confirm_result \<noteq> StepIdle
       then mret confirm_result
       else mret submit_result))))"

fun breaker_code :: "breaker_state \<Rightarrow> nat" where
  "breaker_code Closed = 0"
| "breaker_code Opened = 1"
| "breaker_code HalfOpen = 2"

definition fire :: "manager \<Rightarrow> manager" where
  "fire s = s\<lparr> s_fired := s_fired s @ s_events s, s_events := [] \<rparr>"

definition handle_fatal :: "string \<Rightarrow> manager \<Rightarrow> manager" where
  "handle_fatal what s =
     (if s_fatal s then s
      else s\<lparr> s_fatal := True, s_running := False,
              s_metrics := (s_metrics s)\<lparr> mt_thread_loop_exceptions :=
                             mt_thread_loop_exceptions (s_metrics s) + 1 \<rparr>,
              s_fatal_calls := s_fatal_calls s @ [what] \<rparr>)"

definition run_once :: "env \<Rightarrow> manager \<Rightarrow> step_result \<times> manager" where
  "run_once env s =
     (if s_fatal s then (StepIdle, s)
      else
        case run_step env (s\<lparr> s_events := [] \<rparr>) of
          (outcome, s1) \<Rightarrow>
            let s2 = s1\<lparr> s_breaker_cache := breaker_code (b_state (s_breaker s1)) \<rparr>
            in case outcome of
                 Inr result \<Rightarrow> (result, fire s2)
               | Inl e \<Rightarrow>
                   (StepIdle, handle_fatal (''submission step: '' @ e) (s2\<lparr> s_events := [] \<rparr>)))"

text \<open>The thread: step while running; the waits in between only let time pass.  \<open>fuel\<close> bounds
  the number of steps looked at.\<close>

fun thread_loop :: "env \<Rightarrow> nat \<Rightarrow> manager \<Rightarrow> manager" where
  "thread_loop env 0 s = s"
| "thread_loop env (Suc fuel) s =
     (if s_running s then thread_loop env fuel (snd (run_once env s)) else s)"

definition thread_wait_ms :: "sub_config \<Rightarrow> step_result \<Rightarrow> int" where
  "thread_wait_ms cfg r =
     max (if r = StepIdle then idle_poll_ms cfg else min (idle_poll_ms cfg) 50) 0"

definition start_manager :: "manager \<Rightarrow> manager" where
  "start_manager s = s\<lparr> s_running := True \<rparr>"

definition stop_manager :: "manager \<Rightarrow> manager" where
  "stop_manager s = s\<lparr> s_running := False \<rparr>"

text \<open>Observers.\<close>

definition breaker_state_of :: "manager \<Rightarrow> breaker_state" where
  "breaker_state_of s =
     (if s_breaker_cache s = 1 then Opened else if s_breaker_cache s = 2 then HalfOpen else Closed)"

definition outage_duration_ms :: "int \<Rightarrow> manager \<Rightarrow> int" where
  "outage_duration_ms now s =
     (if s_outage_started_ms s = 0 then 0 else max (wrap_i64 (now - s_outage_started_ms s)) 0)"

definition quiesce_remaining_ms :: "int \<Rightarrow> manager \<Rightarrow> int" where
  "quiesce_remaining_ms now s =
     (if s_quiesce_until_ms s = 0 then 0 else max (wrap_i64 (s_quiesce_until_ms s - now)) 0)"

end
