(* ===== verification/Submission_Safety.thy ===== *)
theory Submission_Safety
  imports Submission
begin

text \<open>
  Safety of the drain loop of theory \<open>Submission\<close>.  A relation between the manager before and
  after an action that is reflexive and transitive is preserved by composition; the locale
  \<open>action_frame\<close> proves this once, and its interpretations give, for every action of the source,
  what it does to the journal (\<open>quiet\<close>: nothing but un-parking and the miners' appends), which
  requests it can send, and that time only moves forward.  The three places that record an outcome
  are then the only ones to look at for the safety theorems.
\<close>

subsection \<open>Frames\<close>

definition keeps :: "(manager \<Rightarrow> manager \<Rightarrow> bool) \<Rightarrow> 'a act \<Rightarrow> bool" where
  "keeps R m \<longleftrightarrow> (\<forall>s. R s (snd (m s)))"

locale action_frame =
  fixes R :: "manager \<Rightarrow> manager \<Rightarrow> bool"
  assumes frame_refl: "R s s"
    and frame_trans: "R a b \<Longrightarrow> R b c \<Longrightarrow> R a c"
begin

lemma keeps_mret: "keeps R (mret a)"
  by (simp add: keeps_def mret_def frame_refl)

lemma keeps_mget: "keeps R (mget g)"
  by (simp add: keeps_def mget_def frame_refl)

lemma keeps_mbind:
  assumes "keeps R m" "\<And>a. keeps R (f a)"
  shows "keeps R (mbind m f)"
  unfolding keeps_def mbind_def
proof
  fix s
  obtain r s1 where m: "m s = (r, s1)" by fastforce
  have "R s s1" using assms(1) m by (metis keeps_def snd_conv)
  then show "R s (snd (case m s of (Inl e, s1) \<Rightarrow> (Inl e, s1) | (Inr a, s1) \<Rightarrow> f a s1))"
    using assms(2) m frame_trans by (cases r) (auto simp: keeps_def)
qed

lemma keeps_if: "(b \<Longrightarrow> keeps R m) \<Longrightarrow> (\<not> b \<Longrightarrow> keeps R n) \<Longrightarrow> keeps R (if b then m else n)"
  by simp

lemma keeps_mwhen: "keeps R m \<Longrightarrow> keeps R (mwhen b m)"
  by (simp add: mwhen_def keeps_mret)

lemma keeps_option:
  "keeps R m \<Longrightarrow> (\<And>a. keeps R (f a)) \<Longrightarrow> keeps R (case v of None \<Rightarrow> m | Some a \<Rightarrow> f a)"
  by (cases v) auto

lemma keeps_pair: "(\<And>a b. keeps R (f a b)) \<Longrightarrow> keeps R (case p of (a, b) \<Rightarrow> f a b)"
  by (cases p) auto

lemma keeps_let: "keeps R (f a) \<Longrightarrow> keeps R (let x = a in f x)"
  by simp

lemma keeps_plan:
  "(\<And>r. keeps R (f r)) \<Longrightarrow> (\<And>e w. keeps R (g e w)) \<Longrightarrow>
   keeps R (case p of Stop r \<Rightarrow> f r | Choose e w \<Rightarrow> g e w)"
  by (cases p) auto

lemmas keeps_rules =
  keeps_mret keeps_mget keeps_mbind keeps_if keeps_mwhen keeps_option keeps_pair keeps_let keeps_plan

end

text \<open>A frame that the primitive actions other than journal calls and requests respect.\<close>

locale passive_frame = action_frame +
  assumes frame_tick: "R s (tick s)"
    and frame_fields:
      "s_journal s' = s_journal s \<Longrightarrow> s_requests s' = s_requests s \<Longrightarrow> s_tick s' = s_tick s \<Longrightarrow> R s s'"
begin

lemma keeps_mmod:
  "(\<And>s. s_journal (f s) = s_journal s \<and> s_requests (f s) = s_requests s \<and> s_tick (f s) = s_tick s) \<Longrightarrow>
   keeps R (mmod f)"
  by (simp add: keeps_def mmod_def frame_fields)

lemma keeps_reads: "keeps R (read_mono env)" "keeps R (read_wall env)" "keeps R (read_jitter env)"
  by (simp_all add: keeps_def read_mono_def read_wall_def read_jitter_def frame_tick)

lemma keeps_push_event: "keeps R (push_event e)"
  unfolding push_event_def by (rule keeps_mmod) simp

lemma keeps_bump: "keeps R (bump f)"
  unfolding bump_def by (rule keeps_mmod) simp

lemma keeps_breaker_now: "keeps R (breaker_now f)"
  unfolding breaker_now_def by (rule keeps_mmod) simp

lemma keeps_pace: "keeps R (pace f)"
  unfolding pace_def by (rule keeps_mmod) simp

lemma keeps_breaker_timed: "keeps R (breaker_timed env f)"
  unfolding breaker_timed_def by (intro keeps_rules keeps_reads keeps_mmod) simp

lemma keeps_fetch_max: "keeps R (fetch_max_quiesce u)"
  by (simp add: keeps_def fetch_max_quiesce_def frame_fields)

lemma keeps_arm_quiesce: "keeps R (arm_quiesce env)"
  unfolding arm_quiesce_def by (intro keeps_rules keeps_reads keeps_fetch_max keeps_bump)

lemma keeps_track_server_date: "keeps R (track_server_date env r)"
  unfolding track_server_date_def by (intro keeps_rules keeps_reads keeps_mmod) simp

lemma keeps_backoff_time_iso: "keeps R (backoff_time_iso env n ra)"
  unfolding backoff_time_iso_def by (intro keeps_rules keeps_reads)

lemma keeps_settle_outcome: "keeps R (settle_outcome env res c w)"
  unfolding settle_outcome_def
  by (intro keeps_rules keeps_breaker_now keeps_pace keeps_breaker_timed)

lemma keeps_judge_confirmation: "keeps R (judge_confirmation env rec conf)"
  unfolding judge_confirmation_def
  by (intro keeps_rules keeps_bump keeps_backoff_time_iso)

lemmas keeps_passive =
  keeps_reads keeps_push_event keeps_bump keeps_breaker_now keeps_pace keeps_breaker_timed
  keeps_arm_quiesce keeps_track_server_date keeps_backoff_time_iso keeps_settle_outcome
  keeps_judge_confirmation

end

subsection \<open>Requests\<close>

definition sends_only :: "request set \<Rightarrow> manager \<Rightarrow> manager \<Rightarrow> bool" where
  "sends_only A s s' \<longleftrightarrow> (\<exists>new. s_requests s' = s_requests s @ new \<and> set new \<subseteq> A)"

lemma tick_fields [simp]:
  "s_journal (tick s) = s_journal s" "s_requests (tick s) = s_requests s" "s_tick (tick s) = Suc (s_tick s)"
  "s_breaker (tick s) = s_breaker s" "s_cfg (tick s) = s_cfg s" "s_quiesce_until_ms (tick s) = s_quiesce_until_ms s"
  by (simp_all add: tick_def)

interpretation rq: passive_frame "sends_only A" for A
proof unfold_locales
  fix a b c s s'
  show "sends_only A a b \<Longrightarrow> sends_only A b c \<Longrightarrow> sends_only A a c"
    by (auto simp: sends_only_def)
qed (auto simp: sends_only_def)

lemma requests_journal_call: "keeps (sends_only A) (journal_call env f)"
  by (auto simp: keeps_def sends_only_def journal_call_def split: prod.splits)

lemma requests_journal_read: "keeps (sends_only A) (journal_read env f)"
  unfolding journal_read_def by (rule requests_journal_call)

lemma requests_send: "req \<in> A \<Longrightarrow> keeps (sends_only A) (send env req)"
  by (simp add: keeps_def sends_only_def send_def)

lemma requests_health: "HealthProbe \<in> A \<Longrightarrow> keeps (sends_only A) (send_health_probe env)"
  by (auto simp: keeps_def sends_only_def send_health_probe_def split: option.splits)

lemma requests_observe: "keeps (sends_only A) (observe_difficulty env d)"
  unfolding observe_difficulty_def
  by (intro rq.keeps_rules rq.keeps_mmod rq.keeps_passive requests_journal_call)
     (auto split: option.splits)

lemma requests_record_hint: "keeps (sends_only A) (record_hint env d)"
  unfolding record_hint_def
  by (intro rq.keeps_rules rq.keeps_passive requests_journal_call requests_observe)

lemma requests_difficulty_body: "keeps (sends_only A) (handle_difficulty_body env b)"
  unfolding handle_difficulty_body_def by (intro rq.keeps_rules requests_record_hint)

lemma requests_update_margin: "keeps (sends_only A) (update_margin env)"
  unfolding update_margin_def
  by (intro rq.keeps_rules rq.keeps_mmod rq.keeps_passive requests_journal_read)
     (auto simp: age_outage_def Let_def)

lemmas requests_basic =
  rq.keeps_rules rq.keeps_passive requests_journal_call requests_journal_read requests_observe
  requests_record_hint requests_difficulty_body requests_update_margin

lemma requests_probe_step: "keeps (sends_only {GetDifficulty, HealthProbe}) (probe_step env)"
  unfolding probe_step_def probe_health_def probe_difficulty_def
  by (intro requests_basic requests_send requests_health) simp_all

lemma requests_plan_step: "keeps (sends_only A) (plan_step env now)"
  unfolding plan_step_def by (intro requests_basic rq.keeps_mmod) simp

lemma requests_submit_record:
  "keeps (sends_only {Submit (r_payload rec), Confirm (p_key (r_payload rec))}) (submit_record env now rec)"
  unfolding submit_record_def judge_submission_def lookup_confirmation_def
  by (intro requests_basic requests_send rq.keeps_mmod) simp_all

lemma requests_confirm_batch: "keeps (sends_only (range Confirm)) (confirm_batch env recs any)"
proof (induction recs arbitrary: any)
  case Nil
  then show ?case by (simp add: rq.keeps_mret)
next
  case (Cons rec recs)
  show ?case
    unfolding confirm_batch.simps confirm_record_def
    by (intro requests_basic requests_send Cons) simp_all
qed

lemma requests_confirm_step: "keeps (sends_only (range Confirm)) (confirm_step env)"
  unfolding confirm_step_def by (intro requests_basic requests_confirm_batch)

lemma sends_only_mono: "sends_only A s s' \<Longrightarrow> A \<subseteq> B \<Longrightarrow> sends_only B s s'"
  by (auto simp: sends_only_def)

lemma mbind_ok: "mbind m f s = (Inr b, s') \<longleftrightarrow> (\<exists>a s1. m s = (Inr a, s1) \<and> f a s1 = (Inr b, s'))"
  by (auto simp: mbind_def split: prod.splits sum.splits)

lemma mbind_result:
  "mbind m f s = (case m s of (Inl e, s1) \<Rightarrow> (Inl e, s1) | (Inr a, s1) \<Rightarrow> f a s1)"
  by (rule mbind_def)

subsection \<open>The breaker gates the traffic\<close>

interpretation bk: action_frame "\<lambda>s s'. s_breaker s' = s_breaker s"
  by unfold_locales auto

lemma update_margin_breaker: "s_breaker (snd (update_margin env s)) = s_breaker s"
proof -
  have k: "keeps (\<lambda>s s'. s_breaker s' = s_breaker s) (update_margin env)"
    unfolding update_margin_def push_event_def bump_def journal_read_def
    by (intro bk.keeps_rules)
       (auto simp: keeps_def mmod_def read_mono_def journal_call_def tick_def age_outage_def Let_def
         split: prod.splits)
  then show ?thesis by (simp add: keeps_def)
qed

lemma run_once_requests:
  assumes "sends_only A (s\<lparr> s_events := [] \<rparr>) (snd (run_step env (s\<lparr> s_events := [] \<rparr>)))"
  shows "sends_only A s (snd (run_once env s))"
  using assms
  by (auto simp: run_once_def sends_only_def fire_def handle_fatal_def Let_def split: prod.splits sum.splits)

text \<open>C13.  While the breaker is open a step sends nothing but health probes: no submission and no
  confirmation lookup reaches the server, whatever the journal holds and however the clocks, the
  database and the server behave.\<close>

theorem open_breaker_sends_only_probes:
  assumes "b_state (s_breaker s) = Opened"
  shows "\<exists>new. s_requests (snd (run_once env s)) = s_requests s @ new
    \<and> set new \<subseteq> {GetDifficulty, HealthProbe}"
proof -
  let ?s = "s\<lparr> s_events := [] \<rparr>"
  obtain r s1 where u: "update_margin env ?s = (r, s1)" by fastforce
  have b: "b_state (s_breaker s1) = Opened" using update_margin_breaker[of env ?s] u assms by simp
  have "sends_only {GetDifficulty, HealthProbe} ?s s1"
    using requests_update_margin[of "{GetDifficulty, HealthProbe}" env] u by (metis keeps_def snd_conv)
  moreover have "sends_only {GetDifficulty, HealthProbe} s1 (snd (probe_step env s1))"
    using requests_probe_step by (simp add: keeps_def)
  ultimately have "sends_only {GetDifficulty, HealthProbe} ?s (snd (run_step env ?s))"
    using u b rq.frame_trans by (cases r) (auto simp: run_step_def mbind_def mget_def)
  then have "sends_only {GetDifficulty, HealthProbe} s (snd (run_once env s))" by (rule run_once_requests)
  then show ?thesis by (simp add: sends_only_def)
qed

subsection \<open>Quiesce\<close>

definition later :: "manager \<Rightarrow> manager \<Rightarrow> bool" where
  "later s s' \<longleftrightarrow> s_tick s \<le> s_tick s' \<and> s_quiesce_until_ms s \<le> s_quiesce_until_ms s'"

interpretation lt: action_frame later
  by unfold_locales (auto simp: later_def)

lemma later_reads [intro]:
  "keeps later (read_mono env)" "keeps later (read_wall env)" "keeps later (read_jitter env)"
  "keeps later (send env req)" "keeps later (send_health_probe env)" "keeps later (journal_call env f)"
  "keeps later (journal_read env g)"
  by (auto simp: keeps_def later_def read_mono_def read_wall_def read_jitter_def send_def journal_read_def
      send_health_probe_def journal_call_def tick_def split: prod.splits option.splits)

lemma later_mmod:
  "(\<And>s. s_tick (f s) = s_tick s \<and> s_quiesce_until_ms s \<le> s_quiesce_until_ms (f s)) \<Longrightarrow> keeps later (mmod f)"
  by (simp add: keeps_def mmod_def later_def)

lemma later_simple [intro]:
  "keeps later (push_event e)" "keeps later (bump g)" "keeps later (breaker_now h)" "keeps later (pace k)"
  unfolding push_event_def bump_def breaker_now_def pace_def by (rule later_mmod, simp)+

lemma later_arm: "keeps later (arm_quiesce env)"
proof -
  have "keeps later (fetch_max_quiesce u)" for u
    by (simp add: keeps_def fetch_max_quiesce_def later_def)
  then show ?thesis unfolding arm_quiesce_def
    by (intro lt.keeps_rules later_reads later_simple)
qed

lemmas later_basic = lt.keeps_rules later_reads later_simple later_arm

lemma later_timed: "keeps later (breaker_timed env f)"
  unfolding breaker_timed_def by (intro later_basic later_mmod) simp

lemma later_observe: "keeps later (observe_difficulty env d)"
  unfolding observe_difficulty_def
  by (intro later_basic later_mmod) (auto split: option.splits)

lemma later_track: "keeps later (track_server_date env r)"
  unfolding track_server_date_def by (intro later_basic later_mmod) simp

lemma later_hint: "keeps later (record_hint env d)"
  unfolding record_hint_def by (intro later_basic later_observe)

lemma later_backoff: "keeps later (backoff_time_iso env n ra)"
  unfolding backoff_time_iso_def by (intro later_basic)

lemma later_margin: "keeps later (update_margin env)"
  unfolding update_margin_def by (intro later_basic later_mmod) (auto simp: age_outage_def Let_def)

lemma later_settle: "keeps later (settle_outcome env res c w)"
  unfolding settle_outcome_def by (intro later_basic later_timed)

lemma later_judge: "keeps later (judge_submission env rec res)" "keeps later (judge_confirmation env rec res)"
  unfolding judge_submission_def judge_confirmation_def lookup_confirmation_def
  by (intro later_basic later_hint later_track later_backoff)+

lemma later_plan: "keeps later (plan_step env now)"
  unfolding plan_step_def by (intro later_basic later_mmod) simp

lemma later_submit_record: "keeps later (submit_record env now rec)"
  unfolding submit_record_def by (intro later_basic later_mmod later_track later_judge later_settle) simp

lemma later_confirm_record: "keeps later (confirm_record env rec)"
  unfolding confirm_record_def by (intro later_basic later_track later_judge)

lemma later_confirm_batch: "keeps later (confirm_batch env recs any)"
  by (induction recs arbitrary: any)
     (simp_all add: lt.keeps_mret lt.keeps_mbind later_confirm_record)

lemma later_confirm_step: "keeps later (confirm_step env)"
  unfolding confirm_step_def by (intro later_basic later_confirm_batch)

lemma laterD: "keeps later m \<Longrightarrow> m s = (r, s') \<Longrightarrow> later s s'"
  by (metis keeps_def snd_conv)

lemma plan_step_quiesces:
  "plan_step env now s = (Inr p, s') \<Longrightarrow> now < s_quiesce_until_ms s \<Longrightarrow> p = Stop Quiescing"
  by (auto simp: plan_step_def mbind_ok mget_def read_wall_def journal_call_def mmod_def mret_def
      Let_def tick_def split: prod.splits if_splits)

lemma submit_step_quiesces:
  assumes "e_mono env (s_tick s) < s_quiesce_until_ms s"
  shows "sends_only {} s (snd (submit_step env s))"
proof -
  define now where "now = e_mono env (s_tick s)"
  obtain r s1 where p: "plan_step env now (tick s) = (r, s1)" by fastforce
  have "sends_only {} (tick s) s1"
    using requests_plan_step[of "{}" env now] p by (metis keeps_def snd_conv)
  then have s1: "sends_only {} s s1" by (simp add: sends_only_def)
  moreover have "sends_only {} s (tick s)" by (simp add: sends_only_def)
  moreover have "r = Inr q \<Longrightarrow> q = Stop Quiescing" for q
    using plan_step_quiesces[of env now "tick s" q s1] p assms by (simp add: now_def)
  ultimately show ?thesis
    using p by (cases r) (auto simp: submit_step_def submit_due_def mbind_def read_mono_def now_def mget_def mret_def)
qed

lemma later_submit_due: "keeps later (submit_due env now)"
  unfolding submit_due_def
  by (intro later_basic later_plan later_mmod later_submit_record) simp

lemma run_step_tick: "later s (snd (run_step env s))"
proof -
  have probe: "keeps later (probe_step env)"
    unfolding probe_step_def probe_health_def probe_difficulty_def handle_difficulty_body_def
    by (intro later_basic later_track later_hint later_timed)
  have "keeps later (run_step env)"
    unfolding run_step_def submit_step_def
    by (intro later_basic later_margin probe later_confirm_step later_submit_due)
  then show ?thesis by (simp add: keeps_def)
qed

lemma submit_step_ticks: "s_tick s < s_tick (snd (submit_step env s))"
proof -
  have "keeps later (mbind (mget s_next_submit_allowed_ms) (\<lambda>allowed.
     if now < allowed then mret StepIdle else submit_due env now))" for now
    by (intro later_basic later_submit_due)
  then have "later (tick s) (snd (submit_step env s))"
    unfolding submit_step_def mbind_result[of "read_mono env"] read_mono_def by (auto simp: keeps_def)
  then show ?thesis by (simp add: later_def)
qed

text \<open>C19.  A difficulty transition really pauses submission: as long as every reading of the
  monotonic clock taken during the step lies before the quiesce deadline, the step sends no
  \<^verbatim>\<open>/verify\<close> request (confirmation lookups and probes still run).\<close>

theorem quiesce_holds_submissions:
  assumes "\<forall>n. s_tick s \<le> n \<and> n < s_tick (snd (run_once env s)) \<longrightarrow> e_mono env n < s_quiesce_until_ms s"
  shows "\<exists>new. s_requests (snd (run_once env s)) = s_requests s @ new \<and> (\<forall>p. Submit p \<notin> set new)"
proof -
  let ?s = "s\<lparr> s_events := [] \<rparr>" and ?A = "- range Submit"
  have "sends_only ?A ?s (snd (run_step env ?s))" if "\<not> s_fatal s"
  proof -
    have fin: "s_tick (snd (run_once env s)) = s_tick (snd (run_step env ?s))"
      using that by (auto simp: run_once_def fire_def handle_fatal_def Let_def split: prod.splits sum.splits)
    obtain r s1 where u: "update_margin env ?s = (r, s1)" by fastforce
    have l1: "later ?s s1" using laterD[OF later_margin u] .
    have q1: "sends_only ?A ?s s1"
      using requests_update_margin[of ?A env] u by (metis keeps_def snd_conv)
    show ?thesis
    proof (cases "b_state (s_breaker s1) = Opened \<or> isl r")
      case True
      moreover have "sends_only ?A s1 (snd (probe_step env s1))"
        using requests_probe_step[of env] sends_only_mono[of "{GetDifficulty, HealthProbe}" _ _ ?A]
        by (auto simp: keeps_def)
      ultimately show ?thesis
        using u q1 rq.frame_trans by (cases r) (auto simp: run_step_def mbind_def mget_def)
    next
      case False
      then obtain a where r: "r = Inr a" by (cases r) auto
      obtain r2 s2 where sub: "submit_step env s1 = (r2, s2)" by fastforce
      have rest: "snd (run_step env ?s) = (case r2 of Inl e \<Rightarrow> s2 | Inr v \<Rightarrow> snd (confirm_step env s2))"
        using u r False sub
        by (cases r2) (auto simp: run_step_def mbind_def mget_def mret_def split: prod.splits sum.splits)
      have "later s2 (snd (run_step env ?s))"
        using rest later_confirm_step[of env] by (cases r2) (auto simp: keeps_def later_def)
      then have "s_tick s1 < s_tick (snd (run_step env ?s))"
        using submit_step_ticks[of s1 env] sub by (simp add: later_def)
      then have "e_mono env (s_tick s1) < s_quiesce_until_ms s1"
        using assms l1 fin by (auto simp: later_def intro: less_le_trans)
      then have "sends_only ?A s1 s2"
        using submit_step_quiesces[of env s1] sub sends_only_mono[of "{}" s1 s2 ?A] by simp
      then have q2: "sends_only ?A ?s s2" by (rule rq.frame_trans[OF q1])
      have "sends_only (range Confirm) s2 (snd (confirm_step env s2))"
        using requests_confirm_step[of env] by (simp add: keeps_def)
      then have "sends_only ?A s2 (snd (confirm_step env s2))" by (rule sends_only_mono) auto
      from q2 rq.frame_trans[OF q2 this] show ?thesis unfolding rest by (cases r2) simp_all
    qed
  qed
  then have "sends_only ?A s (snd (run_once env s))"
  proof (cases "s_fatal s")
    case True
    then show ?thesis by (simp add: run_once_def rq.frame_refl)
  qed (simp add: run_once_requests)
  then show ?thesis by (auto simp: sends_only_def)
qed

subsection \<open>Actions that record no outcome\<close>

text \<open>The miners append; un-parking moves parked finds; nothing else changes.\<close>

definition quiet :: "journal_db \<Rightarrow> journal_db \<Rightarrow> bool" where
  "quiet db db' \<longleftrightarrow>
     (journal_wf db \<longrightarrow> journal_wf db' \<and>
       (\<exists>old new. journal_view db' = old @ new \<and> list_all2 parked_step (journal_view db) old
          \<and> list_all (\<lambda>r. r_status r = Pending \<or> r_status r = PermanentlyInvalid) new))"

lemma parked_step_refl [simp]: "parked_step r r"
  by (simp add: parked_step_def)

lemma parked_step_trans: "parked_step a b \<Longrightarrow> parked_step b c \<Longrightarrow> parked_step a c"
  by (auto simp: parked_step_def)

lemma parked_step_fixed:
  "parked_step r r' \<Longrightarrow> r_status r \<noteq> ParkedDifficulty \<Longrightarrow> r_status r \<noteq> ParkedXuniWindow \<Longrightarrow> r' = r"
  by (auto simp: parked_step_def)

lemma quiet_exI:
  "v = old @ new \<Longrightarrow> list_all2 parked_step u old \<Longrightarrow>
   list_all (\<lambda>r. r_status r = Pending \<or> r_status r = PermanentlyInvalid) new \<Longrightarrow>
   \<exists>old new. v = old @ new \<and> list_all2 parked_step u old
     \<and> list_all (\<lambda>r. r_status r = Pending \<or> r_status r = PermanentlyInvalid) new"
  by blast

lemma quiet_refl: "quiet db db"
  unfolding quiet_def using quiet_exI[of "journal_view db" "journal_view db" "[]" "journal_view db"]
  by (simp add: list_all2_refl)

lemma quiet_trans:
  assumes ab: "quiet a b" and bc: "quiet b c"
  shows "quiet a c"
  unfolding quiet_def
proof
  assume wf: "journal_wf a"
  then obtain o1 n1 where 1: "journal_wf b" "journal_view b = o1 @ n1" "list_all2 parked_step (journal_view a) o1"
    "list_all (\<lambda>r. r_status r = Pending \<or> r_status r = PermanentlyInvalid) n1"
    using ab by (auto simp: quiet_def)
  then obtain o2 n2 where 2: "journal_wf c" "journal_view c = o2 @ n2" "list_all2 parked_step (o1 @ n1) o2"
    "list_all (\<lambda>r. r_status r = Pending \<or> r_status r = PermanentlyInvalid) n2"
    using bc by (auto simp: quiet_def)
  then obtain p q where pq: "o2 = p @ q" "list_all2 parked_step o1 p" "list_all2 parked_step n1 q"
    by (auto simp: list_all2_append1)
  have "list_all (\<lambda>r. r_status r = Pending \<or> r_status r = PermanentlyInvalid) q"
    using pq(3) 1(4) by (induction rule: list_all2_induct) (auto dest: parked_step_fixed)
  moreover have "list_all2 parked_step (journal_view a) p"
    using list_all2_trans[OF parked_step_trans 1(3) pq(2)] .
  ultimately show "journal_wf c \<and> (\<exists>old new. journal_view c = old @ new
      \<and> list_all2 parked_step (journal_view a) old
      \<and> list_all (\<lambda>r. r_status r = Pending \<or> r_status r = PermanentlyInvalid) new)"
    using 2 pq by (intro conjI exI[of _ p] exI[of _ "q @ n2"]) auto
qed

lemma quiet_parks:
  assumes "\<And>j. journal_wf j \<Longrightarrow> journal_wf (f j) \<and> list_all2 parked_step (journal_view j) (journal_view (f j))"
  shows "quiet db (f db)"
  unfolding quiet_def using assms[of db] quiet_exI[of "journal_view (f db)" "journal_view (f db)" "[]"]
  by simp

lemma quiet_append:
  assumes "rowid_fresh alloc"
  shows "quiet db (snd (append_find io alloc p db))"
  unfolding quiet_def
proof
  assume wf: "journal_wf db"
  have wf': "journal_wf (snd (append_find io alloc p db))"
    using journal_step_wf[OF wf assms, of io "OpAppend p"] by simp
  have st: "r_status (record_of (insert_row i p)) = Pending \<or> r_status (record_of (insert_row i p)) = PermanentlyInvalid" for i
  proof -
    have "status_as_str (r_status (record_of (insert_row i p))) = status_as_str (fst (initial_status p))"
      using record_of_fields(3)[of "insert_row i p"] by simp
    then have "r_status (record_of (insert_row i p)) = fst (initial_status p)" by (rule status_as_str_inj)
    then show ?thesis by (simp add: initial_status_def)
  qed
  have "snd (append_find io alloc p db) = db
      \<or> (\<exists>i. snd (append_find io alloc p db) = db\<lparr> finds := finds db @ [insert_row i p] \<rparr>)"
    by (auto simp: append_find_def snd_settle rbind_Inr_iff Let_def split: sum.splits option.splits)
  then consider "journal_view (snd (append_find io alloc p db)) = journal_view db"
    | i where "journal_view (snd (append_find io alloc p db)) = journal_view db @ [record_of (insert_row i p)]"
    by (auto simp: journal_view_def)
  then show "journal_wf (snd (append_find io alloc p db)) \<and>
      (\<exists>old new. journal_view (snd (append_find io alloc p db)) = old @ new
        \<and> list_all2 parked_step (journal_view db) old
        \<and> list_all (\<lambda>r. r_status r = Pending \<or> r_status r = PermanentlyInvalid) new)"
  proof cases
    case 1
    then show ?thesis using wf' quiet_refl[of db] wf by (simp add: quiet_def)
  next
    case (2 i)
    then show ?thesis using wf' st
      by (intro conjI exI[of _ "journal_view db"] exI[of _ "[record_of (insert_row i p)]"])
         (auto intro: list_all2_refl)
  qed
qed

lemma quiet_miners:
  assumes "rowid_fresh (e_rowid env)"
  shows "quiet (s_journal s) (miners_append env s)"
proof -
  have "quiet db (run (\<lambda>db (io, p). snd (append_find io (e_rowid env) p db)) db es)" for db es
  proof (induction es arbitrary: db)
    case Nil
    then show ?case by (simp add: quiet_refl)
  next
    case (Cons e es)
    obtain io p where e: "e = (io, p)" by fastforce
    show ?case using quiet_trans[OF quiet_append[OF assms] Cons.IH] by (simp add: e)
  qed
  then show ?thesis by (simp add: miners_append_def)
qed

definition quiet_m :: "manager \<Rightarrow> manager \<Rightarrow> bool" where
  "quiet_m s s' \<longleftrightarrow> quiet (s_journal s) (s_journal s')"

interpretation qm: passive_frame quiet_m
  by unfold_locales (auto simp: quiet_m_def quiet_refl intro: quiet_trans)

lemma quiet_journal_call:
  assumes "rowid_fresh (e_rowid env)" "\<And>io db. quiet db (snd (f io db))"
  shows "keeps quiet_m (journal_call env f)"
proof -
  have "quiet (s_journal s) (snd (f (e_sql env (s_tick s)) (miners_append env s)))" for s
    using quiet_trans[OF quiet_miners[OF assms(1)] assms(2)] .
  then show ?thesis
    by (auto simp: keeps_def quiet_m_def journal_call_def split: prod.splits) (metis snd_conv)
qed

lemma quiet_journal_read: "rowid_fresh (e_rowid env) \<Longrightarrow> keeps quiet_m (journal_read env f)"
  unfolding journal_read_def by (rule quiet_journal_call) (simp_all add: quiet_refl)

lemma quiet_send: "keeps quiet_m (send env req)" "keeps quiet_m (send_health_probe env)"
  by (auto simp: keeps_def quiet_m_def send_def send_health_probe_def quiet_refl split: option.splits)

lemma quiet_bridge_ops:
  "quiet db (snd (bridge_unpark_for_difficulty io d db))"
  "quiet db (snd (bridge_unpark_xuni_for_window io m db))"
  "quiet db (snd (bridge_record_difficulty io d t db))"
  using jb.unpark_difficulty_moves jb.unpark_xuni_moves jb.log_difficulty_keeps
  by (intro quiet_parks; auto intro: list_all2_refl)+

subsection \<open>Hoare triples\<close>

text \<open>\<open>triple P m Q E\<close>: from \<open>P\<close>, success of \<open>m\<close> ends in \<open>Q\<close> of its value and an
  error ends in \<open>E\<close>.\<close>

definition triple ::
  "(manager \<Rightarrow> bool) \<Rightarrow> 'a act \<Rightarrow> ('a \<Rightarrow> manager \<Rightarrow> bool) \<Rightarrow> (manager \<Rightarrow> bool) \<Rightarrow> bool" where
  "triple P m Q E \<longleftrightarrow>
     (\<forall>s. P s \<longrightarrow> (case m s of (Inl e, s') \<Rightarrow> E s' | (Inr a, s') \<Rightarrow> Q a s'))"

lemma triple_bind:
  "triple P m Q E \<Longrightarrow> (\<And>a. triple (Q a) (f a) R E) \<Longrightarrow> triple P (mbind m f) R E"
  unfolding triple_def mbind_def by (fastforce split: prod.splits sum.splits)

lemma triple_weaken:
  "triple P m Q E \<Longrightarrow> (\<And>s. P' s \<Longrightarrow> P s) \<Longrightarrow> (\<And>a s. Q a s \<Longrightarrow> Q' a s) \<Longrightarrow> (\<And>s. E s \<Longrightarrow> E' s)
   \<Longrightarrow> triple P' m Q' E'"
  unfolding triple_def by (fastforce split: prod.splits sum.splits)

lemma triple_ret: "(\<And>s. P s \<Longrightarrow> Q a s) \<Longrightarrow> triple P (mret a) Q E"
  by (simp add: triple_def mret_def)

lemma triple_frame:
  "keeps R m \<Longrightarrow> (\<And>s s'. P s \<Longrightarrow> R s s' \<Longrightarrow> P' s' \<and> E s') \<Longrightarrow> triple P m (\<lambda>_. P') E"
  unfolding triple_def keeps_def by (fastforce split: prod.splits sum.splits)

lemma tripleD: "triple P m Q E \<Longrightarrow> P s \<Longrightarrow> m s = (Inr a, s') \<Longrightarrow> Q a s'"
  unfolding triple_def by fastforce

lemma triple_end: "triple P m (\<lambda>_. E) E \<Longrightarrow> P s \<Longrightarrow> E (snd (m s))"
  unfolding triple_def by (fastforce split: prod.splits sum.splits)

lemma triple_if:
  "(b \<Longrightarrow> triple P m Q E) \<Longrightarrow> (\<not> b \<Longrightarrow> triple P n Q E) \<Longrightarrow> triple P (if b then m else n) Q E"
  by simp

lemma triple_get: "triple P (mget g) (\<lambda>a s. P s \<and> a = g s) E"
  by (simp add: triple_def mget_def)

subsection \<open>What every step preserves\<close>

definition journal_captures :: "journal_db \<Rightarrow> (int \<times> found_payload) list" where
  "journal_captures db = map capture_of (journal_view db)"

definition settled_finds :: "journal_db \<Rightarrow> find_record set" where
  "settled_finds db = {r \<in> set (journal_view db). is_terminal (r_status r)}"

text \<open>The server proved, in answer to a lookup made in the given span of interactions, that it
  stores this find: a 200 whose body names its key and, if it carries a hash, its hash.\<close>

definition ack_proof :: "env \<Rightarrow> nat \<Rightarrow> nat \<Rightarrow> find_record \<Rightarrow> bool" where
  "ack_proof env lo hi r \<longleftrightarrow>
     (\<exists>n conf. lo \<le> n \<and> n < hi \<and> conf = e_server env n (Confirm (p_key (r_payload r)))
        \<and> transport_ok conf \<and> http_status conf = 200
        \<and> confirmation_matches r (body conf) = Confirmed)"

lemma ack_proof_payload:
  "ack_proof env lo hi r \<Longrightarrow> r_payload r' = r_payload r \<Longrightarrow> lo' \<le> lo \<Longrightarrow> hi \<le> hi' \<Longrightarrow> ack_proof env lo' hi' r'"
proof -
  assume a: "ack_proof env lo hi r" and p: "r_payload r' = r_payload r" and b: "lo' \<le> lo" "hi \<le> hi'"
  obtain n where n: "lo \<le> n" "n < hi"
    "transport_ok (e_server env n (Confirm (p_key (r_payload r))))"
    "http_status (e_server env n (Confirm (p_key (r_payload r)))) = 200"
    "confirmation_matches r (body (e_server env n (Confirm (p_key (r_payload r))))) = Confirmed"
    using a unfolding ack_proof_def by blast
  have "confirmation_matches r' = confirmation_matches r"
    unfolding confirmation_matches_def p ..
  then show ?thesis
    unfolding ack_proof_def p using n b by (intro exI[of _ n]) simp
qed

definition safe :: "env \<Rightarrow> manager \<Rightarrow> manager \<Rightarrow> bool" where
  "safe env s s' \<longleftrightarrow>
     s_tick s \<le> s_tick s' \<and>
     (journal_wf (s_journal s) \<longrightarrow>
        journal_wf (s_journal s')
        \<and> (\<exists>new. journal_captures (s_journal s') = journal_captures (s_journal s) @ new)
        \<and> settled_finds (s_journal s) \<subseteq> settled_finds (s_journal s')
        \<and> (\<forall>r'\<in>set (journal_view (s_journal s')). r_status r' = Acked \<longrightarrow>
             (\<exists>r\<in>set (journal_view (s_journal s)). r_id r = r_id r' \<and> r_status r = Acked)
             \<or> ack_proof env (s_tick s) (s_tick s') r'))"

lemma safe_refl: "safe env s s"
  by (auto simp: safe_def)

lemma capture_unique:
  assumes "journal_wf db" "r \<in> set (journal_view db)" "r' \<in> set (journal_view db')"
    "journal_wf db'" "journal_captures db' = journal_captures db @ new" "r_id r = r_id r'"
  shows "r_payload r = r_payload r'"
proof -
  have "capture_of r \<in> set (journal_captures db')" using assms(2,5) by (simp add: journal_captures_def)
  then obtain q where q: "q \<in> set (journal_view db')" "capture_of q = capture_of r"
    by (auto simp: journal_captures_def)
  then have "r_id q = r_id r'" using assms(6) by (simp add: capture_of_def)
  then have "q = r'" using jb.id_determines[OF assms(4) q(1) assms(3)] by simp
  then show ?thesis using q(2) by (simp add: capture_of_def)
qed

lemma safe_trans:
  assumes ab: "safe env a b" and bc: "safe env b c"
  shows "safe env a c"
  unfolding safe_def
proof (intro conjI impI)
  show t: "s_tick a \<le> s_tick c" using ab bc by (simp add: safe_def)
  assume wf: "journal_wf (s_journal a)"
  have wfb: "journal_wf (s_journal b)" and wfc: "journal_wf (s_journal c)" using ab bc wf by (auto simp: safe_def)
  show "journal_wf (s_journal c)" by (rule wfc)
  show "\<exists>new. journal_captures (s_journal c) = journal_captures (s_journal a) @ new"
    using ab bc wf wfb by (auto simp: safe_def)
  show "settled_finds (s_journal a) \<subseteq> settled_finds (s_journal c)" using ab bc wf wfb by (auto simp: safe_def)
  show "\<forall>r'\<in>set (journal_view (s_journal c)). r_status r' = Acked \<longrightarrow>
       (\<exists>r\<in>set (journal_view (s_journal a)). r_id r = r_id r' \<and> r_status r = Acked)
       \<or> ack_proof env (s_tick a) (s_tick c) r'"
  proof (intro ballI impI)
    fix r3 assume r3: "r3 \<in> set (journal_view (s_journal c))" "r_status r3 = Acked"
    obtain new where new: "journal_captures (s_journal c) = journal_captures (s_journal b) @ new"
      using bc wfb by (auto simp: safe_def)
    consider r2 where "r2 \<in> set (journal_view (s_journal b))" "r_id r2 = r_id r3" "r_status r2 = Acked"
      | "ack_proof env (s_tick b) (s_tick c) r3"
      using bc wfb r3 unfolding safe_def by blast
    then show "(\<exists>r\<in>set (journal_view (s_journal a)). r_id r = r_id r3 \<and> r_status r = Acked)
       \<or> ack_proof env (s_tick a) (s_tick c) r3"
    proof cases
      case 1
      have p: "r_payload r2 = r_payload r3" using capture_unique[OF wfb 1(1) r3(1) wfc new 1(2)] .
      have "(\<exists>r\<in>set (journal_view (s_journal a)). r_id r = r_id r2 \<and> r_status r = Acked)
         \<or> ack_proof env (s_tick a) (s_tick b) r2"
        using ab wf 1 unfolding safe_def by blast
      then show ?thesis using 1(2) p bc ack_proof_payload[of env "s_tick a" "s_tick b" r2 r3 "s_tick a" "s_tick c"]
        by (auto simp: safe_def)
    next
      case 2
      then show ?thesis using ab ack_proof_payload[OF 2 refl, of "s_tick a" "s_tick c"] by (simp add: safe_def)
    qed
  qed
qed

interpretation sf: action_frame "safe env" for env
  by unfold_locales (auto intro: safe_refl safe_trans)

lemma quiet_safe:
  assumes q: "quiet_m s s'" and t: "s_tick s \<le> s_tick s'"
  shows "safe env s s'"
  unfolding safe_def
proof (intro conjI impI)
  show "s_tick s \<le> s_tick s'" by (rule t)
  assume wf: "journal_wf (s_journal s)"
  then obtain old new where v: "journal_wf (s_journal s')" "journal_view (s_journal s') = old @ new"
    "list_all2 parked_step (journal_view (s_journal s)) old"
    "list_all (\<lambda>r. r_status r = Pending \<or> r_status r = PermanentlyInvalid) new"
    using q by (auto simp: quiet_m_def quiet_def)
  show "journal_wf (s_journal s')" by (rule v(1))
  have "map capture_of old = map capture_of (journal_view (s_journal s))"
    using v(3) by (induction rule: list_all2_induct) (auto simp: parked_step_def)
  then show "\<exists>n. journal_captures (s_journal s') = journal_captures (s_journal s) @ n"
    by (simp add: journal_captures_def v(2))
  show "settled_finds (s_journal s) \<subseteq> settled_finds (s_journal s')"
  proof
    fix r assume "r \<in> settled_finds (s_journal s)"
    then have r: "r \<in> set (journal_view (s_journal s))" "is_terminal (r_status r)"
      by (auto simp: settled_finds_def)
    then obtain r' where "r' \<in> set old" "parked_step r r'" using list_all2_memberD[OF v(3)] by blast
    then show "r \<in> settled_finds (s_journal s')"
      using r parked_step_fixed[of r r'] by (auto simp: settled_finds_def v(2) is_terminal_iff)
  qed
  have was_acked: "\<exists>r\<in>set (journal_view (s_journal s)). r = r'" if "r' \<in> set old" "r_status r' = Acked" for r'
  proof -
    from list_all2_memberD_right[OF v(3) that(1)]
    obtain r where "r \<in> set (journal_view (s_journal s))" "parked_step r r'" by blast
    then show ?thesis using that(2) by (auto simp: parked_step_def)
  qed
  show "\<forall>r'\<in>set (journal_view (s_journal s')). r_status r' = Acked \<longrightarrow>
       (\<exists>r\<in>set (journal_view (s_journal s)). r_id r = r_id r' \<and> r_status r = Acked)
       \<or> ack_proof env (s_tick s) (s_tick s') r'"
    using was_acked v(4) by (fastforce simp: v(2) list_all_iff)
qed

subsection \<open>The actions around an outcome\<close>

lemma quiet_observe: "rowid_fresh (e_rowid env) \<Longrightarrow> keeps quiet_m (observe_difficulty env d)"
  unfolding observe_difficulty_def
  by (intro qm.keeps_rules qm.keeps_mmod qm.keeps_passive quiet_journal_call quiet_bridge_ops)
     (auto split: option.splits)

lemma quiet_hint: "rowid_fresh (e_rowid env) \<Longrightarrow> keeps quiet_m (record_hint env d)"
  unfolding record_hint_def
  by (intro qm.keeps_rules qm.keeps_passive quiet_observe quiet_journal_call quiet_bridge_ops)

lemma quiet_difficulty_body: "rowid_fresh (e_rowid env) \<Longrightarrow> keeps quiet_m (handle_difficulty_body env b)"
  unfolding handle_difficulty_body_def by (intro qm.keeps_rules quiet_hint)

lemma quiet_margin: "rowid_fresh (e_rowid env) \<Longrightarrow> keeps quiet_m (update_margin env)"
  unfolding update_margin_def
  by (intro qm.keeps_rules qm.keeps_mmod qm.keeps_passive quiet_journal_read)
     (auto simp: age_outage_def Let_def)

lemma quiet_probe: "rowid_fresh (e_rowid env) \<Longrightarrow> keeps quiet_m (probe_step env)"
  unfolding probe_step_def probe_health_def probe_difficulty_def
  by (intro qm.keeps_rules qm.keeps_passive quiet_send quiet_difficulty_body)

lemma quiet_plan: "rowid_fresh (e_rowid env) \<Longrightarrow> keeps quiet_m (plan_step env now)"
  unfolding plan_step_def
  by (intro qm.keeps_rules qm.keeps_mmod qm.keeps_passive quiet_journal_read quiet_journal_call
      quiet_bridge_ops) simp_all

lemma quiet_later_safe: "keeps quiet_m m \<Longrightarrow> keeps later m \<Longrightarrow> keeps (safe env) m"
  by (simp add: keeps_def quiet_safe later_def)

lemma safe_margin: "rowid_fresh (e_rowid env) \<Longrightarrow> keeps (safe env) (update_margin env)"
  by (intro quiet_later_safe quiet_margin later_margin)

lemma safe_probe: "rowid_fresh (e_rowid env) \<Longrightarrow> keeps (safe env) (probe_step env)"
  unfolding probe_step_def probe_health_def probe_difficulty_def handle_difficulty_body_def
  by (intro quiet_later_safe qm.keeps_rules qm.keeps_passive quiet_send quiet_hint
      later_basic later_track later_hint later_timed)

text \<open>A find the manager holds: in the journal, as fetched, in a state an outcome may replace.\<close>

definition held :: "find_record \<Rightarrow> manager \<Rightarrow> bool" where
  "held r s \<longleftrightarrow>
     journal_wf (s_journal s) \<and> r \<in> set (journal_view (s_journal s))
     \<and> (r_status r = Pending \<or> r_status r = AcceptedUnconfirmed)"

lemma held_quiet: "held r s \<Longrightarrow> quiet_m s s' \<Longrightarrow> held r s'"
proof -
  assume h: "held r s" and q: "quiet_m s s'"
  then obtain old new where v: "journal_wf (s_journal s')" "journal_view (s_journal s') = old @ new"
    "list_all2 parked_step (journal_view (s_journal s)) old"
    by (auto simp: quiet_m_def quiet_def held_def)
  obtain r' where "r' \<in> set old" "parked_step r r'" using list_all2_memberD[OF v(3)] h by (auto simp: held_def)
  then show ?thesis using h v parked_step_fixed[of r r'] by (auto simp: held_def)
qed

text \<open>The state of an attempt in progress, relative to the manager \<open>s0\<close> it began in: every
  guarantee holds so far, the finds of \<open>H\<close> are held, and if \<open>g\<close> then the server has proved
  \<open>rec\<close>.\<close>

definition attempting ::
  "env \<Rightarrow> manager \<Rightarrow> find_record set \<Rightarrow> bool \<Rightarrow> find_record \<Rightarrow> manager \<Rightarrow> bool" where
  "attempting env s0 H g rec s \<longleftrightarrow>
     safe env s0 s \<and> (\<forall>r\<in>H. held r s) \<and> (g \<longrightarrow> ack_proof env (s_tick s0) (s_tick s) rec)"

lemma attempting_keeps:
  assumes "keeps quiet_m m" "keeps later m"
  shows "triple (attempting env s0 H g rec) m (\<lambda>_. attempting env s0 H g rec) (safe env s0)"
proof (rule triple_frame)
  show "keeps (\<lambda>s s'. quiet_m s s' \<and> later s s') m" using assms by (simp add: keeps_def)
  fix s s' assume a: "attempting env s0 H g rec s" and r: "quiet_m s s' \<and> later s s'"
  then have "safe env s0 s'" using quiet_safe safe_trans by (metis attempting_def later_def)
  moreover have "\<forall>r\<in>H. held r s'" using a r held_quiet by (auto simp: attempting_def)
  moreover have "g \<longrightarrow> ack_proof env (s_tick s0) (s_tick s') rec"
    using a r ack_proof_payload[of env "s_tick s0" "s_tick s" rec rec "s_tick s0" "s_tick s'"]
    by (auto simp: attempting_def later_def)
  ultimately show "attempting env s0 H g rec s' \<and> safe env s0 s'" by (simp add: attempting_def)
qed

lemma attempting_bind:
  assumes "keeps quiet_m m" "keeps later m"
    "\<And>a. triple (attempting env s0 H g rec) (f a) Q (safe env s0)"
  shows "triple (attempting env s0 H g rec) (mbind m f) Q (safe env s0)"
  using triple_bind[OF attempting_keeps[OF assms(1,2)] assms(3)] .

lemma attempting_confirm:
  "triple (attempting env s0 H False rec) (send env (Confirm (p_key (r_payload rec))))
     (\<lambda>conf. attempting env s0 H
        (transport_ok conf \<and> http_status conf = 200 \<and> confirmation_matches rec (body conf) = Confirmed) rec)
     (safe env s0)"
proof -
  have "ack_proof env (s_tick s0) (Suc (s_tick s)) rec"
    if "s_tick s0 \<le> s_tick s" "conf = e_server env (s_tick s) (Confirm (p_key (r_payload rec)))"
      "transport_ok conf" "http_status conf = 200" "confirmation_matches rec (body conf) = Confirmed" for s conf
    unfolding ack_proof_def using that by (intro exI[of _ "s_tick s"]) auto
  moreover have "safe env s0 (tick (s\<lparr> s_requests := q \<rparr>))" if "safe env s0 s" for s q
    using safe_trans[OF that quiet_safe[of s "tick (s\<lparr> s_requests := q \<rparr>)"]]
    by (simp add: quiet_m_def quiet_refl)
  moreover have "held r (tick (s\<lparr> s_requests := q \<rparr>))" if "held r s" for r s q
    using that by (simp add: held_def)
  ultimately show ?thesis
    unfolding triple_def send_def attempting_def by (auto simp: safe_def)
qed

lemma attempting_mono: "attempting env s0 H g rec s \<Longrightarrow> (g' \<Longrightarrow> g) \<Longrightarrow> attempting env s0 H g' rec s"
  by (auto simp: attempting_def)

lemma attempting_passive:
  assumes "triple (attempting env s0 H g rec) m Q (safe env s0)"
  shows "triple (attempting env s0 H g rec) (mbind (track_server_date env r) (\<lambda>_. m)) Q (safe env s0)"
    "triple (attempting env s0 H g rec) (mbind (bump h) (\<lambda>_. m)) Q (safe env s0)"
  by (intro attempting_bind qm.keeps_passive later_track later_simple assms)+

lemma attempting_backoff:
  assumes "\<And>t. triple (attempting env s0 H g rec) (f t) Q (safe env s0)"
  shows "triple (attempting env s0 H g rec) (mbind (backoff_time_iso env n ra) f) Q (safe env s0)"
  by (intro attempting_bind qm.keeps_passive later_backoff assms)

lemma attempting_ret:
  "(c_next_status c = Acked \<Longrightarrow> g) \<Longrightarrow>
   triple (attempting env s0 H g rec) (mret (c, t))
     (\<lambda>ct. attempting env s0 H (c_next_status (fst ct) = Acked) rec) E"
  by (rule triple_ret, erule attempting_mono) simp

lemma lookup_triple:
  assumes "c_next_status c \<noteq> Acked"
  shows "triple (attempting env s0 H False rec) (lookup_confirmation env rec c)
    (\<lambda>ct. attempting env s0 H (c_next_status (fst ct) = Acked) rec) (safe env s0)"
  unfolding lookup_confirmation_def Let_def
  by (rule triple_bind[OF attempting_confirm],
      intro attempting_passive triple_if attempting_backoff attempting_ret)
     (use assms in \<open>auto simp: body_check_of_def\<close>)

lemma judge_confirmation_triple:
  "triple (attempting env s0 H
       (transport_ok conf \<and> http_status conf = 200 \<and> confirmation_matches rec (body conf) = Confirmed) rec)
     (judge_confirmation env rec conf)
     (\<lambda>ct. attempting env s0 H (c_next_status (fst ct) = Acked) rec) (safe env s0)"
  unfolding judge_confirmation_def Let_def
  by (intro attempting_passive triple_if attempting_backoff attempting_ret)
     (auto simp: body_check_of_def retry_verdict_def)

lemma judge_submission_triple:
  assumes env: "rowid_fresh (e_rowid env)"
  shows "triple (attempting env s0 H False rec) (judge_submission env rec res)
    (\<lambda>ct. attempting env s0 H (c_next_status (fst ct) = Acked) rec) (safe env s0)"
proof -
  define st c where "st = (if transport_ok res then http_status res else TRANSPORT_ERROR)"
    and "c = classify st (body res) (p_kind (r_payload rec)) (retry_after res)"
  have na: "c_next_status c \<noteq> Acked"
    using classify_range[of st "body res" "p_kind (r_payload rec)" "retry_after res"] by (auto simp: c_def)
  have hint: "keeps quiet_m (case c_server_difficulty_hint c of Some h \<Rightarrow> record_hint env h | None \<Rightarrow> mret ())"
    "keeps later (case c_server_difficulty_hint c of Some h \<Rightarrow> record_hint env h | None \<Rightarrow> mret ())"
    using env by (intro qm.keeps_rules quiet_hint later_basic later_hint; assumption)+
  have look: "triple (attempting env s0 H False rec)
      (if c_needs_lookup_confirmation c then lookup_confirmation env rec c else mret (c, None))
      (\<lambda>ct. attempting env s0 H (c_next_status (fst ct) = Acked) rec) (safe env s0)"
    using na by (intro triple_if lookup_triple attempting_ret) auto
  show ?thesis
    unfolding judge_submission_def st_def[symmetric] Let_def c_def[symmetric]
  proof (rule attempting_bind[OF hint], rule triple_bind[OF look])
    fix ct :: "classification \<times> string option"
    obtain c' t where ct: "ct = (c', t)" by fastforce
    show "triple (attempting env s0 H (c_next_status (fst ct) = Acked) rec)
      (case ct of (c, next_attempt) \<Rightarrow>
        if c_next_status c = Pending \<and> next_attempt = None
        then mbind (backoff_time_iso env (r_attempt_count rec)
               (if st = 429 then Option.bind (retry_after res) parse_retry_after_seconds else None))
               (\<lambda>t. mret (c, Some t))
        else mret (c, next_attempt))
      (\<lambda>ct. attempting env s0 H (c_next_status (fst ct) = Acked) rec) (safe env s0)"
      unfolding ct prod.case fst_conv by (intro triple_if attempting_backoff attempting_ret)
  qed
qed

text \<open>Recording the outcome of a held find.\<close>

lemma record_outcome_safe:
  assumes env: "rowid_fresh (e_rowid env)"
    and a: "attempting env s0 H (c_next_status c = Acked) rec s" and rec: "rec \<in> H"
    and ids: "inj_on r_id H"
    and r: "journal_call env (\<lambda>io. bridge_record_attempt io (r_id rec) c h b nx t) s = (res, s')"
  shows "safe env s0 s'" "isl res \<or> (\<forall>r\<in>H - {rec}. held r s')"
proof -
  define db where "db = miners_append env s"
  obtain db' where db': "bridge_record_attempt (e_sql env (s_tick s)) (r_id rec) c h b nx t db = (res, db')"
    and s': "s' = tick (s\<lparr> s_journal := db' \<rparr>)"
    using r by (auto simp: journal_call_def db_def Let_def split: prod.splits)
  define s1 where "s1 = s\<lparr> s_journal := db \<rparr>"
  have q: "quiet_m s s1" using quiet_miners[OF env, of s] by (simp add: quiet_m_def s1_def db_def)
  have s1: "safe env s0 s1" "\<forall>r\<in>H. held r s1"
    using a q held_quiet safe_trans[OF _ quiet_safe[OF q]] by (auto simp: attempting_def s1_def)
  have wf: "journal_wf db" and in_db: "rec \<in> set (journal_view db)"
    and st: "r_status rec = Pending \<or> r_status rec = AcceptedUnconfirmed"
    using s1(2) rec by (auto simp: held_def s1_def)
  have nt: "\<And>x. x \<in> set (journal_view db) \<Longrightarrow> r_id x = r_id rec \<Longrightarrow> x = rec"
    using jb.id_determines[OF wf _ in_db] by blast
  let ?upd = "\<lambda>r. if r_id r = r_id rec then attempt_record c h b nx t r else r"
  have up: "journal_wf db' \<and> journal_view db' = map ?upd (journal_view db)" if "res = Inr u" for u
    using jb.record_updates[OF wf db'[unfolded that]] by blast
  have cap: "capture_of (?upd r) = capture_of r" for r
    by (simp add: attempt_record_def capture_of_def)
  have t: "s_tick s1 \<le> s_tick s'" by (simp add: s1_def s')
  show "safe env s0 s'"
  proof (cases res)
    case (Inl e)
    then have "db' = db" using jb.record_fails db' by blast
    then have "quiet_m s1 s'" by (simp add: quiet_m_def s' s1_def quiet_refl)
    from quiet_safe[OF this t] show ?thesis by (rule safe_trans[OF s1(1)])
  next
    case (Inr u)
    note v = up[OF Inr]
    show ?thesis unfolding safe_def
    proof (intro conjI impI)
      show "s_tick s0 \<le> s_tick s'" using s1(1) t by (simp add: safe_def)
      assume wf0: "journal_wf (s_journal s0)"
      show "journal_wf (s_journal s')" using v by (simp add: s')
      have "journal_captures db' = journal_captures db" using v cap by (simp add: journal_captures_def o_def)
      then show "\<exists>new. journal_captures (s_journal s') = journal_captures (s_journal s0) @ new"
        using s1(1) wf0 by (auto simp: safe_def s' s1_def)
      have "settled_finds db \<subseteq> settled_finds db'"
        using nt st v by (force simp: settled_finds_def is_terminal_iff)
      then show "settled_finds (s_journal s0) \<subseteq> settled_finds (s_journal s')"
        using s1(1) wf0 by (auto simp: safe_def s' s1_def)
      show "\<forall>r'\<in>set (journal_view (s_journal s')). r_status r' = Acked \<longrightarrow>
         (\<exists>r\<in>set (journal_view (s_journal s0)). r_id r = r_id r' \<and> r_status r = Acked)
         \<or> ack_proof env (s_tick s0) (s_tick s') r'"
      proof (intro ballI impI)
        fix r' assume r': "r' \<in> set (journal_view (s_journal s'))" "r_status r' = Acked"
        then obtain x where x: "x \<in> set (journal_view db)" "r' = ?upd x" using v by (auto simp: s')
        show "(\<exists>r\<in>set (journal_view (s_journal s0)). r_id r = r_id r' \<and> r_status r = Acked)
         \<or> ack_proof env (s_tick s0) (s_tick s') r'"
        proof (cases "r_id x = r_id rec")
          case True
          then have xr: "x = rec" using nt x(1) by blast
          then have "c_next_status c = Acked" "r_payload r' = r_payload rec"
            using r'(2) x(2) by (simp_all add: attempt_record_def)
          then have "ack_proof env (s_tick s0) (s_tick s) rec" using a by (simp add: attempting_def)
          from ack_proof_payload[OF this \<open>r_payload r' = r_payload rec\<close> order_refl, of "s_tick s'"]
          show ?thesis by (simp add: s')
        next
          case False
          then have "r' \<in> set (journal_view (s_journal s1))" using x by (simp add: s1_def)
          then have "(\<exists>r\<in>set (journal_view (s_journal s0)). r_id r = r_id r' \<and> r_status r = Acked)
            \<or> ack_proof env (s_tick s0) (s_tick s1) r'"
            using s1(1) wf0 r'(2) unfolding safe_def by blast
          then show ?thesis using ack_proof_payload[OF _ refl order_refl t] by blast
        qed
      qed
    qed
  qed
  show "isl res \<or> (\<forall>r\<in>H - {rec}. held r s')"
  proof (cases res)
    case (Inr u)
    have "held r s'" if r: "r \<in> H - {rec}" for r
    proof -
      have h: "held r s1" and "r_id r \<noteq> r_id rec"
        using s1(2) r rec ids by (auto simp: inj_on_def)
      then show ?thesis using up[OF Inr] by (force simp: held_def s1_def s')
    qed
    then show ?thesis by blast
  qed simp
qed

end
