(* ===== verification/Submission_Drain.thy ===== *)
theory Submission_Drain
  imports Submission_Safety
begin

text \<open>
  The drain loop as a whole: what any number of scheduling steps, interleaved with the difficulty
  poller's observations and with stops and restarts of the thread, does to the journal; the
  fatal-error boundary; the bounds of the quiesce and of the per-record backoff; and that a due
  find is submitted.  The safety part composes the triples of theory \<open>Submission_Safety\<close> along the
  source's control flow.
\<close>

subsection \<open>Finds in hand\<close>

lemma triple_pair:
  "(\<And>a b. triple (P (a, b)) (f a b) Q E) \<Longrightarrow> triple (P p) (case p of (a, b) \<Rightarrow> f a b) Q E"
  by (cases p) simp

lemma triple_at:
  "triple P m Q E \<Longrightarrow> P s \<Longrightarrow> (case m s of (Inl e, s') \<Rightarrow> E s' | (Inr a, s') \<Rightarrow> Q a s')"
  by (simp add: triple_def)

lemma attempting_start: "\<forall>r\<in>H. held r s \<Longrightarrow> attempting env s H False rec s"
  by (simp add: attempting_def safe_refl)

lemma attempting_safe: "attempting env s0 H g rec s \<Longrightarrow> safe env s0 s"
  by (simp add: attempting_def)

lemma record_triple:
  assumes "rowid_fresh (e_rowid env)" "rec \<in> H" "inj_on r_id H"
  shows "triple (attempting env s0 H (c_next_status c = Acked) rec)
    (journal_call env (\<lambda>io. bridge_record_attempt io (r_id rec) c h b nx t))
    (\<lambda>_. attempting env s0 (H - {rec}) False rec) (safe env s0)"
  unfolding triple_def
proof (intro allI impI)
  fix s assume a: "attempting env s0 H (c_next_status c = Acked) rec s"
  obtain res s' where r: "journal_call env (\<lambda>io. bridge_record_attempt io (r_id rec) c h b nx t) s = (res, s')"
    by fastforce
  show "case journal_call env (\<lambda>io. bridge_record_attempt io (r_id rec) c h b nx t) s of
      (Inl e, s') \<Rightarrow> safe env s0 s' | (Inr a, s') \<Rightarrow> attempting env s0 (H - {rec}) False rec s'"
    using record_outcome_safe[OF assms(1) a assms(2,3) r]
    by (cases res) (auto simp: r attempting_def)
qed

lemma record_bind:
  assumes "rowid_fresh (e_rowid env)" "rec \<in> H" "inj_on r_id H"
    "triple (attempting env s0 (H - {rec}) False rec) m Q (safe env s0)"
  shows "triple (attempting env s0 H (c_next_status (fst (c, nx)) = Acked) rec)
    (mbind (read_wall env) (\<lambda>wall.
     mbind (journal_call env (\<lambda>io. bridge_record_attempt io (r_id rec) c h b nx (iso_utc wall))) (\<lambda>_. m)))
    Q (safe env s0)"
  unfolding fst_conv
  by (intro attempting_bind[OF qm.keeps_reads(2) later_reads(2)] triple_bind[OF record_triple[OF assms(1-3)]])
     (rule assms(4))

lemma submit_record_safe:
  assumes env: "rowid_fresh (e_rowid env)" and h: "held rec s"
  shows "safe env s (snd (submit_record env now rec s))"
proof -
  have tail: "triple (attempting env s {} False rec)
     (mbind (settle_outcome env res c wc) (\<lambda>_.
      mbind (mget (\<lambda>s. b_state (s_breaker s))) (\<lambda>st.
      mbind (push_event (NetworkState st)) (\<lambda>_.
      mbind (mmod (\<lambda>s. s\<lparr> s_next_submit_allowed_ms :=
                           wrap_i64 (now + submit_interval_ms (s_scheduler s)) \<rparr>)) (\<lambda>_.
      mbind (bump (count_submission rec res c)) (\<lambda>_.
      mbind (push_event (Outcome rec c (http_status_of res))) (\<lambda>_.
      mret Submitted))))))) (\<lambda>_. attempting env s {} False rec) (safe env s)" for res c wc
    by (intro attempting_keeps qm.keeps_rules qm.keeps_passive qm.keeps_mmod later_basic later_settle later_mmod)
       simp_all
  have "triple (attempting env s {rec} False rec) (submit_record env now rec)
      (\<lambda>_. attempting env s {} False rec) (safe env s)"
    unfolding submit_record_def
    by (intro attempting_bind[OF qm.keeps_mget lt.keeps_mget]
          attempting_bind[OF quiet_send(1) later_reads(4)]
          attempting_passive(1) triple_bind[OF judge_submission_triple[OF env]] triple_pair
          record_bind[OF env])
       (simp_all add: tail)
  from triple_end[OF triple_weaken[OF this, of "attempting env s {rec} False rec" "\<lambda>_. safe env s" "safe env s"]]
  show ?thesis using h attempting_safe by (simp add: attempting_start)
qed

lemma confirm_record_triple:
  assumes env: "rowid_fresh (e_rowid env)" and "rec \<in> H" "inj_on r_id H"
  shows "triple (attempting env s0 H False rec) (confirm_record env rec)
    (\<lambda>_. attempting env s0 (H - {rec}) False rec) (safe env s0)"
proof -
  have "triple (attempting env s0 (H - {rec}) False rec)
     (mbind (bump (\<lambda>m. m\<lparr> mt_confirmation_retries := mt_confirmation_retries m + 1 \<rparr>)) (\<lambda>_.
      mbind (push_event (Outcome rec c (http_status_of conf))) (\<lambda>_. mret (transport_ok conf))))
     (\<lambda>_. attempting env s0 (H - {rec}) False rec) (safe env s0)" for c conf
    by (intro attempting_keeps qm.keeps_rules qm.keeps_passive later_basic)
  then show ?thesis unfolding confirm_record_def
    by (intro triple_bind[OF attempting_confirm] attempting_passive(1)
          triple_bind[OF judge_confirmation_triple] triple_pair record_bind assms)
qed

lemma attempting_forget: "attempting env s0 H g rec s \<Longrightarrow> H' \<subseteq> H \<Longrightarrow> attempting env s0 H' False rec' s"
  by (auto simp: attempting_def)

lemma confirm_batch_triple:
  assumes env: "rowid_fresh (e_rowid env)"
  shows "distinct (map r_id recs) \<Longrightarrow>
    triple (attempting env s0 (set recs) False r0) (confirm_batch env recs any) (\<lambda>_. safe env s0) (safe env s0)"
proof (induction recs arbitrary: any r0)
  case Nil
  then show ?case by (simp add: triple_ret attempting_safe)
next
  case (Cons rec recs)
  have ids: "inj_on r_id (set (rec # recs))" and out: "rec \<notin> set recs"
    using Cons.prems by (auto simp: distinct_map)
  have rest: "triple (attempting env s0 (set (rec # recs) - {rec}) False rec)
      (if \<not> ok then mret True else confirm_batch env recs True) (\<lambda>_. safe env s0) (safe env s0)" for ok
    using Cons.IH[of rec True] Cons.prems out
    by (auto intro: triple_ret attempting_safe)
  have "triple (attempting env s0 (set (rec # recs)) False rec) (confirm_batch env (rec # recs) any)
      (\<lambda>_. safe env s0) (safe env s0)"
    unfolding confirm_batch.simps
    by (rule triple_bind[OF confirm_record_triple[OF env _ ids] rest]) simp
  then show ?case by (rule triple_weaken) (auto intro: attempting_forget)
qed

subsection \<open>Fetching\<close>

lemma fetch_triple:
  assumes env: "rowid_fresh (e_rowid env)" and wf: "journal_wf (s_journal s0)"
    and sound: "\<And>io db rs r. journal_wf db \<Longrightarrow> f io db = Inr rs \<Longrightarrow> r \<in> set rs \<Longrightarrow>
      r \<in> set (journal_view db) \<and> (r_status r = Pending \<or> r_status r = AcceptedUnconfirmed)"
  shows "triple (attempting env s0 H False r0) (journal_read env f)
    (\<lambda>rs. attempting env s0 (H \<union> set rs) False r0) (safe env s0)"
  unfolding triple_def
proof (intro allI impI)
  fix s assume a: "attempting env s0 H False r0 s"
  define db where "db = miners_append env s"
  have r: "journal_read env f s = (f (e_sql env (s_tick s)) db, tick (s\<lparr> s_journal := db \<rparr>))"
    by (simp add: journal_read_def journal_call_def db_def)
  have "keeps quiet_m (journal_read env f)" "keeps later (journal_read env f)"
    using quiet_journal_read[OF env] later_reads(7) by blast+
  from triple_at[OF attempting_keeps[OF this] a]
  have K: "case journal_read env f s of (Inl e, s') \<Rightarrow> safe env s0 s'
      | (Inr rs, s') \<Rightarrow> attempting env s0 H False r0 s'" .
  have "journal_wf (s_journal s)" using a wf by (auto simp: attempting_def safe_def)
  then have "journal_wf db" using quiet_miners[OF env, of s] by (simp add: quiet_def db_def)
  then have "held x (tick (s\<lparr> s_journal := db \<rparr>))" if "f (e_sql env (s_tick s)) db = Inr rs" "x \<in> set rs" for rs x
    using sound[OF _ that] by (simp add: held_def)
  then show "case journal_read env f s of (Inl e, s') \<Rightarrow> safe env s0 s'
      | (Inr rs, s') \<Rightarrow> attempting env s0 (H \<union> set rs) False r0 s'"
    using K unfolding r by (auto simp: attempting_def split: sum.splits)
qed

lemmas fetch_kind_triple = fetch_triple[where f = "\<lambda>io. bridge_fetch_eligible_of_kind io k t n" for k t n]

lemma select_next_member: "select_next d es trend w = Some r \<Longrightarrow> r \<in> set es"
proof -
  have scan: "fst (select_scan trend w ox bx es) \<in> insert ox (Some ` set es)
    \<and> snd (select_scan trend w ox bx es) \<in> insert bx (Some ` set es)" for ox bx
    by (induction trend w ox bx es rule: select_scan.induct) (auto split: option.splits)
  assume "select_next d es trend w = Some r"
  then show ?thesis using scan[of None None]
    by (auto simp: select_next_def split: prod.splits option.splits if_splits)
qed

subsection \<open>The steps\<close>

lemma plan_step_triple:
  assumes env: "rowid_fresh (e_rowid env)" and wf: "journal_wf (s_journal s0)"
  shows "triple (attempting env s0 {} False r0) (plan_step env now)
    (\<lambda>p. case p of Stop r \<Rightarrow> safe env s0 | Choose es w \<Rightarrow> attempting env s0 (set es) False r0) (safe env s0)"
proof -
  note fetch = fetch_triple[OF env wf, where f = "\<lambda>io. bridge_fetch_eligible_of_kind io k t n" for k t n]
  have sound: "journal_wf db \<Longrightarrow> bridge_fetch_eligible_of_kind io k t n db = Inr rs \<Longrightarrow> r \<in> set rs \<Longrightarrow>
      r \<in> set (journal_view db) \<and> (r_status r = Pending \<or> r_status r = AcceptedUnconfirmed)" for k t n io db rs r
    using jb.fetch_kind_sound by blast
  have unpark: "keeps quiet_m (mbind (journal_call env (\<lambda>io. bridge_unpark_xuni_for_window io m)) (\<lambda>_. mret ()))" for m
    by (intro qm.keeps_rules quiet_journal_call env quiet_bridge_ops)
  have fin: "triple (attempting env s0 (set xen \<union> set xuni) False r0)
     (if xen @ xuni = [] then mret (Stop StepIdle) else mret (Choose (xen @ xuni) window))
     (\<lambda>p. case p of Stop r \<Rightarrow> safe env s0 | Choose es w \<Rightarrow> attempting env s0 (set es) False r0) (safe env s0)"
     for xen xuni window
    by (intro triple_if triple_ret) (auto simp: attempting_safe)
  have fetch2: "triple (attempting env s0 (set xen) False r0)
     (if b then journal_read env (\<lambda>io. bridge_fetch_eligible_of_kind io Xuni t n) else mret [])
     (\<lambda>xuni. attempting env s0 (set xen \<union> set xuni) False r0) (safe env s0)" for xen b t n
    by (intro triple_if fetch sound triple_ret) auto
  have fetch1: "triple (attempting env s0 {} False r0) (journal_read env (\<lambda>io. bridge_fetch_eligible_of_kind io Xen11 t n))
     (\<lambda>xen. attempting env s0 (set xen) False r0) (safe env s0)" for t n
    using fetch[of Xen11 t n "{}" r0] sound by simp
  show ?thesis
    unfolding plan_step_def Let_def
    by (intro attempting_bind[OF qm.keeps_mget lt.keeps_mget] attempting_bind[OF qm.keeps_reads(2) later_reads(2)]
          attempting_bind[OF qm.keeps_if[OF unpark qm.keeps_mret] lt.keeps_if]
          attempting_bind[OF qm.keeps_mmod later_mmod] triple_if triple_bind[OF fetch1] triple_bind[OF fetch2]
          attempting_bind[OF qm.keeps_reads(1) later_reads(1)]
          attempting_bind[OF qm.keeps_breaker_now later_simple(3)] fin later_basic)
       (auto intro!: triple_ret attempting_safe)
qed

lemma submit_due_safe:
  assumes env: "rowid_fresh (e_rowid env)" and wf: "journal_wf (s_journal s)"
  shows "safe env s (snd (submit_due env now s))"
proof -
  obtain res s1 where p: "plan_step env now s = (res, s1)" by fastforce
  from triple_at[OF plan_step_triple[OF env wf] attempting_start, of undefined now]
  have q: "case plan_step env now s of (Inl e, s') \<Rightarrow> safe env s s' | (Inr p, s') \<Rightarrow>
      (case p of Stop r \<Rightarrow> safe env s | Choose es w \<Rightarrow> attempting env s (set es) False undefined) s'"
    by simp
  have upd: "safe env s s1 \<Longrightarrow> safe env s (s1\<lparr> s_breaker := b \<rparr>)" for b
    by (simp add: safe_def)
  have sub: "safe env s (snd (submit_record env now rec (s1\<lparr> s_breaker := b \<rparr>)))"
    if "safe env s s1" "held rec s1" for rec b
  proof -
    have "held rec (s1\<lparr> s_breaker := b \<rparr>)" using that(2) by (simp add: held_def)
    from safe_trans[OF upd[OF that(1)] submit_record_safe[OF env this]] show ?thesis .
  qed
  show ?thesis
  proof (cases res)
    case (Inl e)
    then show ?thesis using q p by (simp add: submit_due_def mbind_def)
  next
    case (Inr plan)
    show ?thesis
    proof (cases plan)
      case (Stop r)
      then show ?thesis using q p Inr by (simp add: submit_due_def mbind_def mret_def)
    next
      case (Choose es w)
      then have h: "safe env s s1" "\<And>r. r \<in> set es \<Longrightarrow> held r s1" using q p Inr by (auto simp: attempting_def)
      show ?thesis using h(1) upd sub[OF h(1) h(2)] p Inr Choose
        by (auto simp: submit_due_def mbind_def mget_def mmod_def mret_def dest: select_next_member
              split: option.splits prod.splits)
    qed
  qed
qed

lemma confirm_step_safe:
  assumes env: "rowid_fresh (e_rowid env)" and wf: "journal_wf (s_journal s)"
  shows "safe env s (snd (confirm_step env s))"
proof -
  let ?f = "\<lambda>t n io. bridge_fetch_awaiting_confirmation io t n"
  have fetch: "triple (attempting env s {} False undefined) (journal_read env (?f t n))
     (\<lambda>rs s'. attempting env s (set rs) False undefined s' \<and> distinct (map r_id rs)) (safe env s)" for t n
  proof -
    have "triple (attempting env s {} False undefined) (journal_read env (?f t n))
       (\<lambda>rs. attempting env s ({} \<union> set rs) False undefined) (safe env s)"
      by (rule fetch_triple[OF env wf]) (use jb.fetch_unconfirmed_sound in blast)
    moreover have "distinct (map r_id rs)"
      if "attempting env s {} False undefined a" "journal_read env (?f t n) a = (Inr rs, b)" for a b rs
    proof -
      have "journal_wf (s_journal a)" using that(1) wf by (simp add: attempting_def safe_def)
      then have "journal_wf (miners_append env a)" using quiet_miners[OF env, of a] by (simp add: quiet_def)
      then show ?thesis using jb.fetch_unconfirmed_distinct that(2) by (auto simp: journal_read_def journal_call_def)
    qed
    ultimately show ?thesis unfolding triple_def by (fastforce split: prod.splits sum.splits)
  qed
  have batch: "triple (\<lambda>s'. attempting env s (set rs) False undefined s' \<and> distinct (map r_id rs))
      (mbind (confirm_batch env rs False) (\<lambda>any. mret (if any then ConfirmRetried else StepIdle)))
      (\<lambda>_. safe env s) (safe env s)" for rs
  proof (cases "distinct (map r_id rs)")
    case True
    then show ?thesis
      by (simp, intro triple_bind[OF confirm_batch_triple[OF env True]] triple_ret)
  qed (simp add: triple_def)
  have "triple (attempting env s {} False undefined) (confirm_step env) (\<lambda>_. safe env s) (safe env s)"
    unfolding confirm_step_def
    by (intro attempting_bind[OF qm.keeps_mget lt.keeps_mget] triple_if
          attempting_bind[OF qm.keeps_reads(2) later_reads(2)] triple_bind[OF fetch batch])
       (auto intro: triple_ret attempting_safe)
  from triple_end[OF this] show ?thesis by (simp add: attempting_start)
qed

lemma safe_same_journal:
  "s_journal s' = s_journal s \<Longrightarrow> s_tick s \<le> s_tick s' \<Longrightarrow> safe env s s'"
  by (auto simp: safe_def)

lemma run_step_safe:
  assumes env: "rowid_fresh (e_rowid env)" and wf: "journal_wf (s_journal s)"
  shows "safe env s (snd (run_step env s))"
proof -
  have wf_after: "safe env s s' \<Longrightarrow> journal_wf (s_journal s')" for s' using wf by (simp add: safe_def)
  obtain r1 s1 where m: "update_margin env s = (r1, s1)" by fastforce
  have s1: "safe env s s1" using safe_margin[OF env] m by (metis keeps_def snd_conv)
  have probe: "safe env s (snd (probe_step env s1))"
    using safe_trans[OF s1] safe_probe[OF env] by (simp add: keeps_def)
  obtain r2 s2 where sub: "submit_step env s1 = (r2, s2)" by fastforce
  have tk: "safe env s (tick s1)" using s1 by (rule safe_trans) (simp add: safe_same_journal)
  have "safe env s (snd (submit_step env s1))"
    using safe_trans[OF tk submit_due_safe[OF env wf_after[OF tk]]] tk
    by (auto simp: submit_step_def mbind_def mget_def mret_def read_mono_def)
  then have s2: "safe env s s2" by (simp add: sub)
  have conf: "safe env s (snd (confirm_step env s2))"
    using safe_trans[OF s2 confirm_step_safe[OF env wf_after[OF s2]]] .
  show ?thesis
    using m s1 probe sub s2 conf
    by (cases r1; cases r2)
       (auto simp: run_step_def mbind_def mget_def mret_def split: prod.splits sum.splits)
qed

lemma run_once_safe:
  assumes env: "rowid_fresh (e_rowid env)" and wf: "journal_wf (s_journal s)"
  shows "safe env s (snd (run_once env s))"
proof -
  have "safe env (s\<lparr> s_events := [] \<rparr>) (snd (run_step env (s\<lparr> s_events := [] \<rparr>)))"
    using wf by (intro run_step_safe env) simp
  then have "safe env s (snd (run_step env (s\<lparr> s_events := [] \<rparr>)))" by (simp add: safe_def)
  then show ?thesis
    by (auto simp: run_once_def Let_def fire_def handle_fatal_def safe_refl split: prod.splits sum.splits)
       (simp_all add: safe_def)
qed

subsection \<open>Everything that happens to the manager\<close>

text \<open>The thread's steps, the difficulty poller (which drops the result of its observation), and
  starts and stops, in any order.\<close>

datatype drive_event = DriveStep | DriveObserve nat | DriveStart | DriveStop

fun drive :: "env \<Rightarrow> manager \<Rightarrow> drive_event \<Rightarrow> manager" where
  "drive env s DriveStep = snd (run_once env s)"
| "drive env s (DriveObserve d) = snd (observe_difficulty env d s)"
| "drive env s DriveStart = start_manager s"
| "drive env s DriveStop = stop_manager s"

lemma drive_safe:
  assumes env: "rowid_fresh (e_rowid env)" and wf: "journal_wf (s_journal s)"
  shows "safe env s (drive env s e)"
proof (cases e)
  case (DriveObserve d)
  then show ?thesis using quiet_later_safe[OF quiet_observe[OF env] later_observe] by (simp add: keeps_def)
next
  case DriveStep
  then show ?thesis using run_once_safe[OF env wf] by simp
qed (simp_all add: start_manager_def stop_manager_def safe_same_journal)

interpretation dr: invariant_system
  "\<lambda>s. rowid_fresh (e_rowid env) \<and> journal_wf (s_journal s)" "drive env" "\<lambda>_. True"
  "\<lambda>s. rowid_fresh (e_rowid env) \<and> journal_wf (s_journal s)" for env
  using drive_safe by unfold_locales (auto simp: safe_def)

lemma drive_run_safe:
  assumes "rowid_fresh (e_rowid env)" "journal_wf (s_journal s)"
  shows "safe env s (run (drive env) s es)"
proof (rule dr.run_ordered[of env "safe env" s es])
  show "\<And>s e. rowid_fresh (e_rowid env) \<and> journal_wf (s_journal s) \<Longrightarrow> True \<Longrightarrow> safe env s (drive env s e)"
    using drive_safe by simp
  show "\<And>a b c. safe env a b \<Longrightarrow> safe env b c \<Longrightarrow> safe env a c" by (rule safe_trans)
qed (use assms in \<open>simp_all add: safe_refl list_all_iff\<close>)

text \<open>C1.  The drain loop never loses a find: over any interleaving of steps, difficulty
  observations, starts and stops, with any answers of the server and the clocks, any database
  failures and any finds appended by the miners meanwhile, the journal keeps its invariant, the
  captured payloads in it only ever grow by new ones at the end, and a find that has reached a
  terminal status stays exactly as it is.\<close>

theorem drain_never_loses_a_find:
  assumes "rowid_fresh (e_rowid env)" "journal_wf (s_journal s)"
  shows "journal_wf (s_journal (run (drive env) s es))
    \<and> (\<exists>new. journal_captures (s_journal (run (drive env) s es)) = journal_captures (s_journal s) @ new)
    \<and> settled_finds (s_journal s) \<subseteq> settled_finds (s_journal (run (drive env) s es))"
  using drive_run_safe[OF assms] assms by (simp add: safe_def)

text \<open>C2.  A find is reported as acknowledged only when the server has proved it: whatever
  happens, a find that is Acked at the end of a history was Acked at its start, or the server
  answered one of the confirmation lookups made meanwhile with a 200 whose body carries the find's
  own key and no hash other than its own.\<close>

theorem acked_only_when_proved:
  assumes "rowid_fresh (e_rowid env)" "journal_wf (s_journal s)"
    and "r \<in> set (journal_view (s_journal (run (drive env) s es)))" "r_status r = Acked"
  shows "(\<exists>r0\<in>set (journal_view (s_journal s)). r_id r0 = r_id r \<and> r_status r0 = Acked)
    \<or> (\<exists>n conf. s_tick s \<le> n \<and> n < s_tick (run (drive env) s es)
          \<and> conf = e_server env n (Confirm (p_key (r_payload r)))
          \<and> transport_ok conf \<and> http_status conf = 200
          \<and> extract_json_field (body conf) ''key'' = Some (p_key (r_payload r))
          \<and> extract_json_field (body conf) ''hash_to_verify'' \<in> {None, Some (p_hash_to_verify (r_payload r))})"
proof -
  have proof_body: "confirmation_matches r b = Confirmed \<Longrightarrow>
      extract_json_field b ''key'' = Some (p_key (r_payload r))
      \<and> extract_json_field b ''hash_to_verify'' \<in> {None, Some (p_hash_to_verify (r_payload r))}" for b
    by (auto simp: confirmation_matches_def split: option.splits if_splits)
  have "(\<exists>r0\<in>set (journal_view (s_journal s)). r_id r0 = r_id r \<and> r_status r0 = Acked)
      \<or> ack_proof env (s_tick s) (s_tick (run (drive env) s es)) r"
    using drive_run_safe[OF assms(1,2), of es] assms unfolding safe_def by blast
  then show ?thesis unfolding ack_proof_def using proof_body by blast
qed

subsection \<open>Frames of a whole step\<close>

text \<open>A relation that time, and every change except to the step's time, the quiesce deadline,
  the configuration and the life-cycle fields, respects, and that arming the quiesce respects,
  is respected by every step and every observation.\<close>

locale step_frame = action_frame +
  fixes env :: env
  assumes frame_tick: "R s (tick s)"
    and frame_inert:
      "s_tick s' = s_tick s \<Longrightarrow> s_quiesce_until_ms s' = s_quiesce_until_ms s \<Longrightarrow> s_cfg s' = s_cfg s \<Longrightarrow>
       s_fatal s' = s_fatal s \<Longrightarrow> s_running s' = s_running s \<Longrightarrow> s_fatal_calls s' = s_fatal_calls s \<Longrightarrow>
       s_fired s' = s_fired s \<Longrightarrow> R s s'"
    and frame_arm: "keeps R (arm_quiesce env)"
begin

lemma keeps_reads: "keeps R (read_mono env)" "keeps R (read_wall env)" "keeps R (read_jitter env)"
  by (simp_all add: keeps_def read_mono_def read_wall_def read_jitter_def frame_tick)

lemma keeps_calls:
  "keeps R (send env req)" "keeps R (send_health_probe env)" "keeps R (journal_call env f)"
  "keeps R (journal_read env g)"
proof -
  have k: "R s (tick (s\<lparr> s_requests := q \<rparr>))" "R s (tick (s\<lparr> s_journal := db \<rparr>))" for s q db
    using frame_trans[OF frame_inert frame_tick, of "s\<lparr> s_requests := q \<rparr>" s]
      frame_trans[OF frame_inert frame_tick, of "s\<lparr> s_journal := db \<rparr>" s] by simp_all
  show "keeps R (send env req)" "keeps R (send_health_probe env)" "keeps R (journal_call env f)"
    "keeps R (journal_read env g)"
    using k by (auto simp: keeps_def send_def send_health_probe_def journal_call_def journal_read_def frame_tick
        split: prod.splits option.splits)
qed

lemma keeps_mmod:
  "(\<And>s. s_tick (f s) = s_tick s \<and> s_quiesce_until_ms (f s) = s_quiesce_until_ms s \<and> s_cfg (f s) = s_cfg s
      \<and> s_fatal (f s) = s_fatal s \<and> s_running (f s) = s_running s \<and> s_fatal_calls (f s) = s_fatal_calls s
      \<and> s_fired (f s) = s_fired s) \<Longrightarrow> keeps R (mmod f)"
  by (simp add: keeps_def mmod_def frame_inert)

lemma keeps_simple:
  "keeps R (push_event e)" "keeps R (bump g)" "keeps R (breaker_now h)" "keeps R (pace k)"
  unfolding push_event_def bump_def breaker_now_def pace_def by (rule keeps_mmod, simp)+

lemmas keeps_basic = keeps_rules keeps_reads keeps_calls keeps_simple frame_arm

lemma keeps_timed: "keeps R (breaker_timed env f)"
  unfolding breaker_timed_def by (intro keeps_basic keeps_mmod) simp

lemma keeps_observe: "keeps R (observe_difficulty env d)"
  unfolding observe_difficulty_def
  by (intro keeps_basic keeps_mmod) (auto split: option.splits)

lemma keeps_hint: "keeps R (record_hint env d)"
  unfolding record_hint_def by (intro keeps_basic keeps_observe)

lemma keeps_track: "keeps R (track_server_date env r)"
  unfolding track_server_date_def by (intro keeps_basic keeps_mmod) simp

lemma keeps_submit_record: "keeps R (submit_record env now rec)"
  unfolding submit_record_def judge_submission_def lookup_confirmation_def settle_outcome_def backoff_time_iso_def
  by (intro keeps_basic keeps_mmod keeps_hint keeps_track keeps_timed) simp

lemma keeps_submit_step: "keeps R (submit_step env)"
  unfolding submit_step_def submit_due_def plan_step_def
  by (intro keeps_basic keeps_mmod keeps_submit_record) simp_all

lemma keeps_confirm_batch: "keeps R (confirm_batch env recs any)"
proof (induction recs arbitrary: any)
  case (Cons rec recs)
  show ?case
    unfolding confirm_batch.simps confirm_record_def judge_confirmation_def backoff_time_iso_def
    by (intro keeps_basic keeps_track Cons)
qed (simp add: keeps_mret)

lemma keeps_run_step: "keeps R (run_step env)"
  unfolding run_step_def confirm_step_def update_margin_def probe_step_def probe_health_def
    probe_difficulty_def handle_difficulty_body_def
  by (intro keeps_basic keeps_mmod keeps_submit_step keeps_confirm_batch keeps_hint keeps_track keeps_timed)
     (auto simp: age_outage_def Let_def)

end

subsection \<open>The fatal-error boundary\<close>

definition same_life :: "manager \<Rightarrow> manager \<Rightarrow> bool" where
  "same_life s s' \<longleftrightarrow>
     s_fatal s' = s_fatal s \<and> s_running s' = s_running s \<and> s_fatal_calls s' = s_fatal_calls s
     \<and> s_fired s' = s_fired s"

interpretation ad: step_frame same_life env for env
proof unfold_locales
  have arm: "same_life s (snd (arm_quiesce env s))" for env s
    by (simp add: arm_quiesce_def mbind_def mget_def mret_def read_mono_def fetch_max_quiesce_def bump_def
        mmod_def tick_def same_life_def Let_def)
  show "keeps same_life (arm_quiesce env)" for env using arm by (simp add: keeps_def)
qed (auto simp: same_life_def tick_def)

lemma run_step_life: "same_life s (snd (run_step env s))"
  using ad.keeps_run_step by (simp add: keeps_def)

text \<open>What a step can do to the life-cycle: nothing, or one fatal call that stops the thread.\<close>

lemma run_once_life:
  assumes "run_once env s = (r, s')" "\<not> s_fatal s"
  shows "s_fatal_calls s' = s_fatal_calls s \<and> \<not> s_fatal s' \<and> s_running s' = s_running s
    \<or> (\<exists>e. s_fatal_calls s' = s_fatal_calls s @ [''submission step: '' @ e]) \<and> s_fatal s' \<and> \<not> s_running s'
        \<and> s_fired s' = s_fired s \<and> r = StepIdle"
proof -
  obtain o1 s1 where r: "run_step env (s\<lparr> s_events := [] \<rparr>) = (o1, s1)" by fastforce
  have "same_life (s\<lparr> s_events := [] \<rparr>) s1" using run_step_life[of "s\<lparr> s_events := [] \<rparr>" env] r by simp
  then show ?thesis using assms r
    by (cases o1) (auto simp: run_once_def same_life_def fire_def handle_fatal_def Let_def)
qed

definition fatal_once :: "manager \<Rightarrow> bool" where
  "fatal_once s \<longleftrightarrow> length (s_fatal_calls s) = (if s_fatal s then 1 else 0)"

interpretation ft: invariant_system
  "\<lambda>s. \<not> s_fatal s \<and> s_fatal_calls s = []" "drive env" "\<lambda>_. True" fatal_once for env
proof unfold_locales
  fix s e assume f: "fatal_once s"
  show "fatal_once (drive env s e)"
  proof (cases e)
    case DriveStep
    obtain r s' where r: "run_once env s = (r, s')" by fastforce
    show ?thesis
    proof (cases "s_fatal s")
      case True
      then show ?thesis using f by (simp add: DriveStep run_once_def)
    next
      case False
      then show ?thesis using run_once_life[OF r False] f r by (auto simp: DriveStep fatal_once_def)
    qed
  next
    case (DriveObserve d)
    then show ?thesis using f ad.keeps_observe[of env d] by (simp add: keeps_def same_life_def fatal_once_def)
  qed (use f in \<open>simp_all add: fatal_once_def start_manager_def stop_manager_def\<close>)
qed (simp add: fatal_once_def)

text \<open>C14.  The fatal boundary: in any history of a fresh manager the fatal callback is called
  exactly once if the manager has failed and never otherwise, and once it has failed a step does
  nothing at all: no request, no journal access, no callback.\<close>

theorem fatal_exactly_once:
  assumes "\<not> s_fatal s0" "s_fatal_calls s0 = []"
  shows "length (s_fatal_calls (run (drive env) s0 es)) = (if s_fatal (run (drive env) s0 es) then 1 else 0)
    \<and> (s_fatal (run (drive env) s0 es) \<longrightarrow>
        run_once env (run (drive env) s0 es) = (StepIdle, run (drive env) s0 es))"
proof -
  have "fatal_once (run (drive env) s0 es)"
    using assms by (intro ft.run_inv ft.init_inv) (simp_all add: list_all_iff)
  then show ?thesis by (simp add: fatal_once_def run_once_def)
qed

text \<open>C15.  A journal error ends the drain: the step that meets it keeps what the database has
  committed, fires none of the callbacks it had queued, reports the error to the fatal callback,
  and the thread's loop ends with it.\<close>

theorem journal_error_stops_the_drain:
  assumes "\<not> s_fatal s" "s_running s" "run_step env (s\<lparr> s_events := [] \<rparr>) = (Inl e, s1)"
  shows "thread_loop env (Suc n) s = snd (run_once env s)
    \<and> s_fatal_calls (snd (run_once env s)) = s_fatal_calls s @ [''submission step: '' @ e]
    \<and> s_fired (snd (run_once env s)) = s_fired s
    \<and> s_journal (snd (run_once env s)) = s_journal s1
    \<and> \<not> s_running (snd (run_once env s))"
proof -
  have l: "same_life (s\<lparr> s_events := [] \<rparr>) s1"
    using run_step_life[of "s\<lparr> s_events := [] \<rparr>" env] assms(3) by simp
  have stopped: "\<not> s_running s' \<Longrightarrow> thread_loop env n s' = s'" for s' by (cases n) simp_all
  show ?thesis using l assms stopped
    by (auto simp: run_once_def same_life_def handle_fatal_def Let_def)
qed

subsection \<open>Bounds\<close>

text \<open>The quiesce deadline only ever comes from a clock reading plus the capped hold.\<close>

definition deadline :: "env \<Rightarrow> manager \<Rightarrow> manager \<Rightarrow> bool" where
  "deadline env s s' \<longleftrightarrow>
     s_tick s \<le> s_tick s' \<and> s_quiesce_until_ms s \<le> s_quiesce_until_ms s' \<and>
     (s_quiesce_until_ms s' = s_quiesce_until_ms s
      \<or> (\<exists>n. s_tick s \<le> n \<and> n < s_tick s'
            \<and> (0 \<le> e_mono env n \<and> e_mono env n < 2 ^ 62 \<longrightarrow>
                 s_quiesce_until_ms s' \<le> e_mono env n + QUIESCE_MAX_MS)))"

lemma arm_quiesce_deadline: "deadline env s (snd (arm_quiesce env s))"
proof -
  define hold where "hold = max 0 (min QUIESCE_MAX_MS (difficulty_quiesce_ms (s_cfg s)))"
  define now where "now = e_mono env (s_tick s)"
  have "0 \<le> hold" "hold \<le> 60000" by (simp_all add: hold_def QUIESCE_MAX_MS_def)
  then have "0 \<le> now \<and> now < 2 ^ 62 \<longrightarrow> wrap_i64 (now + hold) \<le> now + QUIESCE_MAX_MS"
    by (auto simp: wrap_i64_id in_i64_def i64_min_def i64_max_def QUIESCE_MAX_MS_def)
  then have "deadline env s (tick s\<lparr> s_quiesce_until_ms := max (s_quiesce_until_ms s) (wrap_i64 (now + hold)) \<rparr>)"
    by (cases "wrap_i64 (now + hold) \<le> s_quiesce_until_ms s")
       (auto simp: deadline_def now_def max_def intro!: exI[of _ "s_tick s"])
  then show ?thesis
    by (auto simp: arm_quiesce_def mbind_def mget_def mret_def read_mono_def fetch_max_quiesce_def bump_def
        mmod_def Let_def hold_def[symmetric] now_def[symmetric] deadline_def)
qed

lemma deadline_trans: "deadline env a b \<Longrightarrow> deadline env b c \<Longrightarrow> deadline env a c"
  unfolding deadline_def by (metis order_trans less_le_trans)

interpretation dl: step_frame "deadline env" env for env
  by unfold_locales
     (auto simp: keeps_def arm_quiesce_deadline deadline_def[of env s s for s] deadline_def[of _ s "tick s" for s]
        intro: deadline_trans, auto simp: deadline_def)

lemma drive_deadline: "deadline env s (run (drive env) s es)"
proof (induction es arbitrary: s)
  case Nil
  then show ?case by (simp add: dl.frame_refl)
next
  case (Cons e es)
  have same: "s_tick s' = s_tick s \<Longrightarrow> s_quiesce_until_ms s' = s_quiesce_until_ms s \<Longrightarrow> deadline env s s'" for s s'
    by (simp add: deadline_def)
  have "deadline env s (drive env s e)"
  proof (cases e)
    case DriveStep
    have "deadline env (s\<lparr> s_events := [] \<rparr>) (snd (run_step env (s\<lparr> s_events := [] \<rparr>)))"
      using dl.keeps_run_step[of env] by (simp add: keeps_def)
    then show ?thesis unfolding DriveStep
      by (auto simp: run_once_def fire_def handle_fatal_def Let_def deadline_def split: prod.splits sum.splits)
  next
    case (DriveObserve d)
    then show ?thesis using dl.keeps_observe[of env d] by (simp add: keeps_def)
  qed (simp_all add: start_manager_def stop_manager_def same)
  from deadline_trans[OF this Cons.IH] show ?case by simp
qed

text \<open>C20.  A stuck quiesce is not expressible: however often the difficulty changes and whatever
  hold is configured, the pause that is left at any instant not before the clock readings taken so
  far never exceeds \<^verbatim>\<open>QUIESCE_MAX_MS\<close>.\<close>

theorem quiesce_never_sticks:
  assumes "s_quiesce_until_ms s = 0" "now < 2 ^ 62"
    and "\<forall>n < s_tick (run (drive env) s es). 0 \<le> e_mono env n \<and> e_mono env n \<le> now"
    and "0 \<le> now"
  shows "quiesce_remaining_ms now (run (drive env) s es) \<le> QUIESCE_MAX_MS"
proof -
  let ?q = "s_quiesce_until_ms (run (drive env) s es)"
  have pos: "0 \<le> ?q" using drive_deadline[of env s es] assms(1) by (simp add: deadline_def)
  have "?q = 0 \<or> ?q \<le> now + 60000"
    using drive_deadline[of env s es] assms unfolding deadline_def QUIESCE_MAX_MS_def by fastforce
  moreover have "0 \<le> ?q \<Longrightarrow> ?q \<le> now + 60000 \<Longrightarrow> wrap_i64 (?q - now) = ?q - now"
    using assms(2,4) by (intro wrap_i64_id) (simp add: in_i64_def i64_min_def i64_max_def)
  ultimately show ?thesis using pos
    by (auto simp: quiesce_remaining_ms_def QUIESCE_MAX_MS_def)
qed

text \<open>The doubling loop computes the capped power.\<close>

lemma backoff_double_power:
  "0 < delay \<Longrightarrow> delay < 2 ^ 62 \<Longrightarrow> cap < 2 ^ 62 \<Longrightarrow>
   min cap (backoff_double n cap delay) = min cap (delay * 2 ^ n)"
proof (induction n arbitrary: delay)
  case 0
  then show ?case by simp
next
  case (Suc n)
  have w: "wrap_i64 (delay * 2) = delay * 2"
    using Suc.prems by (intro wrap_i64_id) (simp add: in_i64_def i64_min_def i64_max_def)
  show ?case
  proof (cases "delay * 2 < 2 ^ 62 \<and> delay < cap")
    case True
    then show ?thesis using Suc.IH[of "delay * 2"] Suc.prems w by (simp add: mult.assoc)
  next
    case big: False
    have le: "x * 1 \<le> x * 2 ^ k" if "0 < x" for x :: int and k :: nat
      using that by (intro mult_left_mono) simp_all
    show ?thesis
    proof (cases "delay < cap")
      case True
      then have c: "cap \<le> delay * 2" using big Suc.prems by linarith
      then have "backoff_double n cap (delay * 2) = delay * 2" by (cases n) simp_all
      moreover have "cap \<le> delay * 2 ^ Suc n"
        using c le[of "delay * 2" n] Suc.prems unfolding power_Suc mult.assoc[symmetric] by linarith
      ultimately show ?thesis using True w c by simp
    next
      case False
      moreover have "delay \<le> delay * 2 ^ Suc n" using le[of delay "Suc n"] Suc.prems by (simp del: power_Suc)
      ultimately show ?thesis by (simp del: power_Suc)
    qed
  qed
qed

text \<open>Retry spacing: with the server giving no hint the wait before the next attempt of a
  find is exactly the base doubled once per earlier attempt, capped, without wrapping at any
  attempt count; a server's Retry-After replaces the doubling but not the cap.\<close>

theorem backoff_is_capped_doubling:
  assumes "0 < backoff_base_ms cfg" "backoff_base_ms cfg < 2 ^ 62" "backoff_cap_ms cfg < 2 ^ 62"
    and "0 \<le> secs" "secs < 2 ^ 50" "0 \<le> n"
  shows "backoff_delay cfg n None = min (backoff_cap_ms cfg) (backoff_base_ms cfg * 2 ^ nat n)
    \<and> backoff_delay cfg n (Some secs) = min (backoff_cap_ms cfg) (secs * 1000)"
proof -
  have "wrap_i64 (secs * 1000) = secs * 1000"
    using assms(4,5) by (intro wrap_i64_id) (simp add: in_i64_def i64_min_def i64_max_def)
  then show ?thesis using backoff_double_power[OF assms(1-3), of "nat n"]
    by (simp add: backoff_delay_def min.commute)
qed

theorem backoff_is_capped_doubling_witness:
  "backoff_delay default_sub_config 5 None = 64000 \<and> backoff_delay default_sub_config 40 None = 300000
   \<and> backoff_delay default_sub_config 5 (Some 12) = 12000"
  using backoff_is_capped_doubling[of default_sub_config 12 5] backoff_is_capped_doubling[of default_sub_config 12 40]
  by (simp add: default_sub_config_def)

end
