(* ===== verification/Submission_Examples.thy ===== *)
theory Submission_Examples
  imports Submission_Drain
begin

text \<open>
  A concrete manager with a concrete environment: one step confirms its one unconfirmed find.  The
  theorems of the drain loop are applied to it.
\<close>

subsection \<open>A manager at work\<close>

text \<open>A server that confirms every key it is asked about, a clock at 2026-07-18T12:30:00Z, a
  database without failures, and a journal whose one find was accepted but not confirmed yet.\<close>

definition demo_server :: "request \<Rightarrow> transport_result" where
  "demo_server req =
     (case req of
        Confirm k \<Rightarrow> \<lparr> transport_ok = True, http_status = 200, body = ''{\"key\":\"'' @ k @ ''\"}'',
                      retry_after = None, date_header = None, transport_error = [] \<rparr>
      | _ \<Rightarrow> \<lparr> transport_ok = False, http_status = 0, body = [], retry_after = None, date_header = None, transport_error = [] \<rparr>)"

definition demo_env :: env where
  "demo_env =
     \<lparr> e_mono = (\<lambda>n. 1000 + int n), e_wall = (\<lambda>_. 1784377800000), e_jitter = (\<lambda>_. Finite 0),
       e_sql = (\<lambda>_ _. None), e_rowid = next_rowid, e_miners = (\<lambda>_. []),
       e_server = (\<lambda>_. demo_server), e_health = (\<lambda>_. None) \<rparr>"

definition demo_db :: journal_db where
  "demo_db =
     snd (bridge_record_attempt (\<lambda>_. None) 1 (retry_verdict AcceptedUnconfirmed ''accepted'') (Some 200) ''ok''
            None ''2026-07-18T12:00:00Z'' one_find_db)"

definition demo_manager :: manager where
  "demo_manager = manager_new default_sub_config demo_db"

lemma demo_env_fresh: "rowid_fresh (e_rowid demo_env)"
  by (simp add: demo_env_def next_rowid_fresh)

lemma demo_db_wf: "journal_wf (s_journal demo_manager)"
  using jb.record_outcome_captures(1)[OF one_find_db(1)]
  by (simp add: demo_manager_def manager_new_def demo_db_def)

definition demo_row :: sql_row where
  "demo_row =
     attempt_update (retry_verdict AcceptedUnconfirmed ''accepted'') (Some 200) ''ok'' None
       ''2026-07-18T12:00:00Z'' (insert_row 1 sample_find)"

lemma demo_finds: "finds demo_db = [demo_row]"
  by (simp add: demo_db_def demo_row_def bridge_record_attempt_def record_attempt_def one_find_db(2)
      finds_update_where retry_verdict_def count_where_def)

lemma demo_view:
  "row_to_record (\<lambda>_. None) demo_row = Inr (record_of demo_row)" "r_payload (record_of demo_row) = sample_find"
  "q_status demo_row = ''AcceptedUnconfirmed''" "q_next_attempt_at demo_row = None" "q_id demo_row = 1"
  "q_kind demo_row = ''XEN11''" "r_id (record_of demo_row) = 1"
  by code_simp+

lemma demo_fetches:
  "e_sql demo_env n = (\<lambda>_. None)" "s_journal s = demo_db \<Longrightarrow> miners_append demo_env s = demo_db"
  "bridge_fetch_awaiting_confirmation (\<lambda>_. None) t 4 demo_db = Inr [record_of demo_row]"
  "bridge_fetch_eligible_of_kind (\<lambda>_. None) k t m demo_db = Inr []"
  by (simp_all add: demo_env_def miners_append_def bridge_fetch_awaiting_confirmation_def
      fetch_awaiting_confirmation_def bridge_fetch_eligible_of_kind_def fetch_eligible_of_kind_def
      fetch_by_status_def select_rows_def demo_finds demo_view row_due_def sql_limit_def wrap_i64_def)

lemma demo_answers:
  "transport_ok (demo_server (Confirm k))" "http_status (demo_server (Confirm k)) = 200"
  "date_header (demo_server (Confirm k)) = None"
  "confirmation_matches (record_of demo_row) (body (demo_server (Confirm (p_key sample_find)))) = Confirmed"
  by (simp_all add: demo_server_def) code_simp

lemma demo_window: "win_open (xuni_window_at (wrap_i64 1784377800000)) = False"
  by code_simp

lemma demo_fields:
  "s_journal demo_manager = demo_db" "s_cfg demo_manager = default_sub_config"
  "b_state (s_breaker demo_manager) = Closed"  "s_server_offset_ms demo_manager = None"
  "s_quiesce_until_ms demo_manager = 0" "s_next_submit_allowed_ms demo_manager = 0" "s_tick demo_manager = 0"
  "s_fatal demo_manager = False" "s_fatal_calls demo_manager = []" "s_requests demo_manager = []"
  "e_wall demo_env n = 1784377800000" "e_mono demo_env n = 1000 + int n" "e_server demo_env n = demo_server"
  by (simp_all add: demo_manager_def manager_new_def breaker_new_def demo_env_def)

lemmas demo_actions =
  mbind_def mget_def mmod_def mret_def read_mono_def read_wall_def send_def journal_read_def journal_call_def
  tick_def Let_def

lemma margin_off:
  assumes "m_mode (cfg_margin (s_cfg s)) = MarginOff"
  shows "update_margin env s = (Inr (), age_outage (e_mono env (s_tick s)) (tick s))"
proof -
  have "s_cfg (age_outage now (tick s)) = s_cfg s" for now by (simp add: age_outage_def Let_def)
  then show ?thesis using assms
    unfolding update_margin_def mbind_result read_mono_def mmod_def mget_def by (simp add: mret_def Let_def)
qed

lemma demo_margin: "update_margin demo_env demo_manager = (Inr (), tick demo_manager)"
proof -
  have "s_outage_started_ms demo_manager = 0" by (simp add: demo_manager_def manager_new_def)
  then have "age_outage now (tick demo_manager) = tick demo_manager" for now
    by (simp add: age_outage_def demo_fields Let_def) (simp add: tick_def demo_manager_def manager_new_def)
  moreover have "m_mode (cfg_margin (s_cfg demo_manager)) = MarginOff"
    by (simp add: demo_fields default_sub_config_def default_margin_config_def)
  ultimately show ?thesis by (simp add: margin_off)
qed

definition demo_planned :: manager where
  "demo_planned =
     demo_manager\<lparr> s_last_window_open := False, s_journal := demo_db, s_tick := Suc (Suc (Suc (Suc (Suc (Suc 0))))),
       s_breaker := s_breaker demo_manager\<lparr> xuni_pressure := False \<rparr> \<rparr>"

lemma demo_submit: "submit_step demo_env (tick demo_manager) = (Inr StepIdle, demo_planned)"
  by (simp add: demo_planned_def demo_fields submit_step_def submit_due_def plan_step_def demo_actions
      demo_fetches demo_window breaker_now_def set_xuni_pressure_def)

lemma demo_confirm:
  "journal_view (s_journal (snd (confirm_step demo_env demo_planned)))
     = [record_of (attempt_update (retry_verdict Acked ''confirmed via /get_block (retry, body matches key)'')
          (Some 200) (body (demo_server (Confirm (p_key sample_find)))) None (iso_utc 1784377800000) demo_row)]"
  "isl (fst (confirm_step demo_env demo_planned)) = False"
  by (simp_all add: demo_fields demo_answers demo_planned_def confirm_step_def confirm_record_def
      judge_confirmation_def body_check_of_def track_server_date_def push_event_def bump_def retry_verdict_def
      demo_actions demo_fetches default_sub_config_def demo_view bridge_record_attempt_def record_attempt_def
      count_where_def finds_update_where demo_finds http_status_of_def journal_view_def)

definition demo_acked :: find_record where
  "demo_acked =
     attempt_record (retry_verdict Acked ''confirmed via /get_block (retry, body matches key)'')
       (Some 200) (body (demo_server (Confirm (p_key sample_find)))) None (iso_utc 1784377800000)
       (record_of demo_row)"

lemma demo_step: "journal_view (s_journal (snd (run_once demo_env demo_manager))) = [demo_acked]"
proof -
  have "row_wf demo_row" using demo_db_wf demo_finds by (simp add: journal_wf_def demo_fields)
  then have v: "journal_view (s_journal (snd (confirm_step demo_env demo_planned))) = [demo_acked]"
    by (simp add: demo_confirm(1) demo_acked_def record_of_attempt_update)
  have e: "demo_manager\<lparr> s_events := [] \<rparr> = demo_manager" by (simp add: demo_manager_def manager_new_def)
  obtain c s2 where c: "confirm_step demo_env demo_planned = (Inr c, s2)"
    using demo_confirm(2) by (metis Inr_Inl_False isl_def old.sum.exhaust prod.collapse fst_conv)
  have "b_state (s_breaker (tick demo_manager)) = Closed" by (simp add: demo_fields)
  then have "\<exists>x. run_step demo_env demo_manager = (Inr x, s2)"
    using demo_margin demo_submit c by (auto simp: run_step_def mbind_def mget_def mret_def)
  then have "s_journal (snd (run_once demo_env demo_manager)) = s_journal s2"
    using e demo_fields(8) by (auto simp: run_once_def fire_def Let_def)
  then show ?thesis using v c by simp
qed

subsection \<open>The theorems at work\<close>

theorem drain_never_loses_a_find_witness:
  "\<exists>new. journal_captures (s_journal (run (drive demo_env) demo_manager [DriveStart, DriveStep, DriveObserve 900]))
     = [(1, sample_find)] @ new"
proof -
  have "journal_captures (s_journal demo_manager) = [(1, sample_find)]"
    by (simp add: journal_captures_def journal_view_def demo_fields demo_finds capture_of_def demo_view)
  then show ?thesis
    using drain_never_loses_a_find[OF demo_env_fresh demo_db_wf, of "[DriveStart, DriveStep, DriveObserve 900]"]
    by simp
qed

theorem acked_only_when_proved_witness:
  "demo_acked \<in> set (journal_view (s_journal (run (drive demo_env) demo_manager [DriveStep])))
   \<and> (\<exists>n conf. n < s_tick (run (drive demo_env) demo_manager [DriveStep])
        \<and> conf = e_server demo_env n (Confirm (p_key sample_find)) \<and> http_status conf = 200
        \<and> extract_json_field (body conf) ''key'' = Some (p_key sample_find))"
proof -
  have m: "demo_acked \<in> set (journal_view (s_journal (run (drive demo_env) demo_manager [DriveStep])))"
    by (simp add: demo_step)
  have a: "r_status demo_acked = Acked" "r_payload demo_acked = sample_find"
    by (simp_all add: demo_acked_def attempt_record_def retry_verdict_def demo_view)
  have "\<not> (\<exists>r0\<in>set (journal_view (s_journal demo_manager)). r_id r0 = r_id demo_acked \<and> r_status r0 = Acked)"
    using record_of_fields(3)[of demo_row] demo_db_wf
    by (auto simp: journal_view_def demo_fields demo_finds demo_view journal_wf_def)
  then show ?thesis
    using acked_only_when_proved[OF demo_env_fresh demo_db_wf m a(1)] m a(2) by auto
qed

theorem fatal_exactly_once_witness:
  "length (s_fatal_calls (run (drive demo_env) demo_manager [DriveStep, DriveStep])) \<le> 1"
  using fatal_exactly_once[of demo_manager demo_env "[DriveStep, DriveStep]"] by (simp add: demo_fields)

definition broken_env :: env where
  "broken_env = demo_env\<lparr> e_sql := (\<lambda>_ _. Some ''disk I/O error'') \<rparr>"

theorem journal_error_stops_the_drain_witness:
  "\<exists>e. s_fatal_calls (snd (run_once broken_env (start_manager demo_manager))) = [''submission step: '' @ e]
     \<and> \<not> s_running (thread_loop broken_env 7 (start_manager demo_manager))"
proof -
  let ?s = "start_manager demo_manager"
  have "isl (fst (run_step broken_env (?s\<lparr> s_events := [] \<rparr>)))"
    by (simp add: broken_env_def run_step_def update_margin_def submit_step_def submit_due_def plan_step_def
        start_manager_def demo_actions demo_fields default_sub_config_def default_margin_config_def age_outage_def
        demo_window bridge_fetch_eligible_of_kind_def fetch_eligible_of_kind_def fetch_by_status_def sql_call_def)
  then obtain e s1 where "run_step broken_env (?s\<lparr> s_events := [] \<rparr>) = (Inl e, s1)"
    by (metis isl_def prod.collapse)
  from journal_error_stops_the_drain[OF _ _ this, of 6] show ?thesis
    by (auto simp: start_manager_def demo_fields eval_nat_numeral)
qed

theorem open_breaker_sends_only_probes_witness:
  "\<exists>new. s_requests (snd (run_once demo_env
       (demo_manager\<lparr> s_breaker := (s_breaker demo_manager)\<lparr> b_state := Opened \<rparr> \<rparr>))) = new
     \<and> set new \<subseteq> {GetDifficulty, HealthProbe}"
  using open_breaker_sends_only_probes[of
      "demo_manager\<lparr> s_breaker := (s_breaker demo_manager)\<lparr> b_state := Opened \<rparr> \<rparr>" demo_env]
  by (simp add: demo_fields)

theorem quiesce_holds_submissions_witness:
  "Submit sample_find \<notin> set (s_requests (snd (run_once (demo_env\<lparr> e_mono := (\<lambda>_. 1000) \<rparr>)
      (demo_manager\<lparr> s_journal := one_find_db, s_quiesce_until_ms := 6000 \<rparr>))))"
  using quiesce_holds_submissions[of "demo_manager\<lparr> s_journal := one_find_db, s_quiesce_until_ms := 6000 \<rparr>"
      "demo_env\<lparr> e_mono := (\<lambda>_. 1000) \<rparr>"] by (auto simp: demo_fields)

theorem quiesce_never_sticks_witness:
  "quiesce_remaining_ms 1000 (run (drive (demo_env\<lparr> e_mono := (\<lambda>_. 1000) \<rparr>))
     demo_manager [DriveObserve 1000, DriveObserve 900]) \<le> QUIESCE_MAX_MS"
  using quiesce_never_sticks[of demo_manager 1000 "demo_env\<lparr> e_mono := (\<lambda>_. 1000) \<rparr>"
      "[DriveObserve 1000, DriveObserve 900]"] by (simp add: demo_fields)

end
