(* ===== verification/Config.thy ===== *)
theory Config
  imports Clocktime
begin

text \<open>
  \<^verbatim>\<open>treeminer/src/config.rs\<close>: the hand-edited \<^verbatim>\<open>config.txt\<close>.  The \<^verbatim>\<open>BTreeMap\<close> of values is
  its ascending list of entries; the result of reading the file is an argument of \<^verbatim>\<open>load\<close>, and
  \<^verbatim>\<open>save\<close> is the text it writes.  Loading a saved configuration gives it back.
\<close>

subsection \<open>Lines and entries\<close>

text \<open>\<^verbatim>\<open>str::lines\<close>: the line terminator is a newline, optionally preceded by a carriage return;
  a carriage return at the very end of the text stays.\<close>

definition end_line :: "string \<Rightarrow> string" where
  "end_line acc = (case acc of [] \<Rightarrow> [] | c # cs \<Rightarrow> if c = CHR 0x0D then rev cs else rev acc)"

fun lines_from :: "string \<Rightarrow> string \<Rightarrow> string list" where
  "lines_from acc [] = (if acc = [] then [] else [rev acc])"
| "lines_from acc (c # s) =
     (if c = CHR 0x0A then end_line acc # lines_from [] s else lines_from (c # acc) s)"

definition str_lines :: "string \<Rightarrow> string list" where
  "str_lines t = lines_from [] t"

definition is_blank_char :: "char \<Rightarrow> bool" where
  "is_blank_char c \<longleftrightarrow> c = CHR '' '' \<or> c = CHR 0x09"

definition config_trim :: "string \<Rightarrow> string" where
  "config_trim t = rev (dropWhile is_blank_char (rev (dropWhile is_blank_char t)))"

type_synonym config_values = "(string \<times> string) list"

fun config_insert :: "string \<Rightarrow> string \<Rightarrow> config_values \<Rightarrow> config_values" where
  "config_insert k v [] = [(k, v)]"
| "config_insert k v ((k', v') # m) =
     (if k = k' then (k, v) # m
      else if text_le k k' then (k, v) # (k', v') # m
      else (k', v') # config_insert k v m)"

definition config_line :: "string \<Rightarrow> config_values \<Rightarrow> config_values" where
  "config_line line m =
     (case dropWhile (\<lambda>c. c \<noteq> CHR ''='') line of
        [] \<Rightarrow> m
      | _ # value \<Rightarrow>
          config_insert (config_trim (takeWhile (\<lambda>c. c \<noteq> CHR ''='') line)) (config_trim value) m)"

definition config_load :: "string option \<Rightarrow> config_values \<Rightarrow> config_values" where
  "config_load file m =
     (case file of None \<Rightarrow> m | Some text \<Rightarrow> fold config_line (str_lines text) m)"

definition config_get :: "string \<Rightarrow> config_values \<Rightarrow> string" where
  "config_get k m = (case map_of m k of Some v \<Rightarrow> v | None \<Rightarrow> [])"

definition config_set :: "string \<Rightarrow> string \<Rightarrow> config_values \<Rightarrow> config_values" where
  "config_set k v m = config_insert k v m"

definition config_contains :: "string \<Rightarrow> config_values \<Rightarrow> bool" where
  "config_contains k m \<longleftrightarrow> map_of m k \<noteq> None"

definition config_save :: "config_values \<Rightarrow> string" where
  "config_save m = concat (map (\<lambda>(k, v). k @ ''='' @ v @ [CHR 0x0A]) m)"

subsection \<open>Integers\<close>

text \<open>\<^verbatim>\<open>char::is_whitespace\<close> on a byte taken as a character.\<close>

definition byte_is_whitespace :: "char \<Rightarrow> bool" where
  "byte_is_whitespace c \<longleftrightarrow> byte_of c \<in> {9, 10, 11, 12, 13, 32, 133, 160}"

definition stoi :: "string \<Rightarrow> int option" where
  "stoi t =
     (let s = dropWhile byte_is_whitespace t;
          sign = (if s \<noteq> [] \<and> (hd s = CHR ''+'' \<or> hd s = CHR ''-'') then [hd s] else []);
          digits = takeWhile is_ascii_digit (drop (length sign) s)
      in if digits = [] then None else parse_i64 (sign @ digits))"

subsection \<open>What a load produces\<close>

definition keys_ascend :: "config_values \<Rightarrow> bool" where
  "keys_ascend m \<longleftrightarrow> sorted_wrt (\<lambda>a b. text_le (fst a) (fst b) \<and> fst a \<noteq> fst b) m"

definition clean_entry :: "string \<times> string \<Rightarrow> bool" where
  "clean_entry e \<longleftrightarrow>
     CHR ''='' \<notin> set (fst e) \<and> CHR 0x0A \<notin> set (fst e) \<and> CHR 0x0A \<notin> set (snd e)
     \<and> config_trim (fst e) = fst e \<and> config_trim (snd e) = snd e"

definition ends_with_cr :: "string \<Rightarrow> bool" where
  "ends_with_cr v \<longleftrightarrow> v \<noteq> [] \<and> last v = CHR 0x0D"

lemma config_insert_set: "set (config_insert k v m) \<subseteq> insert (k, v) (set m)"
  by (induction k v m rule: config_insert.induct) auto

lemma config_insert_ascends:
  assumes "keys_ascend m"
  shows "keys_ascend (config_insert k v m)"
  using assms
proof (induction k v m rule: config_insert.induct)
  case (2 k v k' v' m)
  have below: "text_le k' (fst e) \<and> k' \<noteq> fst e" if "e \<in> set m" for e
    using 2(2) that by (auto simp: keys_ascend_def)
  consider "k = k'" | "k \<noteq> k'" "text_le k k'" | "k \<noteq> k'" "\<not> text_le k k'" by blast
  then show ?case
  proof cases
    case 2
    then have "text_le k (fst e) \<and> k \<noteq> fst e" if "e \<in> set m" for e
      using below[OF that] text_le_trans text_le_antisym by metis
    then show ?thesis using 2 \<open>keys_ascend ((k', v') # m)\<close> by (auto simp: keys_ascend_def)
  next
    case 3
    then have "text_le k' k" using text_le_total by blast
    then show ?thesis using 3 2 below config_insert_set[of k v m] by (fastforce simp: keys_ascend_def)
  qed (use below 2 in \<open>auto simp: keys_ascend_def\<close>)
qed (simp add: keys_ascend_def)

lemma config_insert_last:
  "list_all (\<lambda>e. text_le (fst e) k \<and> fst e \<noteq> k) m \<Longrightarrow> config_insert k v m = m @ [(k, v)]"
  by (induction m) (auto dest: text_le_antisym)

lemma trim_ends:
  "rev (dropWhile P (rev (dropWhile P t))) = u \<Longrightarrow> u = [] \<or> \<not> P (hd u) \<and> \<not> P (last u)"
proof -
  assume u: "rev (dropWhile P (rev (dropWhile P t))) = u"
  have "\<exists>b. dropWhile P t = u @ b"
    using u takeWhile_dropWhile_id[of P "rev (dropWhile P t)"] by (metis rev_append rev_rev_ident)
  then obtain b where b: "dropWhile P t = u @ b" ..
  have "u \<noteq> [] \<Longrightarrow> \<not> P (hd u)" using b hd_dropWhile[of P t] by (metis append_is_Nil_conv hd_append2)
  moreover have "u \<noteq> [] \<Longrightarrow> \<not> P (last u)"
    using u hd_dropWhile[of P "rev (dropWhile P t)"] by (metis hd_rev rev_is_Nil_conv rev_rev_ident)
  ultimately show ?thesis by blast
qed

lemma trim_fixed: "u = [] \<or> \<not> P (hd u) \<and> \<not> P (last u) \<Longrightarrow> rev (dropWhile P (rev (dropWhile P u))) = u"
  by (metis dropWhile_eq_self_iff hd_rev rev.simps(1) rev_rev_ident)

lemma config_trim_idem [simp]: "config_trim (config_trim t) = config_trim t"
  unfolding config_trim_def by (rule trim_fixed, rule trim_ends, rule refl)

lemma set_config_trim: "set (config_trim t) \<subseteq> set t"
  unfolding config_trim_def by (auto dest!: set_dropWhileD)

lemma lines_from_newline: "CHR 0x0A \<notin> set acc \<Longrightarrow> l \<in> set (lines_from acc s) \<Longrightarrow> CHR 0x0A \<notin> set l"
  by (induction acc s rule: lines_from.induct)
     (auto simp: end_line_def split: if_splits list.splits)

lemma config_line_clean:
  assumes "CHR 0x0A \<notin> set line" "list_all clean_entry m"
  shows "list_all clean_entry (config_line line m)"
proof (cases "dropWhile (\<lambda>c. c \<noteq> CHR ''='') line")
  case (Cons c w)
  have "set w \<subseteq> set line" using Cons set_dropWhileD[of _ "\<lambda>c. c \<noteq> CHR ''=''" line] by auto
  moreover have "CHR ''='' \<notin> set (takeWhile (\<lambda>c. c \<noteq> CHR ''='') line)" by (auto dest: set_takeWhileD)
  moreover have "set (takeWhile (\<lambda>c. c \<noteq> CHR ''='') line) \<subseteq> set line" by (auto dest: set_takeWhileD)
  ultimately have "clean_entry (config_trim (takeWhile (\<lambda>c. c \<noteq> CHR ''='') line), config_trim w)"
    using assms(1) set_config_trim[of w] set_config_trim[of "takeWhile (\<lambda>c. c \<noteq> CHR ''='') line"]
    by (auto simp: clean_entry_def)
  then show ?thesis
    using assms(2) Cons config_insert_set by (fastforce simp: config_line_def list_all_iff)
next
  case Nil
  then have "config_line line m = m" by (simp only: config_line_def list.case)
  then show ?thesis using assms(2) by simp
qed

lemma config_line_ascends: "keys_ascend m \<Longrightarrow> keys_ascend (config_line line m)"
  by (auto simp: config_line_def config_insert_ascends split: list.splits)

lemma config_fold:
  "\<forall>l\<in>set ls. CHR 0x0A \<notin> set l \<Longrightarrow> keys_ascend m \<Longrightarrow> list_all clean_entry m \<Longrightarrow>
   keys_ascend (fold config_line ls m) \<and> list_all clean_entry (fold config_line ls m)"
  by (induction ls arbitrary: m) (auto simp: config_line_clean config_line_ascends)

lemma loaded_clean:
  "keys_ascend (config_load (Some text) [])" "list_all clean_entry (config_load (Some text) [])"
  using config_fold[of "str_lines text" "[]"] lines_from_newline[of "[]"]
  by (auto simp: config_load_def str_lines_def keys_ascend_def)

subsection \<open>Saving and loading\<close>

lemma lines_from_line:
  "CHR 0x0A \<notin> set l \<Longrightarrow> lines_from acc (l @ CHR 0x0A # s) = end_line (rev l @ acc) # lines_from [] s"
  by (induction l arbitrary: acc) auto

lemma end_line_keep: "\<not> ends_with_cr l \<Longrightarrow> end_line (rev l) = l"
  by (auto simp: end_line_def ends_with_cr_def split: list.splits)

lemma saved_lines:
  assumes "\<And>k v. (k, v) \<in> set m \<Longrightarrow> clean_entry (k, v) \<and> \<not> ends_with_cr v"
  shows "str_lines (config_save m) = map (\<lambda>(k, v). k @ CHR ''='' # v) m"
  using assms
proof (induction m)
  case Nil
  then show ?case by (simp add: str_lines_def config_save_def)
next
  case (Cons e m)
  obtain k v where e: "e = (k, v)" by fastforce
  have c: "clean_entry (k, v)" "\<not> ends_with_cr v" using Cons.prems e by auto
  then have n: "CHR 0x0A \<notin> set (k @ CHR ''='' # v)" and cr: "\<not> ends_with_cr (k @ CHR ''='' # v)"
    by (auto simp: clean_entry_def ends_with_cr_def)
  have "str_lines (config_save (e # m)) = end_line (rev (k @ CHR ''='' # v)) # str_lines (config_save m)"
    using lines_from_line[OF n, of "[]" "config_save m"] by (simp add: str_lines_def config_save_def e)
  moreover have "str_lines (config_save m) = map (\<lambda>(k, v). k @ CHR ''='' # v) m"
    by (rule Cons.IH) (use Cons.prems in auto)
  ultimately show ?case using end_line_keep[OF cr] by (simp add: e)
qed

lemma config_line_entry:
  assumes "clean_entry (k, v)"
  shows "config_line (k @ CHR ''='' # v) m = config_insert k v m"
proof -
  have "\<And>c. c \<in> set k \<Longrightarrow> c \<noteq> CHR ''=''" using assms by (auto simp: clean_entry_def)
  then show ?thesis using assms
    by (simp add: config_line_def dropWhile_append2 takeWhile_append2 clean_entry_def)
qed

lemma fold_entries:
  assumes "keys_ascend (done @ m)" "list_all clean_entry m"
  shows "fold config_line (map (\<lambda>(k, v). k @ CHR ''='' # v) m) done = done @ m"
  using assms
proof (induction m arbitrary: "done")
  case (Cons e m)
  obtain k v where e: "e = (k, v)" by fastforce
  have "list_all (\<lambda>x. text_le (fst x) k \<and> fst x \<noteq> k) done"
    using Cons.prems(1) by (auto simp: keys_ascend_def sorted_wrt_append list_all_iff e)
  then have "config_insert k v done = done @ [e]" using config_insert_last e by simp
  then show ?case using Cons.IH[of "done @ [e]"] Cons.prems
    by (simp add: e config_line_entry)
qed simp

text \<open>An entry a line of the file can hold.\<close>

definition storable :: "string \<times> string \<Rightarrow> bool" where
  "storable e \<longleftrightarrow> clean_entry e \<and> \<not> ends_with_cr (snd e)"

lemma save_load:
  assumes "keys_ascend m" "list_all storable m"
  shows "config_load (Some (config_save m)) [] = m"
proof -
  have "str_lines (config_save m) = map (\<lambda>(k, v). k @ CHR ''='' # v) m"
    using assms(2) by (intro saved_lines) (auto simp: list_all_iff storable_def)
  then show ?thesis
    using fold_entries[of "[]" m] assms by (simp add: config_load_def storable_def list_all_iff)
qed

lemma loaded_ascends: "keys_ascend (config_load t [])" "list_all clean_entry (config_load t [])"
  using loaded_clean by (cases t; simp add: config_load_def keys_ascend_def)+

lemma config_insert_map:
  "keys_ascend m \<Longrightarrow> map_of (config_insert k v m) = (map_of m)(k \<mapsto> v)"
  by (induction k v m rule: config_insert.induct) (auto simp: keys_ascend_def)

lemma config_sets:
  assumes "keys_ascend m" "list_all storable m" "list_all storable sets"
  shows "keys_ascend (fold (\<lambda>(k, v). config_set k v) sets m) \<and> list_all storable (fold (\<lambda>(k, v). config_set k v) sets m)
    \<and> map_of (fold (\<lambda>(k, v). config_set k v) sets m) = map_of m ++ map_of (rev sets)"
  using assms
proof (induction sets arbitrary: m)
  case (Cons e sets)
  obtain k v where e: "e = (k, v)" by fastforce
  have "list_all storable (config_insert k v m)"
    using Cons.prems config_insert_set[of k v m] by (auto simp: list_all_iff e)
  then show ?case
    using Cons.IH[of "config_insert k v m"] Cons.prems config_insert_ascends[of m k v] config_insert_map[of m k v]
    by (simp add: e config_set_def fun_eq_iff map_add_def split: option.splits)
qed simp

text \<open>C39.  A configuration survives being written.  Take what a start read from its file (or nothing) and
  put any entries into it with \<^verbatim>\<open>set\<close>: writing the result and loading the file again gives the same
  configuration, in which every key has the value set last, or else the value loaded.  The entries set
  must be such that a line of the file can hold them: trimmed, without a newline, the key without an
  equals sign and the value not ending in a carriage return; of the loaded ones only the last is
  required, as loading gives the others (an unterminated last line can leave a carriage return).\<close>

theorem config_reload:
  assumes "list_all storable sets" "\<forall>(k, v)\<in>set (config_load t []). \<not> ends_with_cr v"
    and "m = fold (\<lambda>(k, v). config_set k v) sets (config_load t [])"
  shows "config_load (Some (config_save m)) [] = m
    \<and> config_get k (config_load (Some (config_save m)) []) = (case map_of (rev sets) k of Some v \<Rightarrow> v | None \<Rightarrow> config_get k (config_load t []))"
proof -
  have "list_all storable (config_load t [])" using assms(2) loaded_ascends(2)[of t] by (auto simp: list_all_iff storable_def)
  note s = config_sets[OF loaded_ascends(1) this assms(1), folded assms(3)]
  then have "config_load (Some (config_save m)) [] = m" by (intro save_load) simp_all
  then show ?thesis using s by (auto simp: config_get_def map_add_def split: option.splits)
qed

theorem config_reload_witness:
  "config_load (Some (config_save (config_set ''x'' ''2'' (config_set ''account'' ''0xab''
       (config_load (Some (''rpc = http://h/a=b'' @ [CHR 0x0A] @ ''x=1'')) []))))) []
     = [(''account'', ''0xab''), (''rpc'', ''http://h/a=b''), (''x'', ''2'')]"
proof -
  have l: "config_load (Some (''rpc = http://h/a=b'' @ [CHR 0x0A] @ ''x=1'')) []
      = [(''rpc'', ''http://h/a=b''), (''x'', ''1'')]" by code_simp
  have s: "config_set ''x'' ''2'' (config_set ''account'' ''0xab'' [(''rpc'', ''http://h/a=b''), (''x'', ''1'')])
      = [(''account'', ''0xab''), (''rpc'', ''http://h/a=b''), (''x'', ''2'')]" by code_simp
  have "storable (''account'', ''0xab'')" "storable (''x'', ''2'')" by code_simp+
  then show ?thesis
    using config_reload[of "[(''account'', ''0xab''), (''x'', ''2'')]" "Some (''rpc = http://h/a=b'' @ [CHR 0x0A] @ ''x=1'')", OF _ _ refl] s
    unfolding l by (simp add: ends_with_cr_def)
qed

lemma takeWhile_digits:
  "rest = [] \<or> \<not> is_ascii_digit (hd rest) \<Longrightarrow> takeWhile is_ascii_digit (show_nat n @ rest) = show_nat n"
  using show_nat_digits[of _ n] by (cases rest) (auto simp: takeWhile_append2)

lemma parse_digits_show [simp]: "parse_digits (show_nat n) = Some n"
  using show_nat_digits[of _ n] by (auto simp: parse_digits_def list_all_iff simp del: show_nat.simps)

lemma hd_show_nat: "is_ascii_digit (hd (show_nat n))"
  using show_nat_digits[of "hd (show_nat n)" n] by (simp del: show_nat.simps)

lemma digit_not_sign: "is_ascii_digit c \<Longrightarrow> c \<noteq> CHR ''+'' \<and> c \<noteq> CHR ''-'' \<and> \<not> byte_is_whitespace c"
  by (auto simp: ascii_simps byte_is_whitespace_def)

lemma stoi_prefix:
  assumes "list_all byte_is_whitespace ws" "rest = [] \<or> \<not> is_ascii_digit (hd rest)"
  shows "stoi (ws @ show_int n @ rest) = (if in_i64 n then Some n else None)"
proof -
  have drop: "dropWhile byte_is_whitespace (ws @ c # t) = c # t" if "\<not> byte_is_whitespace c" for c t
    using assms(1) that by (simp add: dropWhile_append list_all_iff)
  show ?thesis
  proof (cases "n < 0")
    case True
    define k where "k = nat (- n)"
    have k: "n = - int k" "0 < k" using True by (simp_all add: k_def)
    have "dropWhile byte_is_whitespace (ws @ show_int n @ rest) = CHR ''-'' # show_nat k @ rest"
      using drop[of "CHR ''-''" "show_nat k @ rest"] True
      by (simp add: show_int_def k_def byte_is_whitespace_def ascii_simps del: show_nat.simps)
    then have "stoi (ws @ show_int n @ rest) = parse_i64 (CHR ''-'' # show_nat k)"
      using takeWhile_digits[OF assms(2)] by (simp add: stoi_def Let_def del: show_nat.simps)
    also have "\<dots> = (if in_i64 n then Some n else None)"
      using k by (simp add: parse_i64_def in_i64_def i64_min_def i64_max_def del: show_nat.simps)
    finally show ?thesis .
  next
    case False
    define k where "k = nat n"
    have k: "n = int k" using False by (simp add: k_def)
    obtain c t where ct: "show_nat k = c # t" using show_nat_nonempty by (metis neq_Nil_conv)
    then have c: "is_ascii_digit c" using hd_show_nat[of k] by simp
    have "dropWhile byte_is_whitespace (ws @ show_int n @ rest) = show_nat k @ rest"
      using drop[of c "t @ rest"] ct False digit_not_sign[OF c] by (simp add: show_int_def k_def)
    then have "stoi (ws @ show_int n @ rest) = parse_i64 (show_nat k)"
      using takeWhile_digits[OF assms(2), of k] digit_not_sign[OF c] ct by (simp add: stoi_def Let_def)
    also have "\<dots> = (if in_i64 n then Some n else None)"
    proof -
      have "parse_i64 (show_nat k) = (if k < 2 ^ 63 then Some (int k) else None)"
        using digit_not_sign[OF hd_show_nat[of k]] by (simp add: parse_i64_def del: show_nat.simps)
      then show ?thesis using k by (simp add: in_i64_def i64_min_def i64_max_def)
    qed
    finally show ?thesis .
  qed
qed

text \<open>Integers in the configuration parse as the longest prefix: leading white space, an
  optional sign and the digits are taken and whatever follows is ignored, exactly for the values
  of the 64-bit range.\<close>

theorem stoi_reads_prefix:
  assumes "list_all byte_is_whitespace ws" "rest = [] \<or> \<not> is_ascii_digit (hd rest)"
  shows "stoi (ws @ show_int n @ rest) = (if in_i64 n then Some n else None)"
  by (rule stoi_prefix[OF assms])

theorem stoi_reads_prefix_witness: "stoi ''  -7 # kib'' = Some (- 7)"
proof -
  have "show_int (- 7) = ''-7''" by code_simp
  then show ?thesis using stoi_reads_prefix[of "''  ''" "'' # kib''" "- 7"]
    by (simp add: byte_is_whitespace_def ascii_simps in_i64_def i64_min_def i64_max_def)
qed

text \<open>Against the comment on \<^verbatim>\<open>trim\<close>, a carriage return before a newline does not survive:
  the line iterator has already removed it, so a file with CRLF line ends loads without them, while
  one at the very end of the file is kept.\<close>

theorem crlf_is_dropped:
  "config_get ''account'' (config_load (Some (''account=0xabc'' @ [CHR 0x0D, CHR 0x0A])) []) = ''0xabc''
   \<and> config_get ''account'' (config_load (Some (''account=0xabc'' @ [CHR 0x0D])) []) = ''0xabc'' @ [CHR 0x0D]"
  by code_simp

end
