(* ===== verification/Difficulty.thy ===== *)
theory Difficulty
  imports Config Submission
begin

text \<open>
  \<^verbatim>\<open>treeminer/src/difficulty.rs\<close>: the poller of the network's difficulty, the cell the miners
  read, and the cache file that seeds the next run.  A response of the server and the outcome of
  the file operations of one poll are its inputs; a write that fails may leave any text behind.
  Console output is not modelled, nor the sleeping between two polls.
\<close>

subsection \<open>The cache file\<close>

definition POOL_DOWN_FAILURE_THRESHOLD :: nat where "POOL_DOWN_FAILURE_THRESHOLD = 3"
definition FALLBACK_DIFFICULTY :: nat where "FALLBACK_DIFFICULTY = 42069"
definition MIN_DIFFICULTY :: int where "MIN_DIFFICULTY = 1"
definition MAX_DIFFICULTY :: int where "MAX_DIFFICULTY = 100000000"

definition in_difficulty_range :: "int \<Rightarrow> bool" where
  "in_difficulty_range v \<longleftrightarrow> MIN_DIFFICULTY \<le> v \<and> v \<le> MAX_DIFFICULTY"

text \<open>The argument is what reading the file returns: \<^const>\<open>None\<close> for any error.\<close>

definition load_cached_difficulty :: "string option \<Rightarrow> nat option" where
  "load_cached_difficulty file =
     (case file of
        None \<Rightarrow> None
      | Some txt \<Rightarrow>
          (case stoi txt of
             None \<Rightarrow> None
           | Some v \<Rightarrow> if \<not> in_difficulty_range v then None else Some (nat v)))"

record cache_files =
  cache_file :: "string option"
  cache_tmp :: "string option"

datatype write_outcome = WriteOk | WriteFailed "string option"

record cache_io =
  io_write :: write_outcome
  io_rename :: bool
  io_remove :: bool

definition persist_difficulty :: "cache_io \<Rightarrow> nat \<Rightarrow> cache_files \<Rightarrow> cache_files" where
  "persist_difficulty io difficulty fs =
     (let remove_tmp = (\<lambda>f. if io_remove io then f\<lparr> cache_tmp := None \<rparr> else f)
      in case io_write io of
           WriteFailed left \<Rightarrow> remove_tmp (fs\<lparr> cache_tmp := left \<rparr>)
         | WriteOk \<Rightarrow>
             (let written = show_nat difficulty @ [CHR 0x0A];
                  fs1 = fs\<lparr> cache_tmp := Some written \<rparr>
              in if io_rename io then fs1\<lparr> cache_file := Some written, cache_tmp := None \<rparr>
                 else remove_tmp fs1))"

definition seed_initial_difficulty :: "string option \<Rightarrow> nat \<times> string option" where
  "seed_initial_difficulty file =
     (case load_cached_difficulty file of
        Some cached \<Rightarrow> (cached, Some (''seeded from cache | current='' @ show_nat cached))
      | None \<Rightarrow> (FALLBACK_DIFFICULTY, None))"

subsection \<open>The poller\<close>

record difficulty_shared =
  ds_difficulty :: nat
  ds_endpoint_down :: bool

datatype poll_outcome = PollUpdated nat bool | PollFailed nat string

record poller =
  pl_shared :: difficulty_shared
  pl_files :: cache_files
  pl_consecutive_failures :: nat
  pl_observed :: "nat list"

definition fetch_difficulty :: "transport_result \<Rightarrow> string + nat" where
  "fetch_difficulty response =
     (if \<not> transport_ok response then Inl (''Error: '' @ transport_error response)
      else if http_status response \<noteq> 200 then
        Inl (''Error: Failed to get the difficulty: HTTP status code '' @ show_int (http_status response))
      else
        (case extract_json_field (body response) ''difficulty'' of
           None \<Rightarrow> Inl (''JSON parsing error: no '' @ [CHR 0x27] @ ''difficulty'' @ [CHR 0x27] @ '' field in the response'')
         | Some field \<Rightarrow>
             (case stoi field of
                None \<Rightarrow> Inl (''Error: difficulty '' @ [CHR 0x27] @ field @ [CHR 0x27] @ '' is not a number'')
              | Some v \<Rightarrow>
                  if \<not> in_difficulty_range v
                  then Inl (''Error: difficulty '' @ [CHR 0x27] @ field @ [CHR 0x27] @ '' is out of range'')
                  else Inr (nat v))))"

definition poll_once :: "cache_io \<Rightarrow> transport_result \<Rightarrow> poller \<Rightarrow> poll_outcome \<times> poller" where
  "poll_once io response p =
     (case fetch_difficulty response of
        Inl error \<Rightarrow>
          (let failures = (pl_consecutive_failures p + 1) mod 2 ^ 32;
               p1 = p\<lparr> pl_consecutive_failures := failures \<rparr>;
               p2 = (if failures = POOL_DOWN_FAILURE_THRESHOLD
                     then p1\<lparr> pl_shared := (pl_shared p1)\<lparr> ds_endpoint_down := True \<rparr> \<rparr> else p1)
           in (PollFailed failures error, p2))
      | Inr sample \<Rightarrow>
          (let changed = (ds_difficulty (pl_shared p) \<noteq> sample);
               p1 = (if changed then p\<lparr> pl_shared := (pl_shared p)\<lparr> ds_difficulty := sample \<rparr> \<rparr> else p);
               p2 = p1\<lparr> pl_observed := pl_observed p1 @ [sample] \<rparr>;
               p3 = p2\<lparr> pl_files := persist_difficulty io sample (pl_files p2) \<rparr>;
               p4 = (if 0 < pl_consecutive_failures p3
                     then p3\<lparr> pl_consecutive_failures := 0,
                             pl_shared := (pl_shared p3)\<lparr> ds_endpoint_down := False \<rparr> \<rparr>
                     else p3)
           in (PollUpdated sample changed, p4)))"

definition poller_new :: "cache_files \<Rightarrow> nat \<Rightarrow> poller" where
  "poller_new fs initial =
     \<lparr> pl_shared = \<lparr> ds_difficulty = initial, ds_endpoint_down = False \<rparr>, pl_files = fs,
       pl_consecutive_failures = 0, pl_observed = [] \<rparr>"

text \<open>\<^verbatim>\<open>DifficultyHandle::spawn\<close> polls once on the calling thread and then from the background
  thread, which repeats until it is stopped: a run over the answers it gets.\<close>

definition poll_step :: "poller \<Rightarrow> cache_io \<times> transport_result \<Rightarrow> poller" where
  "poll_step p e = snd (poll_once (fst e) (snd e) p)"

definition difficulty_handle :: "cache_files \<Rightarrow> nat \<Rightarrow> (cache_io \<times> transport_result) list \<Rightarrow> poller" where
  "difficulty_handle fs initial es = run poll_step (poller_new fs initial) es"

subsection \<open>What the history of answers determines\<close>

definition sample_of :: "cache_io \<times> transport_result \<Rightarrow> nat option" where
  "sample_of e = (case fetch_difficulty (snd e) of Inr n \<Rightarrow> Some n | Inl _ \<Rightarrow> None)"

definition samples :: "(cache_io \<times> transport_result) list \<Rightarrow> nat list" where
  "samples es = List.map_filter sample_of es"

definition trailing_failures :: "(cache_io \<times> transport_result) list \<Rightarrow> nat" where
  "trailing_failures es = length (takeWhile (\<lambda>e. sample_of e = None) (rev es))"

lemma samples_snoc: "samples (es @ [e]) = samples es @ (case sample_of e of None \<Rightarrow> [] | Some n \<Rightarrow> [n])"
  by (simp add: samples_def map_filter_def split: option.splits)

lemma trailing_snoc: "trailing_failures (es @ [e]) = (if sample_of e = None then Suc (trailing_failures es) else 0)"
  by (simp add: trailing_failures_def)

lemma trailing_le: "trailing_failures es \<le> length es"
  unfolding trailing_failures_def using length_takeWhile_le[of _ "rev es"] by simp

definition tracks :: "nat \<Rightarrow> (cache_io \<times> transport_result) list \<Rightarrow> poller \<Rightarrow> bool" where
  "tracks initial es p \<longleftrightarrow>
     ds_difficulty (pl_shared p) = last (initial # samples es)
     \<and> pl_consecutive_failures p = trailing_failures es
     \<and> ds_endpoint_down (pl_shared p) = (POOL_DOWN_FAILURE_THRESHOLD \<le> trailing_failures es)
     \<and> pl_observed p = samples es"

lemma tracks_step:
  assumes t: "tracks initial es p" and n: "length es < 2 ^ 32 - 1"
  shows "tracks initial (es @ [e]) (poll_step p e)"
proof -
  have m: "Suc (trailing_failures es) mod 2 ^ 32 = Suc (trailing_failures es)"
    using trailing_le[of es] n by simp
  show ?thesis
  proof (cases "fetch_difficulty (snd e)")
    case (Inl err)
    then have "sample_of e = None" by (simp add: sample_of_def)
    then show ?thesis using t m Inl
      by (auto simp: tracks_def poll_step_def poll_once_def Let_def samples_snoc trailing_snoc
          POOL_DOWN_FAILURE_THRESHOLD_def)
  next
    case (Inr s)
    then have "sample_of e = Some s" by (simp add: sample_of_def)
    then show ?thesis using t Inr
      by (auto simp: tracks_def poll_step_def poll_once_def Let_def samples_snoc trailing_snoc
          POOL_DOWN_FAILURE_THRESHOLD_def)
  qed
qed

lemma difficulty_handle_snoc: "difficulty_handle fs i (es @ [e]) = poll_step (difficulty_handle fs i es) e"
  by (simp add: difficulty_handle_def)

text \<open>C37.  The difficulty cell and the health flag are determined by the answers: after any
  number of polls the miners read the last valid sample, or the seed if there was none; the
  endpoint is reported down exactly when the last three or more polls all failed; and the observer
  saw exactly the valid samples, in order.  No failure ever changes the difficulty.\<close>

theorem poller_tracks_history:
  assumes "length es < 2 ^ 32"
  shows "ds_difficulty (pl_shared (difficulty_handle fs initial es)) = last (initial # samples es)
    \<and> ds_endpoint_down (pl_shared (difficulty_handle fs initial es)) = (3 \<le> trailing_failures es)
    \<and> pl_observed (difficulty_handle fs initial es) = samples es"
proof -
  have "tracks initial es (difficulty_handle fs initial es)"
    using assms
  proof (induction es rule: rev_induct)
    case Nil
    then show ?case
      by (simp add: tracks_def difficulty_handle_def poller_new_def samples_def map_filter_def
          trailing_failures_def POOL_DOWN_FAILURE_THRESHOLD_def)
  next
    case (snoc e es)
    then show ?case unfolding difficulty_handle_snoc by (intro tracks_step) simp_all
  qed
  then show ?thesis by (simp add: tracks_def POOL_DOWN_FAILURE_THRESHOLD_def)
qed

definition demo_poll :: "string \<Rightarrow> cache_io \<times> transport_result" where
  "demo_poll b =
     (\<lparr> io_write = WriteOk, io_rename = True, io_remove = True \<rparr>,
      \<lparr> transport_ok = True, http_status = 200, body = b, retry_after = None, date_header = None,
        transport_error = [] \<rparr>)"

lemma demo_samples:
  "sample_of (demo_poll ''{\"difficulty\":\"1500\"}'') = Some 1500" "sample_of (demo_poll ''oops'') = None"
proof -
  have f: "extract_json_field ''{\"difficulty\":\"1500\"}'' ''difficulty'' = Some ''1500''"
    "extract_json_field ''oops'' ''difficulty'' = None" by code_simp+
  have "show_nat 1500 = ''1500''" by (simp add: show_nat.simps digit_char_def) code_simp
  then have "stoi ''1500'' = Some 1500"
    using stoi_prefix[of "[]" "[]" 1500] by (simp add: show_int_def in_i64_def i64_min_def i64_max_def)
  then show "sample_of (demo_poll ''{\"difficulty\":\"1500\"}'') = Some 1500" "sample_of (demo_poll ''oops'') = None"
    using f by (simp_all add: sample_of_def fetch_difficulty_def demo_poll_def in_difficulty_range_def
        MIN_DIFFICULTY_def MAX_DIFFICULTY_def)
qed

theorem poller_tracks_history_witness:
  "ds_difficulty (pl_shared (difficulty_handle \<lparr> cache_file = None, cache_tmp = None \<rparr> 42069
      [demo_poll ''{\"difficulty\":\"1500\"}'', demo_poll ''oops''])) = 1500"
proof -
  have s: "samples [demo_poll ''{\"difficulty\":\"1500\"}'', demo_poll ''oops''] = [1500]"
    by (simp add: samples_def map_filter_def demo_samples)
  show ?thesis
    using poller_tracks_history[of "[demo_poll ''{\"difficulty\":\"1500\"}'', demo_poll ''oops'']"] s by simp
qed

subsection \<open>The cache\<close>

lemma sample_range: "sample_of e = Some n \<Longrightarrow> 1 \<le> n \<and> n \<le> 100000000"
  by (auto simp: sample_of_def fetch_difficulty_def in_difficulty_range_def MIN_DIFFICULTY_def
      MAX_DIFFICULTY_def split: if_splits option.splits sum.splits)

lemma load_persisted:
  assumes "1 \<le> n" "n \<le> 100000000"
  shows "load_cached_difficulty (Some (show_nat n @ [CHR 0x0A])) = Some n"
proof -
  have "stoi (show_nat n @ [CHR 0x0A]) = Some (int n)"
    using stoi_prefix[of "[]" "[CHR 0x0A]" "int n"] assms
    by (simp add: show_int_def ascii_simps in_i64_def i64_min_def i64_max_def)
  then show ?thesis using assms
    by (simp add: load_cached_difficulty_def in_difficulty_range_def MIN_DIFFICULTY_def MAX_DIFFICULTY_def)
qed

text \<open>C38.  The cache is never torn: whatever the file system does during any number of polls --
  partial writes, failed renames, failed removals -- the cache file afterwards is the one there
  was before, or loads as one of the samples that were polled, so the next run never starts from a
  difficulty nobody announced.  A poll whose file operations succeed is the one cached.\<close>

theorem cache_is_never_torn:
  "(cache_file (pl_files (difficulty_handle fs initial es)) = cache_file fs
     \<or> load_cached_difficulty (cache_file (pl_files (difficulty_handle fs initial es))) \<in> Some ` set (samples es))
   \<and> (sample_of e \<noteq> None \<and> io_write (fst e) = WriteOk \<and> io_rename (fst e) \<longrightarrow>
        load_cached_difficulty (cache_file (pl_files (difficulty_handle fs initial (es @ [e])))) = sample_of e)"
proof -
  have step: "(if sample_of e \<noteq> None \<and> io_write (fst e) = WriteOk \<and> io_rename (fst e)
      then load_cached_difficulty (cache_file (pl_files (poll_step p e))) = sample_of e
      else cache_file (pl_files (poll_step p e)) = cache_file (pl_files p))" for p e
  proof (cases "fetch_difficulty (snd e)")
    case (Inl err)
    then show ?thesis by (simp add: sample_of_def poll_step_def poll_once_def Let_def)
  next
    case (Inr s)
    then have s: "sample_of e = Some s" by (simp add: sample_of_def)
    have "cache_file (pl_files (poll_step p e)) = cache_file (persist_difficulty (fst e) s (pl_files p))"
      using Inr by (simp add: poll_step_def poll_once_def Let_def)
    then show ?thesis using s load_persisted sample_range[OF s]
      by (simp add: persist_difficulty_def Let_def split: write_outcome.splits)
  qed
  have "cache_file (pl_files (difficulty_handle fs initial es)) = cache_file fs
     \<or> load_cached_difficulty (cache_file (pl_files (difficulty_handle fs initial es))) \<in> Some ` set (samples es)"
  proof (induction es rule: rev_induct)
    case Nil
    then show ?case by (simp add: difficulty_handle_def poller_new_def)
  next
    case (snoc e es)
    then show ?case using step[of e "difficulty_handle fs initial es"]
      unfolding difficulty_handle_snoc samples_snoc by (auto split: if_splits option.splits)
  qed
  then show ?thesis using step[of e "difficulty_handle fs initial es"] unfolding difficulty_handle_snoc by simp
qed

theorem cache_is_never_torn_witness:
  "load_cached_difficulty (cache_file (pl_files (difficulty_handle \<lparr> cache_file = Some ''77'', cache_tmp = None \<rparr> 77
      [demo_poll ''{\"difficulty\":\"1500\"}'']))) = Some 1500"
proof -
  have io: "io_write (fst (demo_poll b)) = WriteOk" "io_rename (fst (demo_poll b))" for b
    by (simp_all add: demo_poll_def)
  show ?thesis
    using cache_is_never_torn[of "\<lparr> cache_file = Some ''77'', cache_tmp = None \<rparr>" 77 "[]"
        "demo_poll ''{\"difficulty\":\"1500\"}''"] demo_samples(1) io by simp
qed

end
