(* ===== verification/Mining_State.thy ===== *)
theory Mining_State
  imports Difficulty Core_Encoding
begin

text \<open>
  \<^verbatim>\<open>treeminer/src/state.rs\<close> with the rows of \<^verbatim>\<open>tm-dashboard/src/stats.rs\<close> it holds: the counters,
  gauges and per-device verdicts of a running miner.  The atomics and the mutexed cells are the
  fields of one record; each is written by one operation at a time.  A \<^verbatim>\<open>BTreeMap\<close> is the list of
  its entries in key order.  Instants are milliseconds of the monotonic clock and come as arguments.
  A \<^verbatim>\<open>f32\<close> is held as the binary64 value it denotes.
\<close>

subsection \<open>Ordered maps\<close>

fun btree_insert :: "'k::linorder \<Rightarrow> 'v \<Rightarrow> ('k \<times> 'v) list \<Rightarrow> ('k \<times> 'v) list" where
  "btree_insert k v [] = [(k, v)]"
| "btree_insert k v ((k', v') # m) =
     (if k < k' then (k, v) # (k', v') # m else if k = k' then (k, v) # m else (k', v') # btree_insert k v m)"

definition ascending :: "('k::linorder \<times> 'v) list \<Rightarrow> bool" where
  "ascending m \<longleftrightarrow> sorted_wrt (<) (map fst m)"

lemma btree_insert_keys: "fst ` set (btree_insert k v m) = insert k (fst ` set m)"
  by (induction k v m rule: btree_insert.induct) auto

lemma btree_insert_ascending: "ascending m \<Longrightarrow> ascending (btree_insert k v m)"
proof (induction k v m rule: btree_insert.induct)
  case (2 k v k' v' m)
  have "x \<in> fst ` set (btree_insert k v m) \<Longrightarrow> x = k \<or> x \<in> fst ` set m" for x
    using btree_insert_keys[of k v m] by auto
  then show ?case using 2 by (fastforce simp: ascending_def)
qed (simp add: ascending_def)

lemma btree_insert_lookup: "ascending m \<Longrightarrow> map_of (btree_insert k v m) = (map_of m)(k \<mapsto> v)"
proof (induction k v m rule: btree_insert.induct)
  case (2 k v k' v' m)
  then show ?case by (auto simp: ascending_def fun_eq_iff)
qed simp

lemma ascending_distinct: "ascending m \<Longrightarrow> distinct (map fst m)"
  by (simp add: ascending_def strict_sorted_iff)

subsection \<open>Rows and verdicts\<close>

record gpu_telemetry =
  gt_power_milliwatts :: "nat option"
  gt_utilization_percent :: "nat option"

record gpu_stat =
  gs_index :: int
  gs_bus_id :: int
  gs_name :: string
  gs_memory :: int
  gs_using_memory :: f64
  gs_temperature :: int
  gs_hashrate :: f64
  gs_power :: string
  gs_hash_count :: u64
  gs_stream_index :: int
  gs_telemetry :: "gpu_telemetry option"
  gs_updated_secs_ago :: nat

definition POWER_UNAVAILABLE :: nat where "POWER_UNAVAILABLE = 2 ^ 32 - 1"

definition power_milliwatts_or_sentinel :: "gpu_stat \<Rightarrow> nat" where
  "power_milliwatts_or_sentinel stat =
     (case Option.bind (gs_telemetry stat) gt_power_milliwatts of None \<Rightarrow> POWER_UNAVAILABLE | Some mw \<Rightarrow> mw)"

definition utilization_percent :: "gpu_stat \<Rightarrow> nat" where
  "utilization_percent stat = (case Option.bind (gs_telemetry stat) gt_utilization_percent of None \<Rightarrow> 0 | Some p \<Rightarrow> p)"

definition power_contribution :: "gpu_stat \<Rightarrow> nat" where
  "power_contribution stat = (case Option.bind (gs_telemetry stat) gt_power_milliwatts of None \<Rightarrow> 0 | Some mw \<Rightarrow> mw)"

datatype network_state = Net_Closed | Net_HalfOpen | Net_Open

fun network_label :: "network_state \<Rightarrow> string" where
  "network_label Net_Open = ''offline''"
| "network_label Net_HalfOpen = ''probing''"
| "network_label Net_Closed = ''online''"

datatype last_submission_state = Sub_None | Sub_Accepted | Sub_Unconfirmed | Sub_Retry | Sub_Parked | Sub_Failed

fun submission_label :: "last_submission_state \<Rightarrow> string" where
  "submission_label Sub_Accepted = ''accepted''"
| "submission_label Sub_Unconfirmed = ''confirming''"
| "submission_label Sub_Retry = ''retrying''"
| "submission_label Sub_Parked = ''held''"
| "submission_label Sub_Failed = ''rejected''"
| "submission_label Sub_None = ''none''"

datatype find_class = Class_Normal | Class_Superblock | Class_Xuni

fun find_class_str :: "find_class \<Rightarrow> string" where
  "find_class_str Class_Normal = ''normal''"
| "find_class_str Class_Superblock = ''superblock''"
| "find_class_str Class_Xuni = ''xuni''"

definition classify_find :: "string \<Rightarrow> find_class" where
  "classify_find digest =
     (if has_xuni_match digest then Class_Xuni
      else if is_superblock_hash digest then Class_Superblock else Class_Normal)"

subsection \<open>The state\<close>

definition DEFAULT_GPU_FIRST_BLOCKS :: bool where "DEFAULT_GPU_FIRST_BLOCKS = False"

record mining_state =
  ms_difficulty :: difficulty_shared
  ms_margin_kib :: nat
  ms_normal_blocks :: u64
  ms_super_blocks :: u64
  ms_xuni_blocks :: u64
  ms_failed_blocks :: u64
  ms_hash_count :: u64
  ms_queued_xnm :: nat
  ms_queued_xuni :: nat
  ms_last_submission :: "last_submission_state \<times> nat option"
  ms_network_state :: network_state
  ms_cpu_workers :: nat
  ms_cpu_hashrate :: f64
  ms_cpu_paused :: bool
  ms_gpu_first_blocks :: "(int \<times> bool) list"
  ms_gpus :: "(int \<times> (gpu_stat \<times> nat)) list"
  ms_telemetry :: "(int \<times> gpu_telemetry) list"
  ms_fatal_durability :: bool
  ms_fatal_reason :: string
  ms_mining_paused :: bool
  ms_running :: bool
  ms_started_at :: nat

definition mining_state_new :: "difficulty_shared \<Rightarrow> bool \<Rightarrow> nat \<Rightarrow> mining_state" where
  "mining_state_new difficulty running now =
     \<lparr> ms_difficulty = difficulty, ms_margin_kib = 0, ms_normal_blocks = 0, ms_super_blocks = 0, ms_xuni_blocks = 0,
       ms_failed_blocks = 0, ms_hash_count = 0, ms_queued_xnm = 0, ms_queued_xuni = 0, ms_last_submission = (Sub_None, None),
       ms_network_state = Net_Closed, ms_cpu_workers = 0, ms_cpu_hashrate = Finite 0, ms_cpu_paused = False,
       ms_gpu_first_blocks = [], ms_gpus = [], ms_telemetry = [], ms_fatal_durability = False, ms_fatal_reason = [],
       ms_mining_paused = False, ms_running = running, ms_started_at = now \<rparr>"

text \<open>\<^verbatim>\<open>Shutdown\<close> of \<^verbatim>\<open>tm-tui\<close>: the flag only ever goes down.\<close>

definition request_stop :: "mining_state \<Rightarrow> mining_state" where
  "request_stop s = s\<lparr> ms_running := False \<rparr>"

definition is_running :: "mining_state \<Rightarrow> bool" where
  "is_running s = ms_running s"

definition set_mining_paused :: "bool \<Rightarrow> mining_state \<Rightarrow> bool \<times> mining_state" where
  "set_mining_paused paused s = (ms_mining_paused s, s\<lparr> ms_mining_paused := paused \<rparr>)"

definition uptime_seconds :: "nat \<Rightarrow> mining_state \<Rightarrow> nat" where
  "uptime_seconds now s = (now - ms_started_at s) div 1000"

definition set_difficulty :: "nat \<Rightarrow> mining_state \<Rightarrow> mining_state" where
  "set_difficulty v s = s\<lparr> ms_difficulty := (ms_difficulty s)\<lparr> ds_difficulty := v \<rparr> \<rparr>"

definition set_margin_kib :: "nat \<Rightarrow> mining_state \<Rightarrow> nat \<times> mining_state" where
  "set_margin_kib v s = (ms_margin_kib s, s\<lparr> ms_margin_kib := v \<rparr>)"

text \<open>Difficulty plus headroom: a sum above \<^verbatim>\<open>i32::MAX\<close> (the \<^verbatim>\<open>checked_add\<close> of two \<^verbatim>\<open>u32\<close> fails
  only above that) ignores the margin.\<close>

definition effective_difficulty :: "nat \<Rightarrow> nat \<Rightarrow> nat" where
  "effective_difficulty difficulty margin =
     (if margin = 0 then difficulty
      else if difficulty + margin < 2 ^ 32 \<and> difficulty + margin \<le> 2 ^ 31 - 1 then difficulty + margin
      else difficulty)"

definition state_effective_difficulty :: "mining_state \<Rightarrow> nat" where
  "state_effective_difficulty s = effective_difficulty (ds_difficulty (ms_difficulty s)) (ms_margin_kib s)"

fun record_find_class :: "find_class \<Rightarrow> mining_state \<Rightarrow> mining_state" where
  "record_find_class Class_Superblock s = s\<lparr> ms_super_blocks := ms_super_blocks s + 1 \<rparr>"
| "record_find_class Class_Normal s = s\<lparr> ms_normal_blocks := ms_normal_blocks s + 1 \<rparr>"
| "record_find_class Class_Xuni s = s\<lparr> ms_xuni_blocks := ms_xuni_blocks s + 1 \<rparr>"

definition add_hashes :: "u64 \<Rightarrow> mining_state \<Rightarrow> mining_state" where
  "add_hashes count s = s\<lparr> ms_hash_count := ms_hash_count s + count \<rparr>"

definition set_queued :: "nat \<Rightarrow> nat \<Rightarrow> mining_state \<Rightarrow> mining_state" where
  "set_queued xnm xuni s = s\<lparr> ms_queued_xnm := xnm, ms_queued_xuni := xuni \<rparr>"

definition set_last_submission :: "nat \<Rightarrow> last_submission_state \<Rightarrow> mining_state \<Rightarrow> mining_state" where
  "set_last_submission now state s =
     s\<lparr> ms_last_submission := (state, if state \<noteq> Sub_None then Some now else None) \<rparr>"

definition last_submission_age :: "nat \<Rightarrow> mining_state \<Rightarrow> nat option" where
  "last_submission_age now s = map_option (\<lambda>at'. now - at') (snd (ms_last_submission s))"

definition set_network_state :: "network_state \<Rightarrow> mining_state \<Rightarrow> mining_state" where
  "set_network_state n s = s\<lparr> ms_network_state := n \<rparr>"

definition set_cpu_stats :: "nat \<Rightarrow> f64 \<Rightarrow> bool \<Rightarrow> mining_state \<Rightarrow> mining_state" where
  "set_cpu_stats workers hashrate paused s =
     s\<lparr> ms_cpu_workers := workers, ms_cpu_hashrate := hashrate, ms_cpu_paused := paused \<rparr>"

definition set_gpu_first_blocks_verified :: "int \<Rightarrow> bool \<Rightarrow> mining_state \<Rightarrow> mining_state" where
  "set_gpu_first_blocks_verified device_index verified s =
     s\<lparr> ms_gpu_first_blocks := btree_insert device_index verified (ms_gpu_first_blocks s) \<rparr>"

definition gpu_first_blocks_verified :: "int \<Rightarrow> mining_state \<Rightarrow> bool" where
  "gpu_first_blocks_verified device_index s =
     (case map_of (ms_gpu_first_blocks s) device_index of None \<Rightarrow> DEFAULT_GPU_FIRST_BLOCKS | Some v \<Rightarrow> v)"

definition publish_gpu :: "nat \<Rightarrow> gpu_stat \<Rightarrow> mining_state \<Rightarrow> mining_state" where
  "publish_gpu now stat s =
     (let key = wrap_i32 (gs_index stat * 16 + gs_stream_index stat)
      in s\<lparr> ms_gpus := btree_insert key (stat, now) (ms_gpus s) \<rparr>)"

definition publish_telemetry :: "int \<Rightarrow> gpu_telemetry \<Rightarrow> mining_state \<Rightarrow> mining_state" where
  "publish_telemetry device_index telemetry s =
     s\<lparr> ms_telemetry := btree_insert device_index telemetry (ms_telemetry s) \<rparr>"

definition gpu_stats :: "nat \<Rightarrow> mining_state \<Rightarrow> gpu_stat list" where
  "gpu_stats now s =
     map (\<lambda>(_, stat, published). stat\<lparr> gs_updated_secs_ago := (now - published) div 1000,
            gs_telemetry := map_of (ms_telemetry s) (gs_index stat) \<rparr>) (ms_gpus s)"

definition declare_fatal_durability_failure :: "string \<Rightarrow> mining_state \<Rightarrow> mining_state" where
  "declare_fatal_durability_failure reason s =
     (let s = (if ms_fatal_reason s = [] then
                 s\<lparr> ms_fatal_reason := if reason = [] then ''unspecified durability failure'' else reason \<rparr>
               else s);
          s = s\<lparr> ms_fatal_durability := True \<rparr>
      in request_stop s)"

subsection \<open>What they keep\<close>

text \<open>The flags latch: what a miner has declared or stopped stays declared and stopped.\<close>

definition latched :: "mining_state \<Rightarrow> mining_state \<Rightarrow> bool" where
  "latched s t \<longleftrightarrow> (ms_fatal_durability s \<longrightarrow> ms_fatal_durability t \<and> ms_fatal_reason t = ms_fatal_reason s)
     \<and> (\<not> ms_running s \<longrightarrow> \<not> ms_running t)"

lemma latched_refl: "latched s s"
  by (simp add: latched_def)

lemma latched_trans: "latched s t \<Longrightarrow> latched t u \<Longrightarrow> latched s u"
  by (auto simp: latched_def)

definition fatal_ok :: "mining_state \<Rightarrow> bool" where
  "fatal_ok s \<longleftrightarrow> (ms_fatal_durability s \<longrightarrow> ms_fatal_reason s \<noteq> [] \<and> \<not> ms_running s)"

lemma declare_fatal:
  "ms_fatal_durability (declare_fatal_durability_failure r s)" "\<not> ms_running (declare_fatal_durability_failure r s)"
  "fatal_ok s \<Longrightarrow> latched s (declare_fatal_durability_failure r s)" "fatal_ok (declare_fatal_durability_failure r s)"
  by (auto simp: declare_fatal_durability_failure_def request_stop_def latched_def fatal_ok_def)

lemma record_find_class_frame [simp]:
  "ms_fatal_durability (record_find_class c s) = ms_fatal_durability s" "ms_fatal_reason (record_find_class c s) = ms_fatal_reason s"
  "ms_running (record_find_class c s) = ms_running s" "ms_hash_count (record_find_class c s) = ms_hash_count s"
  by (cases c; simp)+

definition finds_counted :: "mining_state \<Rightarrow> u64" where
  "finds_counted s = ms_normal_blocks s + ms_super_blocks s + ms_xuni_blocks s"

lemma record_find_class_counts: "finds_counted (record_find_class c s) = finds_counted s + 1"
  by (cases c) (simp_all add: finds_counted_def)

lemma effective_difficulty_bounds:
  "difficulty \<le> effective_difficulty difficulty margin"
  "difficulty \<le> 2 ^ 31 - 1 \<Longrightarrow> effective_difficulty difficulty margin \<le> 2 ^ 31 - 1"
  by (simp_all add: effective_difficulty_def)

text \<open>Rows of different devices and streams never overwrite each other.\<close>

lemma row_key_inj:
  assumes "0 \<le> i" "i < 2 ^ 27" "0 \<le> j" "j < 2 ^ 27" "0 \<le> s" "s < 16" "0 \<le> t" "t < (16::int)"
  shows "wrap_i32 (i * 16 + s) = wrap_i32 (j * 16 + t) \<longleftrightarrow> i = j \<and> s = t"
proof -
  have w: "wrap_i32 (i * 16 + s) = i * 16 + s" if "0 \<le> i" "i < 2 ^ 27" "0 \<le> s" "s < 16" for i s :: int
    using that by (intro wrap_i32_id) simp_all
  show ?thesis unfolding w[OF assms(1,2,5,6)] w[OF assms(3,4,7,8)] using assms(5-8) by presburger
qed

end
