(* ===== verification/Blake2b.thy ===== *)
theory Blake2b
  imports Prelude
begin

text \<open>
  The hashing half of \<^verbatim>\<open>tm-kernel/src/lib.rs\<close>: BLAKE2b with its streaming interface, Argon2's
  variable-length hash and its prehash.  A pointer with a length is the byte list it designates;
  a write through a pointer is the list written.  The streaming state is compared with the
  one-pass definition of RFC 7693 over the whole message.
\<close>

subsection \<open>Words and tables\<close>

definition BLAKE2B_IV :: "u64 list" where
  "BLAKE2B_IV =
     [0x6a09e667f3bcc908, 0xbb67ae8584caa73b, 0x3c6ef372fe94f82b, 0xa54ff53a5f1d36f1,
      0x510e527fade682d1, 0x9b05688c2b3e6c1f, 0x1f83d9abfb41bd6b, 0x5be0cd19137e2179]"

definition BLAKE2B_SIGMA :: "nat list list" where
  "BLAKE2B_SIGMA =
     [[0, 1, 2, 3, 4, 5, 6, 7, 8, 9, 10, 11, 12, 13, 14, 15],
      [14, 10, 4, 8, 9, 15, 13, 6, 1, 12, 0, 2, 11, 7, 5, 3],
      [11, 8, 12, 0, 5, 2, 15, 13, 10, 14, 3, 6, 7, 1, 9, 4],
      [7, 9, 3, 1, 13, 12, 11, 14, 2, 6, 5, 10, 4, 0, 15, 8],
      [9, 0, 5, 7, 2, 4, 10, 15, 14, 1, 11, 12, 6, 8, 3, 13],
      [2, 12, 6, 10, 0, 11, 8, 3, 4, 13, 7, 5, 15, 14, 1, 9],
      [12, 5, 1, 15, 14, 13, 4, 10, 0, 7, 6, 3, 9, 2, 8, 11],
      [13, 11, 7, 14, 12, 1, 3, 9, 5, 0, 15, 4, 8, 6, 2, 10],
      [6, 15, 14, 9, 11, 3, 0, 8, 12, 2, 13, 7, 1, 4, 10, 5],
      [10, 2, 8, 4, 7, 6, 1, 5, 15, 11, 9, 14, 3, 12, 13, 0],
      [0, 1, 2, 3, 4, 5, 6, 7, 8, 9, 10, 11, 12, 13, 14, 15],
      [14, 10, 4, 8, 9, 15, 13, 6, 1, 12, 0, 2, 11, 7, 5, 3]]"

definition BLAKE2B_BLOCK_BYTES :: nat where "BLAKE2B_BLOCK_BYTES = 128"
definition BLAKE2B_OUT_BYTES :: nat where "BLAKE2B_OUT_BYTES = 64"

definition store32 :: "u32 \<Rightarrow> bytes" where
  "store32 v = map (\<lambda>i. ucast (drop_bit (8 * i) v)) [0..<4]"

definition store64 :: "u64 \<Rightarrow> bytes" where
  "store64 v = map (\<lambda>i. ucast (drop_bit (8 * i) v)) [0..<8]"

definition load64 :: "bytes \<Rightarrow> u64" where
  "load64 src = fold (\<lambda>i value. value OR push_bit (8 * i) (ucast (src ! i))) [0..<8] 0"

definition rotr64 :: "u64 \<Rightarrow> nat \<Rightarrow> u64" where
  "rotr64 x n = word_rotr n x"

definition sigma :: "nat \<Rightarrow> nat \<Rightarrow> nat" where
  "sigma r i = BLAKE2B_SIGMA ! r ! i AND 15"

subsection \<open>Compression\<close>

definition blake_g ::
  "u64 list \<Rightarrow> nat \<Rightarrow> nat \<Rightarrow> nat \<Rightarrow> nat \<Rightarrow> nat \<Rightarrow> nat \<Rightarrow> u64 list \<Rightarrow> u64 list" where
  "blake_g m r i a b c d v =
     (let v = v[a := v ! a + v ! b + m ! sigma r (2 * i)];
          v = v[d := rotr64 (v ! d XOR v ! a) 32];
          v = v[c := v ! c + v ! d];
          v = v[b := rotr64 (v ! b XOR v ! c) 24];
          v = v[a := v ! a + v ! b + m ! sigma r (2 * i + 1)];
          v = v[d := rotr64 (v ! d XOR v ! a) 16];
          v = v[c := v ! c + v ! d];
          v = v[b := rotr64 (v ! b XOR v ! c) 63]
      in v)"

definition blake_round :: "u64 list \<Rightarrow> nat \<Rightarrow> u64 list \<Rightarrow> u64 list" where
  "blake_round m r v =
     (let v = blake_g m r 0 0 4 8 12 v;
          v = blake_g m r 1 1 5 9 13 v;
          v = blake_g m r 2 2 6 10 14 v;
          v = blake_g m r 3 3 7 11 15 v;
          v = blake_g m r 4 0 5 10 15 v;
          v = blake_g m r 5 1 6 11 12 v;
          v = blake_g m r 6 2 7 8 13 v;
          v = blake_g m r 7 3 4 9 14 v
      in v)"

text \<open>The compression function on a chaining value, a counter and a 128-byte block.\<close>

definition compress_block :: "u64 list \<Rightarrow> u64 \<times> u64 \<Rightarrow> bytes \<Rightarrow> u64 \<Rightarrow> u64 list" where
  "compress_block h t block f0 =
     (let m = map (\<lambda>i. load64 (drop (i * 8) block)) [0..<16];
          v0 = map (\<lambda>i. h ! i) [0..<8] @ map (\<lambda>i. BLAKE2B_IV ! i) [0..<8];
          v1 = v0[12 := v0 ! 12 XOR fst t];
          v2 = v1[13 := v1 ! 13 XOR snd t];
          v3 = v2[14 := v2 ! 14 XOR f0];
          v = fold (\<lambda>r v. blake_round m r v) [0..<12] v3
      in map (\<lambda>i. h ! i XOR (v ! i XOR v ! (i + 8))) [0..<8])"

subsection \<open>The streaming state\<close>

record blake2b =
  bk_h :: "u64 list"
  bk_t :: "u64 \<times> u64"
  bk_buf :: bytes
  bk_buf_len :: nat

definition blake2b_init :: "nat \<Rightarrow> blake2b" where
  "blake2b_init out_len =
     \<lparr> bk_h = BLAKE2B_IV[0 := BLAKE2B_IV ! 0 XOR (of_nat out_len OR push_bit 16 1 OR push_bit 24 1)],
       bk_t = (0, 0), bk_buf = replicate BLAKE2B_BLOCK_BYTES 0, bk_buf_len = 0 \<rparr>"

definition increment_counter :: "u64 \<Rightarrow> blake2b \<Rightarrow> blake2b" where
  "increment_counter inc s =
     (let t0 = fst (bk_t s) + inc
      in s\<lparr> bk_t := (t0, snd (bk_t s) + of_bool (t0 < inc)) \<rparr>)"

definition compress :: "bytes \<Rightarrow> u64 \<Rightarrow> blake2b \<Rightarrow> blake2b" where
  "compress block f0 s = s\<lparr> bk_h := compress_block (bk_h s) (bk_t s) block f0 \<rparr>"

text \<open>Copying bytes into the buffer from a position on.\<close>

definition buf_write :: "nat \<Rightarrow> 'a list \<Rightarrow> 'a list \<Rightarrow> 'a list" where
  "buf_write pos bs buf = take pos buf @ bs @ drop (pos + length bs) buf"

text \<open>The loop over the full blocks of the input; the last full block stays.\<close>

function update_blocks :: "bytes \<Rightarrow> blake2b \<Rightarrow> bytes \<times> blake2b" where
  "update_blocks input s =
     (if BLAKE2B_BLOCK_BYTES < length input
      then update_blocks (drop BLAKE2B_BLOCK_BYTES input)
             (compress (take BLAKE2B_BLOCK_BYTES input) 0
               (increment_counter (of_nat BLAKE2B_BLOCK_BYTES) s))
      else (input, s))"
  by pat_completeness auto
termination
  by (relation "measure (\<lambda>(input, s). length input)") (auto simp: BLAKE2B_BLOCK_BYTES_def)

definition blake2b_update :: "bytes \<Rightarrow> blake2b \<Rightarrow> blake2b" where
  "blake2b_update input s =
     (let (rest, s1) =
        (if BLAKE2B_BLOCK_BYTES < bk_buf_len s + length input then
           (let have_n = bk_buf_len s;
                left = BLAKE2B_BLOCK_BYTES - have_n;
                s1 = s\<lparr> bk_buf := buf_write have_n (take left input) (bk_buf s) \<rparr>;
                s2 = increment_counter (of_nat BLAKE2B_BLOCK_BYTES) s1;
                s3 = (compress (bk_buf s2) 0 s2)\<lparr> bk_buf_len := 0 \<rparr>
            in update_blocks (drop left input) s3)
         else (input, s))
      in s1\<lparr> bk_buf := buf_write (bk_buf_len s1) rest (bk_buf s1),
             bk_buf_len := bk_buf_len s1 + length rest \<rparr>)"

definition blake2b_finalize :: "nat \<Rightarrow> blake2b \<Rightarrow> bytes" where
  "blake2b_finalize out_len s =
     (let s1 = increment_counter (of_nat (bk_buf_len s)) s;
          s2 = s1\<lparr> bk_buf := take (bk_buf_len s1) (bk_buf s1)
                          @ replicate (BLAKE2B_BLOCK_BYTES - bk_buf_len s1) 0 \<rparr>;
          s3 = compress (bk_buf s2) (- 1) s2
      in take out_len (concat (map store64 (bk_h s3))))"

subsection \<open>RFC 7693\<close>

text \<open>The hash of a whole message: every block but the last is compressed with the running count
  of bytes; the last one, full or not, with the total length and the final flag.\<close>

definition counter_of :: "nat \<Rightarrow> u64 \<times> u64" where
  "counter_of n = (of_nat n, of_nat (n div 2 ^ 64))"

function blake2b_blocks :: "u64 list \<Rightarrow> nat \<Rightarrow> bytes \<Rightarrow> u64 list" where
  "blake2b_blocks h n msg =
     (if length msg \<le> 128
      then compress_block h (counter_of (n + length msg)) (msg @ replicate (128 - length msg) 0) (- 1)
      else blake2b_blocks (compress_block h (counter_of (n + 128)) (take 128 msg) 0) (n + 128) (drop 128 msg))"
  by pat_completeness auto
termination
  by (relation "measure (\<lambda>(h, n, msg). length msg)") auto

definition blake2b_hash :: "nat \<Rightarrow> bytes \<Rightarrow> bytes" where
  "blake2b_hash out_len msg =
     take out_len (concat (map store64 (blake2b_blocks (bk_h (blake2b_init out_len)) 0 msg)))"

declare update_blocks.simps [simp del] blake2b_blocks.simps [simp del]

text \<open>The chaining value after the full blocks of a message prefix.\<close>

function chain :: "u64 list \<Rightarrow> nat \<Rightarrow> bytes \<Rightarrow> u64 list" where
  "chain h n msg =
     (if msg = [] then h
      else chain (compress_block h (counter_of (n + 128)) (take 128 msg) 0) (n + 128) (drop 128 msg))"
  by pat_completeness auto
termination
  by (relation "measure (\<lambda>(h, n, msg). length msg)") auto

declare chain.simps [simp del]

lemma chain_Nil [simp]: "chain h n [] = h"
  by (simp add: chain.simps)

lemma chain_append:
  "length a mod 128 = 0 \<Longrightarrow> chain h n (a @ b) = chain (chain h n a) (n + length a) b"
proof (induction h n a rule: chain.induct)
  case (1 h n a)
  show ?case
  proof (cases "a = []")
    case False
    then have "128 \<le> length a" using 1(2) by (metis length_0_conv mod_less not_less)
    moreover have "length (drop 128 a) mod 128 = 0"
      using 1(2) \<open>128 \<le> length a\<close> by (simp add: le_mod_geq[symmetric])
    ultimately show ?thesis
      using 1(1)[OF False] False by (simp add: chain.simps[of h n "a @ b"] chain.simps[of h n a] add.assoc)
  qed simp
qed

lemma blake2b_blocks_chain:
  "length a mod 128 = 0 \<Longrightarrow> b \<noteq> [] \<or> a = [] \<Longrightarrow>
   blake2b_blocks h n (a @ b) = blake2b_blocks (chain h n a) (n + length a) b"
proof (induction h n a rule: chain.induct)
  case (1 h n a)
  show ?case
  proof (cases "a = []")
    case False
    then have l: "128 \<le> length a" using 1(2) by (metis length_0_conv mod_less not_less)
    then have "length (drop 128 a) mod 128 = 0" using 1(2) by (simp add: le_mod_geq[symmetric])
    moreover have "128 < length (a @ b)" using l False 1(3) by (cases b) auto
    ultimately show ?thesis
      using 1(1)[OF False] False l 1(3)
      by (simp add: blake2b_blocks.simps[of h n "a @ b"] chain.simps[of h n a] add.assoc)
  qed simp
qed

text \<open>The streaming state after a message.\<close>

definition absorbed :: "u64 list \<Rightarrow> blake2b \<Rightarrow> bytes \<Rightarrow> bool" where
  "absorbed h0 s msg \<longleftrightarrow>
     (\<exists>full rest. msg = full @ rest \<and> length full mod 128 = 0 \<and> (rest = [] \<longrightarrow> full = [])
        \<and> length rest \<le> 128 \<and> bk_buf_len s = length rest \<and> length (bk_buf s) = 128
        \<and> take (length rest) (bk_buf s) = rest \<and> bk_h s = chain h0 0 full
        \<and> bk_t s = counter_of (length full))"

lemma absorbedI:
  "length full mod 128 = 0 \<Longrightarrow> (rest = [] \<Longrightarrow> full = []) \<Longrightarrow> length rest \<le> 128 \<Longrightarrow>
   bk_buf_len s = length rest \<Longrightarrow> length (bk_buf s) = 128 \<Longrightarrow> take (length rest) (bk_buf s) = rest \<Longrightarrow>
   bk_h s = chain h0 0 full \<Longrightarrow> bk_t s = counter_of (length full) \<Longrightarrow> absorbed h0 s (full @ rest)"
  unfolding absorbed_def by (intro exI[of _ full] exI[of _ rest]) simp

lemma absorbed_init: "absorbed (bk_h (blake2b_init n)) (blake2b_init n) []"
  using absorbedI[of "[]" "[]" "blake2b_init n" "bk_h (blake2b_init n)"]
  by (simp add: blake2b_init_def BLAKE2B_BLOCK_BYTES_def counter_of_def)

lemma increment_counter_buf [simp]: "bk_buf (increment_counter k s) = bk_buf s"
  by (simp add: increment_counter_def Let_def)

lemma increment_counter_of:
  assumes "bk_t s = counter_of n" "n + k < 2 ^ 64"
  shows "increment_counter (of_nat k) s = s\<lparr> bk_t := counter_of (n + k) \<rparr>"
proof -
  have "\<not> (of_nat (n + k) :: u64) < of_nat k"
    using assms(2) by (simp add: word_less_nat_alt unat_of_nat del: of_nat_add)
  then show ?thesis using assms by (simp add: increment_counter_def counter_of_def Let_def)
qed

lemma compress_counted:
  assumes "bk_t s = counter_of n" "n + 128 < 2 ^ 64"
  shows "compress block 0 (increment_counter (of_nat BLAKE2B_BLOCK_BYTES) s)
    = s\<lparr> bk_h := compress_block (bk_h s) (counter_of (n + 128)) block 0, bk_t := counter_of (n + 128) \<rparr>"
  using increment_counter_of[OF assms] by (simp add: compress_def BLAKE2B_BLOCK_BYTES_def)

lemma chain_snoc:
  "length full mod 128 = 0 \<Longrightarrow> length b = 128 \<Longrightarrow>
   chain h 0 (full @ b) = compress_block (chain h 0 full) (counter_of (length full + 128)) b 0"
  by (cases "b = []") (simp_all add: chain_append chain.simps[of _ _ b])

lemma update_blocks_chain:
  assumes "bk_t s = counter_of (length full)" "bk_h s = chain h 0 full" "length full mod 128 = 0"
    and "length full + length input < 2 ^ 64" "input \<noteq> []"
  shows "\<exists>mid rest. input = mid @ rest \<and> length mid mod 128 = 0 \<and> rest \<noteq> [] \<and> length rest \<le> 128
    \<and> update_blocks input s
        = (rest, s\<lparr> bk_h := chain h 0 (full @ mid), bk_t := counter_of (length (full @ mid)) \<rparr>)"
  using assms
proof (induction input s arbitrary: full rule: update_blocks.induct)
  case (1 input s)
  show ?case
  proof (cases "128 < length input")
    case False
    then show ?thesis using 1(2,3,6)
      by (intro exI[of _ "[]"] exI[of _ input])
         (simp add: update_blocks.simps[of input] BLAKE2B_BLOCK_BYTES_def not_less)
  next
    case True
    let ?b = "take 128 input"
    let ?s = "s\<lparr> bk_h := chain h 0 (full @ ?b), bk_t := counter_of (length (full @ ?b)) \<rparr>"
    have lb: "length ?b = 128" using True by simp
    have c: "compress ?b 0 (increment_counter (of_nat BLAKE2B_BLOCK_BYTES) s) = ?s"
      using compress_counted[of s "length full" ?b] 1(2,3,4,5) True chain_snoc[OF 1(4) lb] by simp
    have "128 < length input \<Longrightarrow> length (full @ ?b) mod 128 = 0" "length (full @ ?b) + length (drop 128 input) < 2 ^ 64"
      "drop 128 input \<noteq> []"
      using 1(4,5) True lb by (simp_all only: length_append mod_add_self2 length_drop) auto
    then have "\<exists>mid rest. drop 128 input = mid @ rest \<and> length mid mod 128 = 0 \<and> rest \<noteq> [] \<and> length rest \<le> 128
      \<and> update_blocks (drop 128 input) ?s = (rest, ?s\<lparr> bk_h := chain h 0 ((full @ ?b) @ mid),
            bk_t := counter_of (length ((full @ ?b) @ mid)) \<rparr>)"
      using True by (intro 1(1)[of "full @ ?b", unfolded BLAKE2B_BLOCK_BYTES_def c[unfolded BLAKE2B_BLOCK_BYTES_def]])
        simp_all
    then obtain mid rest where mr: "drop 128 input = mid @ rest" "length mid mod 128 = 0" "rest \<noteq> []"
      "length rest \<le> 128" "update_blocks (drop 128 input) ?s
         = (rest, ?s\<lparr> bk_h := chain h 0 ((full @ ?b) @ mid), bk_t := counter_of (length ((full @ ?b) @ mid)) \<rparr>)"
      by (elim exE conjE) (rule that)
    have "update_blocks input s = update_blocks (drop 128 input) ?s"
      using True c by (simp add: update_blocks.simps[of input] BLAKE2B_BLOCK_BYTES_def)
    moreover have "input = (?b @ mid) @ rest" using append_take_drop_id[of 128 input] mr(1) by simp
    moreover have "length (?b @ mid) mod 128 = 0" using lb mr(2) by (simp only: length_append mod_add_self1)
    ultimately show ?thesis using mr(3,4,5)
      by (intro exI[of _ "?b @ mid"] exI[of _ rest] conjI) simp_all
  qed
qed

lemma buf_write_take:
  "pos + length bs \<le> length buf \<Longrightarrow> take (pos + length bs) (buf_write pos bs buf) = take pos buf @ bs"
  by (simp add: buf_write_def)

lemma length_buf_write [simp]: "pos + length bs \<le> length buf \<Longrightarrow> length (buf_write pos bs buf) = length buf"
  by (simp add: buf_write_def)

lemma absorbed_update:
  assumes a: "absorbed h s msg" and n: "length msg + length input < 2 ^ 64"
  shows "absorbed h (blake2b_update input s) (msg @ input)"
proof -
  obtain full rest where fr: "msg = full @ rest" "length full mod 128 = 0" "rest = [] \<longrightarrow> full = []"
    "length rest \<le> 128" "bk_buf_len s = length rest" "length (bk_buf s) = 128"
    "take (length rest) (bk_buf s) = rest" "bk_h s = chain h 0 full" "bk_t s = counter_of (length full)"
    using a by (auto simp: absorbed_def)
  show ?thesis
  proof (cases "128 < length rest + length input")
    case False
    then have fits: "length rest + length input \<le> length (bk_buf s)" using fr(6) by simp
    have "blake2b_update input s = s\<lparr> bk_buf := buf_write (length rest) input (bk_buf s),
        bk_buf_len := length (rest @ input) \<rparr>"
      using False fr(5) by (simp add: blake2b_update_def BLAKE2B_BLOCK_BYTES_def Let_def)
    then have "absorbed h (blake2b_update input s) (full @ (rest @ input))"
      using fr False buf_write_take[OF fits] fits by (intro absorbedI) auto
    then show ?thesis by (simp add: fr(1))
  next
    case True
    define left where "left = 128 - length rest"
    define blk where "blk = rest @ take left input"
    have lb: "length blk = 128" and left: "left < length input" using True fr(4) by (auto simp: blk_def left_def)
    have w: "buf_write (length rest) (take left input) (bk_buf s) = blk"
      using fr(4,6,7) left by (simp add: buf_write_def blk_def left_def)
    let ?s3 = "s\<lparr> bk_buf := blk, bk_h := chain h 0 (full @ blk), bk_t := counter_of (length (full @ blk)),
                 bk_buf_len := 0 \<rparr>"
    have s3: "(compress blk 0 (increment_counter (of_nat BLAKE2B_BLOCK_BYTES) (s\<lparr> bk_buf := blk \<rparr>)))\<lparr> bk_buf_len := 0 \<rparr> = ?s3"
    proof -
      have "length full + 128 < 2 ^ 64" using n True fr(1) by simp
      from compress_counted[of "s\<lparr> bk_buf := blk \<rparr>" "length full" blk, OF _ this] show ?thesis
        using fr(8,9) lb chain_snoc[OF fr(2) lb] by simp
    qed
    have fb: "length (full @ blk) mod 128 = 0" using fr(2) lb by simp
    have "length (full @ blk) + length (drop left input) < 2 ^ 64" "drop left input \<noteq> []"
      using n fr(1) lb left by (simp_all add: blk_def left_def)
    from update_blocks_chain[of ?s3 "full @ blk" h, OF _ _ fb this]
    obtain mid rest' where mr: "drop left input = mid @ rest'" "length mid mod 128 = 0" "rest' \<noteq> []"
      "length rest' \<le> 128" "update_blocks (drop left input) ?s3 = (rest', ?s3\<lparr> bk_h := chain h 0 ((full @ blk) @ mid),
         bk_t := counter_of (length ((full @ blk) @ mid)) \<rparr>)" by auto
    have up: "blake2b_update input s = ?s3\<lparr> bk_h := chain h 0 ((full @ blk) @ mid),
         bk_t := counter_of (length ((full @ blk) @ mid)), bk_buf := buf_write 0 rest' blk, bk_buf_len := length rest' \<rparr>"
      using True fr(5) w s3 mr(5)
      by (simp add: blake2b_update_def BLAKE2B_BLOCK_BYTES_def Let_def left_def[symmetric])
    have "msg @ input = ((full @ blk) @ mid) @ rest'"
      using fr(1) mr(1) append_take_drop_id[of left input] by (simp add: blk_def)
    moreover have "absorbed h (blake2b_update input s) (((full @ blk) @ mid) @ rest')"
      unfolding up using mr(2,3,4) lb fr(2) buf_write_take[of 0 rest' blk]
      by (intro absorbedI) (auto simp: mod_eq_0_iff_dvd)
    ultimately show ?thesis by simp
  qed
qed

lemma finalize_absorbed:
  assumes a: "absorbed h s msg" and n: "length msg < 2 ^ 64"
  shows "blake2b_finalize out_len s = take out_len (concat (map store64 (blake2b_blocks h 0 msg)))"
proof -
  obtain full rest where fr: "msg = full @ rest" "length full mod 128 = 0" "rest = [] \<longrightarrow> full = []"
    "length rest \<le> 128" "bk_buf_len s = length rest"
    "take (length rest) (bk_buf s) = rest" "bk_h s = chain h 0 full" "bk_t s = counter_of (length full)"
    using a by (auto simp: absorbed_def)
  have "increment_counter (of_nat (length rest)) s = s\<lparr> bk_t := counter_of (length full + length rest) \<rparr>"
    using increment_counter_of[OF fr(8)] n fr(1) by simp
  then have "blake2b_finalize out_len s = take out_len (concat (map store64
      (compress_block (chain h 0 full) (counter_of (length full + length rest))
        (rest @ replicate (128 - length rest) 0) (- 1))))"
    using fr(4-8) by (simp add: blake2b_finalize_def compress_def Let_def BLAKE2B_BLOCK_BYTES_def)
  moreover have "blake2b_blocks h 0 msg = blake2b_blocks (chain h 0 full) (length full) rest"
    using blake2b_blocks_chain[OF fr(2), of rest h 0] fr(1,3) by auto
  ultimately show ?thesis using fr(4) by (simp add: blake2b_blocks.simps[of _ _ rest])
qed

lemma absorbed_updates:
  "absorbed h s msg \<Longrightarrow> length msg + length (concat parts) < 2 ^ 64 \<Longrightarrow>
   absorbed h (fold blake2b_update parts s) (msg @ concat parts)"
proof (induction parts arbitrary: s msg)
  case (Cons p parts)
  then have "absorbed h (blake2b_update p s) (msg @ p)" by (intro absorbed_update) simp_all
  from Cons.IH[OF this] Cons.prems show ?case by simp
qed simp

lemma streaming_hash:
  "length (concat parts) < 2 ^ 64 \<Longrightarrow>
   blake2b_finalize out_len (fold blake2b_update parts (blake2b_init out_len)) = blake2b_hash out_len (concat parts)"
  using finalize_absorbed[OF absorbed_updates[OF absorbed_init, of parts out_len]] by (simp add: blake2b_hash_def)

text \<open>Streaming is hashing: however a message is cut into pieces, feeding them one by one
  through the 128-byte buffer and finalising gives the RFC 7693 hash of the whole message.\<close>

theorem blake2b_streams:
  assumes "length (concat parts) < 2 ^ 64"
  shows "blake2b_finalize out_len (fold blake2b_update parts (blake2b_init out_len))
    = blake2b_hash out_len (concat parts)"
  by (rule streaming_hash[OF assms])

theorem blake2b_streams_witness:
  "blake2b_finalize 64 (fold blake2b_update [replicate 100 7, [], replicate 156 9] (blake2b_init 64))
     = blake2b_hash 64 (replicate 100 7 @ replicate 156 9)"
  using blake2b_streams[of "[replicate 100 7, [], replicate 156 9]" 64] by simp

end
