(* ===== verification/Argon2_Wave.thy ===== *)
theory Argon2_Wave
  imports Blake2b
begin

text \<open>
  The permutation of the memory-filling kernel (\<^verbatim>\<open>tm-kernel/src/lib.rs\<close>, stage 2, and the shuffles of
  \<^verbatim>\<open>tm-kernel/src/arch/amd.rs\<close>).  One wavefront of 32 work-items holds a 1 KiB block, four words
  each; it runs in lock step, so an operation of the source, written for one work-item, is here a
  function of the whole wave, and a shuffle reads the value another work-item passes to the same
  call.  The reference is the permutation of RFC 9106 on a block of 128 words.
\<close>

unbundle bit_operations_syntax

subsection \<open>Registers and shuffles\<close>

definition THREADS_PER_LANE :: nat where "THREADS_PER_LANE = 32"
definition QWORDS_IN_BLOCK :: nat where "QWORDS_IN_BLOCK = 128"

datatype block_th = BlockTh (ra: u64) (rb: u64) (rc: u64) (rd: u64)

type_synonym wave = "block_th list"

text \<open>\<^verbatim>\<open>ds_bpermute\<close> reads the register of the lane whose number times four is the byte index.\<close>

definition ds_bpermute :: "nat \<Rightarrow> 'a list \<Rightarrow> 'a" where
  "ds_bpermute byte_index vals = vals ! (byte_index div 4)"

definition shfl32 :: "u32 list \<Rightarrow> nat \<Rightarrow> nat \<Rightarrow> u32" where
  "shfl32 vals lane_id src =
     (let lane = (lane_id - (lane_id AND (THREADS_PER_LANE - 1))) OR (src AND (THREADS_PER_LANE - 1))
      in ds_bpermute (push_bit 2 lane) vals)"

definition shfl_xor32 :: "u32 list \<Rightarrow> nat \<Rightarrow> nat \<Rightarrow> u32" where
  "shfl_xor32 vals lane_id xmask = shfl32 vals lane_id (lane_id XOR xmask)"

definition shfl64 :: "u64 list \<Rightarrow> nat \<Rightarrow> nat \<Rightarrow> u64" where
  "shfl64 vals lane_id src =
     (let lo = shfl32 (map ucast vals) lane_id src;
          hi = shfl32 (map (\<lambda>v. ucast (drop_bit 32 v)) vals) lane_id src
      in push_bit 32 (ucast hi) OR ucast lo)"

definition shfl_xor64 :: "u64 list \<Rightarrow> nat \<Rightarrow> nat \<Rightarrow> u64" where
  "shfl_xor64 vals lane_id xmask =
     (let lo = shfl_xor32 (map ucast vals) lane_id xmask;
          hi = shfl_xor32 (map (\<lambda>v. ucast (drop_bit 32 v)) vals) lane_id xmask
      in push_bit 32 (ucast hi) OR ucast lo)"

definition cmpeq_mask :: "nat \<Rightarrow> nat \<Rightarrow> u64" where
  "cmpeq_mask test reference = 0 - of_bool (test = reference)"

definition bt_get :: "block_th \<Rightarrow> nat \<Rightarrow> u64" where
  "bt_get b index =
     (cmpeq_mask index 0 AND ra b) XOR (cmpeq_mask index 1 AND rb b)
       XOR (cmpeq_mask index 2 AND rc b) XOR (cmpeq_mask index 3 AND rd b)"

definition get_uniform :: "block_th \<Rightarrow> nat \<Rightarrow> u64" where
  "get_uniform b index = (if index = 0 then ra b else if index = 1 then rb b else if index = 2 then rc b else rd b)"

definition bt_set :: "block_th \<Rightarrow> nat \<Rightarrow> u64 \<Rightarrow> block_th" where
  "bt_set b index v =
     BlockTh (ra b XOR (cmpeq_mask index 0 AND (v XOR ra b))) (rb b XOR (cmpeq_mask index 1 AND (v XOR rb b)))
       (rc b XOR (cmpeq_mask index 2 AND (v XOR rc b))) (rd b XOR (cmpeq_mask index 3 AND (v XOR rd b)))"

definition bt_xor :: "block_th \<Rightarrow> block_th \<Rightarrow> block_th" where
  "bt_xor b other = BlockTh (ra b XOR ra other) (rb b XOR rb other) (rc b XOR rc other) (rd b XOR rd other)"

definition bt_load :: "u64 list \<Rightarrow> nat \<Rightarrow> nat \<Rightarrow> block_th" where
  "bt_load memory block thread =
     (let lane = THREADS_PER_LANE
      in BlockTh (memory ! (block + thread)) (memory ! (block + (lane + thread)))
           (memory ! (block + (2 * lane + thread))) (memory ! (block + (3 * lane + thread))))"

definition load_xor :: "u64 list \<Rightarrow> nat \<Rightarrow> block_th \<Rightarrow> nat \<Rightarrow> block_th" where
  "load_xor memory block b thread = bt_xor b (bt_load memory block thread)"

definition bt_store :: "block_th \<Rightarrow> nat \<Rightarrow> nat \<Rightarrow> u64 list \<Rightarrow> u64 list" where
  "bt_store b block thread memory =
     (let lane = THREADS_PER_LANE
      in memory[block + thread := ra b, block + (lane + thread) := rb b, block + (2 * lane + thread) := rc b,
           block + (3 * lane + thread) := rd b])"

subsection \<open>The permutation, lane by lane\<close>

definition mix_f :: "u64 \<Rightarrow> u64 \<Rightarrow> u64" where
  "mix_f x y = (let product = ucast (ucast x :: u32) * ucast (ucast y :: u32) in x + y + product * 2)"

definition mix_g :: "block_th \<Rightarrow> block_th" where
  "mix_g block =
     (let a = ra block; b = rb block; c = rc block; d = rd block;
          a = mix_f a b;
          d = rotr64 (d XOR a) 32;
          c = mix_f c d;
          b = rotr64 (b XOR c) 24;
          a = mix_f a b;
          d = rotr64 (d XOR a) 16;
          c = mix_f c d;
          b = rotr64 (b XOR c) 63
      in BlockTh a b c d)"

text \<open>What a work-item offers to the three shuffles of \<^verbatim>\<open>transpose\<close>, and what it makes of the answers.\<close>

definition transpose_give :: "block_th \<Rightarrow> nat \<Rightarrow> u64 \<times> u64 \<times> u64" where
  "transpose_give block thread =
     (let g1 = (thread AND 4 \<noteq> 0); g2 = (thread AND 8 \<noteq> 0)
      in (if g2 then (if g1 then rc block else rd block) else if g1 then ra block else rb block,
          if g2 then (if g1 then rb block else ra block) else if g1 then rd block else rc block,
          if g2 then (if g1 then ra block else rb block) else if g1 then rc block else rd block))"

definition transpose_take :: "block_th \<Rightarrow> nat \<Rightarrow> u64 \<Rightarrow> u64 \<Rightarrow> u64 \<Rightarrow> block_th" where
  "transpose_take block thread x1 x2 x3 =
     (let g1 = (thread AND 4 \<noteq> 0); g2 = (thread AND 8 \<noteq> 0)
      in BlockTh
           (if g2 then (if g1 then x3 else x2) else if g1 then x1 else ra block)
           (if g2 then (if g1 then x2 else x3) else if g1 then rb block else x1)
           (if g2 then (if g1 then x1 else rc block) else if g1 then x3 else x2)
           (if g2 then (if g1 then rd block else x1) else if g1 then x2 else x3))"

definition wave_map :: "(nat \<Rightarrow> block_th \<Rightarrow> 'a) \<Rightarrow> wave \<Rightarrow> 'a list" where
  "wave_map f w = map (\<lambda>thread. f thread (w ! thread)) [0..<THREADS_PER_LANE]"

definition transpose_wave :: "wave \<Rightarrow> wave" where
  "transpose_wave w =
     (let gs = wave_map (\<lambda>thread block. transpose_give block thread) w;
          x1s = map fst gs; x2s = map (fst \<circ> snd) gs; x3s = map (snd \<circ> snd) gs
      in wave_map (\<lambda>thread block.
           transpose_take block thread (shfl_xor64 x1s thread 4) (shfl_xor64 x2s thread 8) (shfl_xor64 x3s thread 12)) w)"

text \<open>The four \<^verbatim>\<open>shift\<close> shuffles differ in the lanes they read from.\<close>

definition shift_with :: "(nat \<Rightarrow> nat) \<Rightarrow> nat \<Rightarrow> (nat \<Rightarrow> nat) \<Rightarrow> wave \<Rightarrow> wave" where
  "shift_with src_b mask_c src_d w =
     wave_map (\<lambda>thread block.
       BlockTh (ra block) (shfl64 (map rb w) thread (src_b thread)) (shfl_xor64 (map rc w) thread mask_c)
         (shfl64 (map rd w) thread (src_d thread))) w"

definition shift1_src :: "nat \<Rightarrow> nat \<Rightarrow> nat" where
  "shift1_src n thread = (thread AND 28) OR ((thread + n) AND 3)"

definition shift1_shuffle :: "wave \<Rightarrow> wave" where
  "shift1_shuffle = shift_with (shift1_src 1) 2 (shift1_src 3)"

definition unshift1_shuffle :: "wave \<Rightarrow> wave" where
  "unshift1_shuffle = shift_with (shift1_src 3) 2 (shift1_src 1)"

definition shift2_src :: "nat \<Rightarrow> nat \<Rightarrow> nat" where
  "shift2_src n thread =
     (let lo = (thread AND 1) OR drop_bit 3 (thread AND 16)
      in push_bit 3 ((lo + n) AND 2) OR (thread AND 14) OR ((lo + n) AND 1))"

definition shift2_shuffle :: "wave \<Rightarrow> wave" where
  "shift2_shuffle = shift_with (shift2_src 1) 16 (shift2_src 3)"

definition unshift2_shuffle :: "wave \<Rightarrow> wave" where
  "unshift2_shuffle = shift_with (shift2_src 3) 16 (shift2_src 1)"

definition shuffle_block :: "wave \<Rightarrow> wave" where
  "shuffle_block w =
     (let w = transpose_wave w;
          w = map mix_g w;
          w = shift1_shuffle w;
          w = map mix_g w;
          w = unshift1_shuffle w;
          w = transpose_wave w;
          w = map mix_g w;
          w = shift2_shuffle w;
          w = map mix_g w;
          w = unshift2_shuffle w
      in w)"

subsection \<open>RFC 9106: the permutation of a block\<close>

text \<open>\<open>GB\<close> in place on the four words of a quadruple, and \<open>P\<close> on sixteen words: columns, then
  diagonals.\<close>

definition gb_at :: "nat \<times> nat \<times> nat \<times> nat \<Rightarrow> u64 list \<Rightarrow> u64 list" where
  "gb_at q v =
     (case q of (i, j, k, l) \<Rightarrow>
        (let add = (\<lambda>x y. x + y + 2 * take_bit 32 x * take_bit 32 y);
             a = add (v ! i) (v ! j);
             d = word_rotr 32 (v ! l XOR a);
             c = add (v ! k) d;
             b = word_rotr 24 (v ! j XOR c);
             a = add a b;
             d = word_rotr 16 (d XOR a);
             c = add c d;
             b = word_rotr 63 (b XOR c)
         in v[i := a, j := b, k := c, l := d]))"

definition columns :: "(nat \<times> nat \<times> nat \<times> nat) list" where
  "columns = [(0, 4, 8, 12), (1, 5, 9, 13), (2, 6, 10, 14), (3, 7, 11, 15)]"

definition diagonals :: "(nat \<times> nat \<times> nat \<times> nat) list" where
  "diagonals = [(0, 5, 10, 15), (1, 6, 11, 12), (2, 7, 8, 13), (3, 4, 9, 14)]"

definition permutation_P :: "u64 list \<Rightarrow> u64 list" where
  "permutation_P v = fold gb_at diagonals (fold gb_at columns v)"

text \<open>The block as an 8 by 8 matrix of registers of two words: \<open>P\<close> on every row, then on every
  column.\<close>

definition row_of :: "nat \<Rightarrow> u64 list \<Rightarrow> u64 list" where
  "row_of i v = map (\<lambda>m. v ! (16 * i + m)) [0..<16]"

definition col_of :: "nat \<Rightarrow> u64 list \<Rightarrow> u64 list" where
  "col_of j v = map (\<lambda>m. v ! (16 * (m div 2) + 2 * j + m mod 2)) [0..<16]"

definition on_rows :: "(u64 list \<Rightarrow> u64 list) \<Rightarrow> u64 list \<Rightarrow> u64 list" where
  "on_rows p v = map (\<lambda>x. p (row_of (x div 16) v) ! (x mod 16)) [0..<128]"

definition on_columns :: "(u64 list \<Rightarrow> u64 list) \<Rightarrow> u64 list \<Rightarrow> u64 list" where
  "on_columns p v = map (\<lambda>x. p (col_of (x mod 16 div 2) v) ! (2 * (x div 16) + x mod 2)) [0..<128]"

definition permute_block :: "u64 list \<Rightarrow> u64 list" where
  "permute_block v = on_columns permutation_P (on_rows permutation_P v)"

subsection \<open>Shuffles read whole registers\<close>

lemma join_halves: "push_bit 32 (ucast (ucast (drop_bit 32 v) :: u32)) OR ucast (ucast v :: u32) = (v :: u64)"
  by (rule bit_word_eqI) (auto simp: bit_simps)

lemma and_31: "(n::nat) AND 31 = n mod 32"
  using take_bit_eq_mask[of 5 n] by (simp add: take_bit_eq_mod mask_eq_exp_minus_1)

lemma shfl32_nth: "lane < 32 \<Longrightarrow> src < 32 \<Longrightarrow> shfl32 vals lane src = vals ! src"
  by (simp add: shfl32_def ds_bpermute_def THREADS_PER_LANE_def and_31 push_bit_eq_mult)

lemma xor_lt_32: "a < 32 \<Longrightarrow> b < 32 \<Longrightarrow> (a XOR b :: nat) < 32"
  using take_bit_nat_less_exp[of 5 "a XOR b"] by (simp add: take_bit_nat_eq_self flip: take_bit_nat_eq_self_iff)

lemma shfl64_nth: "length vals = 32 \<Longrightarrow> lane < 32 \<Longrightarrow> src < 32 \<Longrightarrow> shfl64 vals lane src = vals ! src"
  by (simp add: shfl64_def shfl32_nth join_halves)

lemma shfl_xor64_nth: "length vals = 32 \<Longrightarrow> lane < 32 \<Longrightarrow> m < 32 \<Longrightarrow> shfl_xor64 vals lane m = vals ! (lane XOR m)"
  by (simp add: shfl_xor64_def shfl_xor32_def shfl32_nth xor_lt_32 join_halves)

subsection \<open>Layouts\<close>

text \<open>A layout says which word of the block work-item \<open>t\<close> keeps in register \<open>r\<close>.\<close>

definition wave_of :: "(nat \<Rightarrow> nat \<Rightarrow> nat) \<Rightarrow> u64 list \<Rightarrow> wave" where
  "wave_of L v = map (\<lambda>t. BlockTh (v ! L t 0) (v ! L t 1) (v ! L t 2) (v ! L t 3)) [0..<32]"

definition straight :: "nat \<Rightarrow> nat \<Rightarrow> nat" where
  "straight t r = 32 * r + t"

definition thread_row :: "nat \<Rightarrow> nat" where
  "thread_row t = 2 * (t div 4 mod 4) + t div 16"

definition row_columns :: "nat \<Rightarrow> nat \<Rightarrow> nat" where
  "row_columns t r = 16 * thread_row t + 4 * r + t mod 4"

definition row_diagonals :: "nat \<Rightarrow> nat \<Rightarrow> nat" where
  "row_diagonals t r = 16 * thread_row t + 4 * r + (t + r) mod 4"

definition column_slot :: "nat \<Rightarrow> nat" where
  "column_slot t = 2 * (t div 16) + t mod 2"

definition column_diagonals :: "nat \<Rightarrow> nat \<Rightarrow> nat" where
  "column_diagonals t r =
     (let m = 4 * r + (column_slot t + r) mod 4 in 16 * (m div 2) + 2 * (t mod 16 div 2) + m mod 2)"

lemmas layout_defs = straight_def row_columns_def row_diagonals_def thread_row_def column_slot_def column_diagonals_def
  shift1_src_def shift2_src_def Let_def numeral_2_eq_2[symmetric] numeral_3_eq_3[symmetric]

lemma length_wave_of [simp]: "length (wave_of L v) = 32"
  by (simp add: wave_of_def)

lemma nth_wave_of [simp]:
  "t < 32 \<Longrightarrow> wave_of L v ! t = BlockTh (v ! L t 0) (v ! L t 1) (v ! L t 2) (v ! L t 3)"
  by (simp add: wave_of_def)

lemma all_threads: "(\<forall>t < 32. P t) \<longleftrightarrow> list_all P [0..<32]"
  by (auto simp: list_all_iff)

lemma threads: "[0..<32] = [0, 1, 2, 3, 4, 5, 6, 7, 8, 9, 10, 11, 12, 13, 14, 15,
  16, 17, 18, 19, 20, 21, 22, 23, 24, 25, 26, 27, 28, 29, 30, 31]"
  by code_simp

lemma nth_wave_map [simp]: "t < 32 \<Longrightarrow> wave_map f w ! t = f t (w ! t)"
  by (simp add: wave_map_def THREADS_PER_LANE_def)

lemma length_wave_map [simp]: "length (wave_map f w) = 32"
  by (simp add: wave_map_def THREADS_PER_LANE_def)

lemma shift_layout:
  assumes "\<forall>t < 32. sb t < 32 \<and> sd t < 32"
    and "\<forall>t < 32. L' t 0 = L t 0 \<and> L' t 1 = L (sb t) 1 \<and> L' t 2 = L (t XOR m) 2 \<and> L' t 3 = L (sd t) 3" and "m < 32"
  shows "shift_with sb m sd (wave_of L v) = wave_of L' v"
  using assms xor_lt_32 by (intro nth_equalityI) (simp_all add: shift_with_def shfl64_nth shfl_xor64_nth)

lemma shift1_layout: "shift1_shuffle (wave_of row_columns v) = wave_of row_diagonals v"
  unfolding shift1_shuffle_def
  by (rule shift_layout; (unfold all_threads threads)?) (simp_all add: layout_defs)

lemma unshift1_layout: "unshift1_shuffle (wave_of row_diagonals v) = wave_of row_columns v"
  unfolding unshift1_shuffle_def
  by (rule shift_layout; (unfold all_threads threads)?) (simp_all add: layout_defs)

lemma shift2_layout: "shift2_shuffle (wave_of straight v) = wave_of column_diagonals v"
  unfolding shift2_shuffle_def
  by (rule shift_layout; (unfold all_threads threads)?) (simp_all add: layout_defs)

lemma unshift2_layout: "unshift2_shuffle (wave_of column_diagonals v) = wave_of straight v"
  unfolding unshift2_shuffle_def
  by (rule shift_layout; (unfold all_threads threads)?) (simp_all add: layout_defs)

text \<open>\<^verbatim>\<open>transpose\<close> exchanges the two middle bits of the work-item number with the register number.\<close>

lemma transpose_nth:
  assumes "length w = 32" "t < 32"
  defines "q \<equiv> t div 4 mod 4"
  shows "transpose_wave w ! t = BlockTh (get_uniform (w ! (t XOR 4 * (q XOR 0))) q) (get_uniform (w ! (t XOR 4 * (q XOR 1))) q)
      (get_uniform (w ! (t XOR 4 * (q XOR 2))) q) (get_uniform (w ! (t XOR 4 * (q XOR 3))) q)"
proof -
  let ?give = "\<lambda>t. transpose_give (w ! t) t"
  have "transpose_wave w ! t = transpose_take (w ! t) t (fst (?give (t XOR 4))) (fst (snd (?give (t XOR 8))))
      (snd (snd (?give (t XOR 12))))"
    using assms(1,2) by (simp add: transpose_wave_def shfl_xor64_nth xor_lt_32 Let_def)
  moreover have "\<forall>t < 32. transpose_take (w ! t) t (fst (?give (t XOR 4))) (fst (snd (?give (t XOR 8))))
      (snd (snd (?give (t XOR 12))))
    = BlockTh (get_uniform (w ! (t XOR 4 * (t div 4 mod 4 XOR 0))) (t div 4 mod 4))
        (get_uniform (w ! (t XOR 4 * (t div 4 mod 4 XOR 1))) (t div 4 mod 4))
        (get_uniform (w ! (t XOR 4 * (t div 4 mod 4 XOR 2))) (t div 4 mod 4))
        (get_uniform (w ! (t XOR 4 * (t div 4 mod 4 XOR 3))) (t div 4 mod 4))"
    unfolding all_threads threads
    by (simp add: transpose_give_def transpose_take_def get_uniform_def Let_def flip: numeral_3_eq_3)
  ultimately show ?thesis using assms(2) unfolding q_def by presburger
qed

lemma length_transpose [simp]: "length (transpose_wave w) = 32"
  by (simp add: transpose_wave_def Let_def)

lemma get_wave_of: "t < 32 \<Longrightarrow> q < 4 \<Longrightarrow> get_uniform (wave_of L v ! t) q = v ! L t q"
  by (auto simp: get_uniform_def numeral_eq_Suc less_Suc_eq)

lemma transpose_layout:
  assumes "\<forall>t < 32. L' t 0 = L (t XOR 4 * (t div 4 mod 4 XOR 0)) (t div 4 mod 4)
      \<and> L' t 1 = L (t XOR 4 * (t div 4 mod 4 XOR 1)) (t div 4 mod 4)
      \<and> L' t 2 = L (t XOR 4 * (t div 4 mod 4 XOR 2)) (t div 4 mod 4)
      \<and> L' t 3 = L (t XOR 4 * (t div 4 mod 4 XOR 3)) (t div 4 mod 4)"
  shows "transpose_wave (wave_of L v) = wave_of L' v"
proof (rule nth_equalityI)
  fix t assume "t < length (transpose_wave (wave_of L v))"
  then have t: "t < 32" by simp
  have g: "get_uniform (wave_of L v ! (t XOR 4 * (t div 4 mod 4 XOR r))) (t div 4 mod 4)
      = v ! L (t XOR 4 * (t div 4 mod 4 XOR r)) (t div 4 mod 4)" if "r < 4" for r
  proof (intro get_wave_of xor_lt_32 t)
    have "(t div 4 mod 4 XOR r) < 4" using take_bit_nat_less_exp[of 2 "t div 4 mod 4 XOR r"] that
      by (simp add: take_bit_nat_eq_self flip: take_bit_nat_eq_self_iff)
    then show "4 * (t div 4 mod 4 XOR r) < 32" by simp
  qed simp
  have l: "(0::nat) < 4" "(1::nat) < 4" "(2::nat) < 4" "(3::nat) < 4" by simp_all
  show "transpose_wave (wave_of L v) ! t = wave_of L' v ! t"
    unfolding transpose_nth[OF length_wave_of t] nth_wave_of[OF t] g[OF l(1)] g[OF l(2)] g[OF l(3)] g[OF l(4)]
    using assms[rule_format, OF t] by (simp only:)
qed simp

lemma transpose_in: "transpose_wave (wave_of straight v) = wave_of row_columns v"
  by (rule transpose_layout, unfold all_threads threads) (simp add: layout_defs)

lemma transpose_out: "transpose_wave (wave_of row_columns v) = wave_of straight v"
  by (rule transpose_layout, unfold all_threads threads) (simp add: layout_defs)

subsection \<open>Mixing a layout of quadruples\<close>

definition quad_list :: "nat \<times> nat \<times> nat \<times> nat \<Rightarrow> nat list" where
  "quad_list q = (case q of (i, j, k, l) \<Rightarrow> [i, j, k, l])"

definition quad_th :: "nat \<times> nat \<times> nat \<times> nat \<Rightarrow> u64 list \<Rightarrow> block_th" where
  "quad_th q v = (case q of (i, j, k, l) \<Rightarrow> BlockTh (v ! i) (v ! j) (v ! k) (v ! l))"

lemma low_half: "(ucast (ucast x :: u32) :: u64) = take_bit 32 x"
  by (rule bit_word_eqI) (auto simp: bit_simps)

lemma mix_f_rfc: "mix_f x y = x + y + 2 * take_bit 32 x * take_bit 32 y"
  by (simp add: mix_f_def low_half algebra_simps)

lemma gb_at_quad:
  assumes "distinct (quad_list q)" "\<forall>i\<in>set (quad_list q). i < length v"
  shows "quad_th q (gb_at q v) = mix_g (quad_th q v)"
  using assms
  by (simp add: quad_th_def quad_list_def gb_at_def mix_g_def mix_f_rfc rotr64_def Let_def split: prod.splits)

lemma gb_at_other:
  assumes "set (quad_list q) \<inter> set (quad_list q') = {}"
  shows "quad_th q' (gb_at q v) = quad_th q' v"
proof -
  obtain i j k l where q: "q = (i, j, k, l)" by (cases q)
  obtain i' j' k' l' where q': "q' = (i', j', k', l')" by (cases q')
  obtain a b c d where "gb_at q v = v[i := a, j := b, k := c, l := d]" by (simp add: gb_at_def q Let_def)
  then show ?thesis using assms by (auto simp: q q' quad_th_def quad_list_def)
qed

lemma length_gb_at [simp]: "length (gb_at q v) = length v"
  by (simp add: gb_at_def Let_def split: prod.splits)

lemma length_fold_gb_at [simp]: "length (fold gb_at qs v) = length v"
  by (induction qs arbitrary: v) auto

lemma fold_gb_other:
  "\<forall>q\<in>set qs. set (quad_list q) \<inter> set (quad_list q') = {} \<Longrightarrow> quad_th q' (fold gb_at qs v) = quad_th q' v"
  by (induction qs arbitrary: v) (auto simp: gb_at_other)

lemma fold_gb_at:
  assumes "distinct (concat (map quad_list qs))" "\<forall>i\<in>set (concat (map quad_list qs)). i < length v" "q \<in> set qs"
  shows "quad_th q (fold gb_at qs v) = mix_g (quad_th q v)"
  using assms
proof (induction qs arbitrary: v)
  case (Cons q' qs)
  show ?case
  proof (cases "q = q'")
    case True
    then have "quad_th q (fold gb_at (q' # qs) v) = quad_th q (gb_at q v)"
      using Cons.prems(1) by (auto intro!: fold_gb_other)
    then show ?thesis using gb_at_quad[of q v] Cons.prems True by auto
  next
    case False
    then have q: "q \<in> set qs" using Cons.prems by simp
    then have "quad_th q (fold gb_at qs (gb_at q' v)) = mix_g (quad_th q (gb_at q' v))"
      using Cons.prems by (intro Cons.IH) auto
    moreover have "set (quad_list q') \<inter> set (quad_list q) = {}" using Cons.prems(1) q by auto
    ultimately show ?thesis by (simp add: gb_at_other)
  qed
qed simp

definition column_quad :: "nat \<Rightarrow> nat \<times> nat \<times> nat \<times> nat" where
  "column_quad k = (k, 4 + k, 8 + k, 12 + k)"

definition diagonal_quad :: "nat \<Rightarrow> nat \<times> nat \<times> nat \<times> nat" where
  "diagonal_quad k = (k, 4 + (k + 1) mod 4, 8 + (k + 2) mod 4, 12 + (k + 3) mod 4)"

lemma quads: "columns = map column_quad [0..<4]" "diagonals = map diagonal_quad [0..<4]"
  by (simp_all add: columns_def diagonals_def column_quad_def diagonal_quad_def upt_rec)

lemma quads_distinct:
  "distinct (concat (map quad_list columns))" "\<forall>i\<in>set (concat (map quad_list columns)). i < 16"
  "distinct (concat (map quad_list diagonals))" "\<forall>i\<in>set (concat (map quad_list diagonals)). i < 16"
  by (simp_all add: columns_def diagonals_def quad_list_def)

lemma columns_mix:
  "length w = 16 \<Longrightarrow> k < 4 \<Longrightarrow> quad_th (column_quad k) (fold gb_at columns w) = mix_g (quad_th (column_quad k) w)"
  using quads_distinct by (intro fold_gb_at) (simp_all add: quads(1)[symmetric], simp add: quads(1))

lemma diagonals_mix:
  "length w = 16 \<Longrightarrow> k < 4 \<Longrightarrow> quad_th (diagonal_quad k) (fold gb_at diagonals w) = mix_g (quad_th (diagonal_quad k) w)"
  using quads_distinct by (intro fold_gb_at) (simp_all add: quads(2)[symmetric], simp add: quads(2))

subsection \<open>The wave computes the permutation\<close>

lemma length_rows [simp]: "length (row_of i v) = 16" "length (col_of i v) = 16" "length (on_rows p v) = 128"
  "length (on_columns p v) = 128"
  by (simp_all add: row_of_def col_of_def on_rows_def on_columns_def)

lemma nth_rows:
  "m < 16 \<Longrightarrow> row_of i v ! m = v ! (16 * i + m)"
  "m < 16 \<Longrightarrow> col_of j v ! m = v ! (16 * (m div 2) + 2 * j + m mod 2)"
  "x < 128 \<Longrightarrow> on_rows p v ! x = p (row_of (x div 16) v) ! (x mod 16)"
  "x < 128 \<Longrightarrow> on_columns p v ! x = p (col_of (x mod 16 div 2) v) ! (2 * (x div 16) + x mod 2)"
  by (simp_all add: row_of_def col_of_def on_rows_def on_columns_def)

text \<open>An index splits into its 16s, its pairs and its parity.\<close>

lemma index_parts:
  fixes a j b :: nat
  assumes "j < 8" "b < 2"
  shows "(16 * a + 2 * j + b) div 16 = a" "(16 * a + 2 * j + b) mod 16 div 2 = j" "(16 * a + 2 * j + b) mod 2 = b"
proof -
  have "2 * j + b < 16" using assms by simp
  then have "(16 * a + (2 * j + b)) div 16 = a" "(16 * a + (2 * j + b)) mod 16 = 2 * j + b" by simp_all
  then show "(16 * a + 2 * j + b) div 16 = a" "(16 * a + 2 * j + b) mod 16 div 2 = j"
    using assms(2) by (simp_all add: add.assoc)
  have "16 * a + 2 * j + b = b + 2 * (8 * a + j)" by simp
  then show "(16 * a + 2 * j + b) mod 2 = b" using assms(2) by (metis mod_less mod_mult_self2)
qed

lemma column_index:
  fixes j m :: nat
  assumes "j < 8" "m < 16"
  defines "x \<equiv> 16 * (m div 2) + 2 * j + m mod 2"
  shows "x < 128" "x mod 16 div 2 = j" "2 * (x div 16) + x mod 2 = m"
proof -
  note p = index_parts[OF assms(1), of "m mod 2" "m div 2", folded x_def]
  show "x mod 16 div 2 = j" "2 * (x div 16) + x mod 2 = m" using p by simp_all
  have "m div 2 < 8" "m mod 2 < 2" using assms(2) by simp_all
  then show "x < 128" using assms(1) by (simp add: x_def)
qed

lemma thread_parts:
  assumes "t < (32::nat)"
  obtains a j b where "t = 16 * a + 2 * j + b" "a < 2" "j < 8" "b < 2"
proof
  show "t = 16 * (t div 16) + 2 * (t mod 16 div 2) + t mod 2"
    by (metis add.assoc div_mult_mod_eq mod_mod_cancel mult.commute dvd_def numeral_Bit0_eq_double)
qed (use assms in auto)

lemma row_on_rows: "i < 8 \<Longrightarrow> length (p (row_of i v)) = 16 \<Longrightarrow> row_of i (on_rows p v) = p (row_of i v)"
  by (rule nth_equalityI) (simp_all add: nth_rows)

lemma col_on_columns: "j < 8 \<Longrightarrow> length (p (col_of j v)) = 16 \<Longrightarrow> col_of j (on_columns p v) = p (col_of j v)"
  by (rule nth_equalityI) (simp_all add: nth_rows column_index)

lemma on_rows_comp: "(\<And>w. length w = 16 \<Longrightarrow> length (p w) = 16) \<Longrightarrow> on_rows q (on_rows p v) = on_rows (\<lambda>w. q (p w)) v"
  by (rule nth_equalityI) (simp_all add: nth_rows(3) row_on_rows)

lemma on_columns_comp:
  "(\<And>w. length w = 16 \<Longrightarrow> length (p w) = 16) \<Longrightarrow> on_columns q (on_columns p v) = on_columns (\<lambda>w. q (p w)) v"
  by (rule nth_equalityI) (simp_all add: nth_rows(4) col_on_columns)

text \<open>A stage mixes every work-item's quadruple of one row or column.\<close>

lemma row_stage:
  assumes q: "\<And>k w. k < 4 \<Longrightarrow> length w = 16 \<Longrightarrow> quad_th (Q k) (p w) = mix_g (quad_th (Q k) w)"
    and L: "\<And>t. t < 32 \<Longrightarrow> Q (t mod 4) = (L t 0 - 16 * thread_row t, L t 1 - 16 * thread_row t,
      L t 2 - 16 * thread_row t, L t 3 - 16 * thread_row t)"
    and b: "\<And>t r. t < 32 \<Longrightarrow> r < 4 \<Longrightarrow> 16 * thread_row t \<le> L t r \<and> L t r < 16 * thread_row t + 16"
  shows "map mix_g (wave_of L v) = wave_of L (on_rows p v)"
proof (rule nth_equalityI)
  fix t assume "t < length (map mix_g (wave_of L v))"
  then have t: "t < 32" by simp
  let ?i = "thread_row t"
  have i: "?i < 8" using t by (simp add: thread_row_def)
  have ix: "v ! L t r = row_of ?i v ! (L t r - 16 * ?i)" "on_rows p v ! L t r = p (row_of ?i v) ! (L t r - 16 * ?i)"
    if "r < 4" for r
  proof -
    obtain m where m: "L t r = 16 * ?i + m" "m < 16" using b[OF t \<open>r < 4\<close>] by (metis le_iff_add nat_add_left_cancel_less)
    show "v ! L t r = row_of ?i v ! (L t r - 16 * ?i)" "on_rows p v ! L t r = p (row_of ?i v) ! (L t r - 16 * ?i)"
      using m i by (simp_all add: nth_rows)
  qed
  have w: "wave_of L u ! t = quad_th (Q (t mod 4)) w" if "\<And>r. r < 4 \<Longrightarrow> u ! L t r = w ! (L t r - 16 * ?i)" for u w
    using that t by (simp add: L quad_th_def)
  have "map mix_g (wave_of L v) ! t = mix_g (wave_of L v ! t)" using t by (intro nth_map) simp
  then show "map mix_g (wave_of L v) ! t = wave_of L (on_rows p v) ! t"
    using q[of "t mod 4" "row_of ?i v"] w[OF ix(1)] w[OF ix(2)] by simp
qed simp

lemma row_columns_stage: "map mix_g (wave_of row_columns v) = wave_of row_columns (on_rows (fold gb_at columns) v)"
  by (rule row_stage[where Q = column_quad, OF columns_mix]) (auto simp: row_columns_def column_quad_def)

lemma row_diagonals_stage: "map mix_g (wave_of row_diagonals v) = wave_of row_diagonals (on_rows (fold gb_at diagonals) v)"
  by (rule row_stage[where Q = diagonal_quad, OF diagonals_mix])
     (auto simp: row_diagonals_def diagonal_quad_def mod_simps)

lemma column_slot_bound: "t < 32 \<Longrightarrow> column_slot t < 4"
  by (erule thread_parts) (simp add: column_slot_def index_parts)

text \<open>In columns, word \<open>m\<close> of column \<open>j\<close> stands at \<open>16 * (m div 2) + 2 * j + m mod 2\<close>.\<close>

lemma column_stage:
  assumes q: "\<And>k w. k < 4 \<Longrightarrow> length w = 16 \<Longrightarrow> quad_th (Q k) (p w) = mix_g (quad_th (Q k) w)"
    and L: "\<And>t r. t < 32 \<Longrightarrow> r < 4 \<Longrightarrow> M t r < 16
      \<and> L t r = 16 * (M t r div 2) + 2 * (t mod 16 div 2) + M t r mod 2"
    and Q: "\<And>t. t < 32 \<Longrightarrow> Q (column_slot t) = (M t 0, M t 1, M t 2, M t 3)"
  shows "map mix_g (wave_of L v) = wave_of L (on_columns p v)"
proof (rule nth_equalityI)
  fix t assume "t < length (map mix_g (wave_of L v))"
  then have t: "t < 32" by simp
  let ?j = "t mod 16 div 2"
  have j: "?j < 8" by (simp add: less_mult_imp_div_less)
  have ix: "v ! L t r = col_of ?j v ! M t r" "on_columns p v ! L t r = p (col_of ?j v) ! M t r"
    if "r < 4" for r
    using L[OF t that] j by (simp_all add: nth_rows column_index)
  have slot: "column_slot t < 4" using t by (rule column_slot_bound)
  have w: "wave_of L u ! t = quad_th (Q (column_slot t)) w" if "\<And>r. r < 4 \<Longrightarrow> u ! L t r = w ! M t r" for u w
    using that t by (simp add: Q quad_th_def)
  have "map mix_g (wave_of L v) ! t = mix_g (wave_of L v ! t)" using t by (intro nth_map) simp
  then show "map mix_g (wave_of L v) ! t = wave_of L (on_columns p v) ! t"
    using q[OF slot, of "col_of ?j v"] w[OF ix(1)] w[OF ix(2)] by simp
qed simp

lemma straight_stage: "map mix_g (wave_of straight v) = wave_of straight (on_columns (fold gb_at columns) v)"
proof (rule column_stage[where Q = column_quad and M = "\<lambda>t r. 4 * r + column_slot t", OF columns_mix])
  fix t r :: nat assume t: "t < 32" and r: "r < 4"
  obtain a j b where p: "t = 16 * a + 2 * j + b" "a < 2" "j < 8" "b < 2" using t by (rule thread_parts)
  then have c: "column_slot t = 2 * a + b" "t mod 16 div 2 = j" by (simp_all add: column_slot_def index_parts)
  have "4 * r + (2 * a + b) = b + 2 * (2 * r + a)" by simp
  then have "(4 * r + (2 * a + b)) div 2 = 2 * r + a" "(4 * r + (2 * a + b)) mod 2 = b"
    using p(4) by (simp_all only: mod_mult_self2 mod_less div_mult_self2)
  then show "4 * r + column_slot t < 16 \<and>
      straight t r = 16 * ((4 * r + column_slot t) div 2) + 2 * (t mod 16 div 2) + (4 * r + column_slot t) mod 2"
    unfolding c straight_def using p r by simp
qed (simp_all add: column_quad_def)

lemma column_diagonals_stage:
  "map mix_g (wave_of column_diagonals v) = wave_of column_diagonals (on_columns (fold gb_at diagonals) v)"
proof (rule column_stage[where Q = diagonal_quad and M = "\<lambda>t r. 4 * r + (column_slot t + r) mod 4", OF diagonals_mix])
  fix t r :: nat assume "t < 32" "r < 4"
  moreover have "(column_slot t + r) mod 4 < 4" by simp
  ultimately show "4 * r + (column_slot t + r) mod 4 < 16 \<and> column_diagonals t r
      = 16 * ((4 * r + (column_slot t + r) mod 4) div 2) + 2 * (t mod 16 div 2) + (4 * r + (column_slot t + r) mod 4) mod 2"
    unfolding column_diagonals_def Let_def by linarith
qed (simp_all add: diagonal_quad_def column_slot_bound)

lemma P_stages: "permutation_P = (\<lambda>w. fold gb_at diagonals (fold gb_at columns w))"
  by (simp add: permutation_P_def fun_eq_iff)

lemma shuffle_block_permutes: "shuffle_block (wave_of straight v) = wave_of straight (permute_block v)"
  by (simp add: shuffle_block_def Let_def transpose_in row_columns_stage shift1_layout row_diagonals_stage
      unshift1_layout transpose_out straight_stage shift2_layout column_diagonals_stage unshift2_layout
      on_rows_comp on_columns_comp permute_block_def P_stages)

text \<open>C40.  On a block spread straight across the wavefront (work-item \<open>t\<close> holds words \<open>t\<close>, \<open>32 + t\<close>,
  \<open>64 + t\<close>, \<open>96 + t\<close>), the shuffled lock-step permutation of the kernel is the permutation of RFC 9106:
  \<open>P\<close> on every row of the 8 by 8 register matrix, then on every column.\<close>

theorem shuffle_block_is_rfc:
  "shuffle_block (wave_of straight v) = wave_of straight (permute_block v)"
  by (rule shuffle_block_permutes)

text \<open>The branch-free accessors select and replace one register.\<close>

lemma mask_and: "cmpeq_mask i j AND x = (if i = j then x else 0)"
  by (simp add: cmpeq_mask_def)

lemma bt_get_select: "i < 4 \<Longrightarrow> bt_get b i = get_uniform b i"
  by (simp add: bt_get_def get_uniform_def mask_and)

lemma bt_get_set: "i < 4 \<Longrightarrow> j < 4 \<Longrightarrow> bt_get (bt_set b i x) j = (if i = j then x else bt_get b j)"
proof -
  have "a XOR (x XOR a) = x" for a :: u64 by (rule bit_word_eqI) (auto simp: bit_simps)
  then show "i < 4 \<Longrightarrow> j < 4 \<Longrightarrow> ?thesis" by (auto simp: bt_get_def bt_set_def mask_and)
qed

end
