(* ===== verification/Core_Batch.thy ===== *)
theory Core_Batch
  imports F64
begin

text \<open>
  GPU batch sizing (\<^verbatim>\<open>tm-core/src/batch.rs\<close>) and the Argon2 job shape
  (\<^verbatim>\<open>tm-core/src/argon2host.rs\<close>).  \<^verbatim>\<open>usize\<close> and \<^verbatim>\<open>u32\<close> quantities are
  \<^typ>\<open>nat\<close>; the batch estimate is computed in binary64 as in the source, and the theorem that
  it never over-commits device memory accounts for the rounding of all five operations.
\<close>

definition DEFAULT_MEMORY_RESERVE_BYTES :: nat where
  "DEFAULT_MEMORY_RESERVE_BYTES = 100 * 1024 * 1024"

definition HIP_RESERVE_FLOOR_BYTES :: nat where
  "HIP_RESERVE_FLOOR_BYTES = 1024 * 1024 * 1024"

record batch_size_decision =
  memory_limited_batch_size :: nat
  tuned_batch_size :: nat
  selected_batch_size :: nat
  explicit_limit_applied :: bool
  tuned_default_applied :: bool

datatype gpu_runtime_kind = Cuda | Hip

fun effective_reserve_bytes :: "gpu_runtime_kind \<Rightarrow> nat \<Rightarrow> nat \<Rightarrow> nat" where
  "effective_reserve_bytes Cuda free_memory_bytes reserve_bytes = reserve_bytes"
| "effective_reserve_bytes Hip free_memory_bytes reserve_bytes =
     max (max reserve_bytes HIP_RESERVE_FLOOR_BYTES) (free_memory_bytes div 16)"

text \<open>\<^verbatim>\<open>difficulty as f64 * 1024.0 * 1.001\<close>, left to right.\<close>

definition bytes_per_attempt :: "nat \<Rightarrow> f64" where
  "bytes_per_attempt difficulty =
     f64_mul (f64_mul (f64_of_int (int difficulty)) (Finite 1024)) (rnd (1001 / 1000))"

definition estimate_memory_batch_limit :: "gpu_runtime_kind \<Rightarrow> nat \<Rightarrow> nat \<Rightarrow> nat \<Rightarrow> nat" where
  "estimate_memory_batch_limit runtime free_memory_bytes difficulty reserve_bytes =
     (let reserve = effective_reserve_bytes runtime free_memory_bytes reserve_bytes
      in if difficulty = 0 \<or> free_memory_bytes \<le> reserve then 0
         else let available = f64_of_int (int (free_memory_bytes - reserve))
              in f64_to_usize (f64_div available (bytes_per_attempt difficulty)))"

definition recommended_batch_size :: "nat \<Rightarrow> nat" where
  "recommended_batch_size difficulty =
     (if difficulty \<le> 1 then 2048
      else if difficulty \<le> 8 then 4096
      else if difficulty \<le> 64 then 3072
      else 0)"

definition select_batch_size ::
  "gpu_runtime_kind \<Rightarrow> nat \<Rightarrow> nat \<Rightarrow> nat \<Rightarrow> batch_size_decision" where
  "select_batch_size runtime free_memory_bytes difficulty explicit_max_batch_size =
     (let limited = estimate_memory_batch_limit runtime free_memory_bytes difficulty
                      DEFAULT_MEMORY_RESERVE_BYTES;
          decision = \<lparr> memory_limited_batch_size = limited, tuned_batch_size = 0,
                       selected_batch_size = 0, explicit_limit_applied = False,
                       tuned_default_applied = False \<rparr>
      in if limited = 0 then decision
         else if 0 < explicit_max_batch_size then
           decision\<lparr> selected_batch_size := min limited explicit_max_batch_size,
                     explicit_limit_applied := True \<rparr>
         else let tuned = recommended_batch_size difficulty;
                  decision = decision\<lparr> tuned_batch_size := tuned \<rparr>
              in if 0 < tuned then
                   decision\<lparr> selected_batch_size := min limited tuned,
                             tuned_default_applied := True \<rparr>
                 else decision\<lparr> selected_batch_size := limited \<rparr>)"

subsection \<open>The job shape\<close>

definition ARGON2_ID :: nat where "ARGON2_ID = 2"
definition ARGON2_VERSION_13 :: nat where "ARGON2_VERSION_13 = 19"
definition ARGON2_BLOCK_SIZE :: nat where "ARGON2_BLOCK_SIZE = 1024"
definition ARGON2_SYNC_POINTS :: nat where "ARGON2_SYNC_POINTS = 4"
definition DEFAULT_HASH_LENGTH :: nat where "DEFAULT_HASH_LENGTH = 64"

record argon2_shape =
  sh_type :: nat
  sh_version :: nat
  sh_passes :: nat
  sh_lanes :: nat
  sh_memory_cost :: nat
  sh_output_length :: nat

definition shape_for_difficulty :: "nat \<Rightarrow> argon2_shape" where
  "shape_for_difficulty difficulty =
     \<lparr> sh_type = ARGON2_ID, sh_version = ARGON2_VERSION_13, sh_passes = 1, sh_lanes = 1,
       sh_memory_cost = difficulty, sh_output_length = DEFAULT_HASH_LENGTH \<rparr>"

definition segment_blocks :: "argon2_shape \<Rightarrow> nat" where
  "segment_blocks s =
     (let segments = sh_lanes s * ARGON2_SYNC_POINTS
      in max (sh_memory_cost s) (2 * segments) div segments)"

definition lane_blocks :: "argon2_shape \<Rightarrow> nat" where
  "lane_blocks s = segment_blocks s * ARGON2_SYNC_POINTS"

definition job_bytes :: "argon2_shape \<Rightarrow> nat" where
  "job_bytes s = lane_blocks s * sh_lanes s * ARGON2_BLOCK_SIZE"

subsection \<open>The estimate never exceeds what the memory holds\<close>

abbreviation eps :: rat where
  "eps \<equiv> pow2 (- 53)"

lemma eps_value: "eps = 1 / 9007199254740992"
  by (simp add: power_int_minus divide_simps)

text \<open>Every magnitude of the estimate is far inside the normal range.\<close>

lemma rnd_near:
  assumes "l \<le> x" and "x \<le> h" and "1 / 2 ^ 200 \<le> l" and "h \<le> 2 ^ 200"
  obtains r where "rnd x = Finite r" and "x - x * eps \<le> r" and "r \<le> x + x * eps"
proof -
  have "pow2 (- 1022) \<le> pow2 (- 200)" by (intro power_int_increasing) auto
  also have "pow2 (- 200) = 1 / 2 ^ 200" by (simp add: power_int_minus divide_simps)
  finally have lo: "pow2 (- 1022) \<le> x" using assms(1,3) by linarith
  have "(2::rat) ^ 200 < 2 ^ 1023" by (rule power_strict_increasing) auto
  then have hi: "x < pow2 1023" using assms(2,4) by simp
  from lo hi obtain r where r: "rnd x = Finite r" and e: "\<bar>r - x\<bar> \<le> x * eps"
    by (rule rnd_rel_error)
  from e have "r - x \<le> x * eps" "- (r - x) \<le> x * eps" unfolding abs_le_iff by blast+
  then show thesis by (intro that[OF r]) linarith+
qed

lemma bytes_per_attempt_lower:
  assumes "0 < d" and "d < 2 ^ 32"
  obtains b where "bytes_per_attempt d = Finite b"
    and "of_nat d * 1024 * (2001 / 2000) \<le> b" and "b \<le> of_nat d * 1024 * (501 / 500)"
    and "b \<le> 2 ^ 50"
proof -
  have d: "1 \<le> (of_nat d :: rat)" using assms(1) by simp
  have d': "(of_nat d :: rat) \<le> 4294967296"
    using assms(2) of_nat_le_iff[of d 4294967296, where 'a = rat] by simp
  obtain r1 where r1: "rnd (of_nat d) = Finite r1" "of_nat d - of_nat d * eps \<le> r1"
    "r1 \<le> of_nat d + of_nat d * eps"
    by (rule rnd_near[OF d d']) auto
  have r1b: "1 / 2 * 1024 \<le> r1 * 1024" "r1 * 1024 \<le> 6000000000000"
    using r1 d d' unfolding eps_value by linarith+
  obtain r2 where r2: "rnd (r1 * 1024) = Finite r2" "r1 * 1024 - r1 * 1024 * eps \<le> r2"
    "r2 \<le> r1 * 1024 + r1 * 1024 * eps"
    by (rule rnd_near[OF r1b]) auto
  have r2b: "1 / 2 \<le> r2" "r2 \<le> 7000000000000" using r2 r1b unfolding eps_value by linarith+
  obtain k where k: "rnd (1001 / 1000) = Finite k" "1001 / 1000 - 1001 / 1000 * eps \<le> k"
    "k \<le> 1001 / 1000 + 1001 / 1000 * eps"
    by (rule rnd_near[of 1 "1001 / 1000" 2]) auto
  have kb: "10009 / 10000 \<le> k" "k \<le> 10011 / 10000" using k unfolding eps_value by linarith+
  have prod: "r2 * (10009 / 10000) \<le> r2 * k" "r2 * k \<le> r2 * (10011 / 10000)"
    using r2b kb by (intro mult_left_mono; linarith)+
  have prodb: "1 / 2 \<le> r2 * k" "r2 * k \<le> 14000000000000" using prod r2b by linarith+
  obtain b where b: "rnd (r2 * k) = Finite b" "r2 * k - r2 * k * eps \<le> b"
    "b \<le> r2 * k + r2 * k * eps"
    by (rule rnd_near[OF prodb]) auto
  show thesis
  proof (rule that)
    show "bytes_per_attempt d = Finite b"
      by (simp add: bytes_per_attempt_def f64_of_int_def r1(1) r2(1) k(1) b(1))
    show "of_nat d * 1024 * (2001 / 2000) \<le> b"
      using b(2) prod(1) r2(2) r1(2) d unfolding eps_value by linarith
    show "b \<le> of_nat d * 1024 * (501 / 500)"
      using b(3) prod(2) r2(3) r1(3) d unfolding eps_value by linarith
    have "b \<le> 28000000000000" using b(3) prodb unfolding eps_value by linarith
    then show "b \<le> 2 ^ 50" by simp
  qed
qed

lemma estimate_quotient:
  assumes d: "0 < d" "d < 2 ^ 32" and a: "0 < a" "a < 2 ^ 64"
  obtains q where "f64_div (f64_of_int (int a)) (bytes_per_attempt d) = Finite q"
    and "0 \<le> q" and "q * (of_nat d * 1024) \<le> of_nat a"
    and "of_nat a \<le> q * (of_nat d * 1024) * (1003 / 1000)"
proof -
  obtain b where b: "bytes_per_attempt d = Finite b"
    "of_nat d * 1024 * (2001 / 2000) \<le> b" "b \<le> 2 ^ 50" "b \<le> of_nat d * 1024 * (501 / 500)"
    using bytes_per_attempt_lower[OF d] by blast
  have dr: "1 \<le> (of_nat d :: rat)" using d by simp
  have ar: "1 \<le> (of_nat a :: rat)" using a by simp
  have ar': "(of_nat a :: rat) \<le> 2 ^ 64"
    using a(2) of_nat_le_iff[of a "2 ^ 64", where 'a = rat] by simp
  obtain v where v: "rnd (of_nat a) = Finite v" "of_nat a - of_nat a * eps \<le> v"
    "v \<le> of_nat a + of_nat a * eps"
    by (rule rnd_near[OF ar ar']) auto
  have b1: "1 \<le> b" using b(2) dr by linarith
  have v1: "1 / 2 \<le> v" "v \<le> 2 ^ 65" using v ar ar' unfolding eps_value by simp_all
  have vb': "v / 2 ^ 50 \<le> v / b" and vb: "v / b \<le> v / 1"
    using v1 b1 b(3) by (intro divide_left_mono; simp)+
  have "1 / 2 ^ 51 \<le> v / 2 ^ 50" using v1(1) by simp
  then have q0: "1 / 2 ^ 51 \<le> v / b" using vb' by (rule order_trans)
  have q0': "v / b \<le> 2 ^ 65" using vb v1(2) by (simp only: div_by_1)
  obtain q where q: "rnd (v / b) = Finite q" "v / b - v / b * eps \<le> q" "q \<le> v / b + v / b * eps"
    by (rule rnd_near[OF q0 q0']) auto
  have "q * b \<le> (v / b + v / b * eps) * b" using q(3) b1 by (intro mult_right_mono) linarith+
  also have "\<dots> = v + v * eps" using b1 by (simp add: field_simps)
  finally have qb: "q * b \<le> v + v * eps" .
  have q1: "0 \<le> q" using q(2) q0 unfolding eps_value by simp
  have "q * (of_nat d * 1024 * (2001 / 2000)) \<le> q * b" using b(2) q1 by (rule mult_left_mono)
  then have "q * (of_nat d * 1024) * (2001 / 2000) \<le> v + v * eps" using qb by simp
  then have "q * (of_nat d * 1024) \<le> of_nat a" using v(3) ar unfolding eps_value by linarith
  moreover have "of_nat a \<le> q * (of_nat d * 1024) * (1003 / 1000)"
  proof -
    have "v - v * eps = (v / b - v / b * eps) * b" using b1 by (simp add: field_simps)
    also have "\<dots> \<le> q * b" using q(2) b1 by (intro mult_right_mono) linarith+
    also have "\<dots> \<le> q * (of_nat d * 1024 * (501 / 500))" using b(4) q1 by (rule mult_left_mono)
    finally show ?thesis using v(2) ar unfolding eps_value by linarith
  qed
  moreover have "f64_div (f64_of_int (int a)) (bytes_per_attempt d) = Finite q"
    using b1 by (simp add: f64_of_int_def v(1) b(1) q(1))
  ultimately show thesis using that q1 by blast
qed

lemma estimate_fits:
  assumes d: "0 < d" "d < 2 ^ 32" and a: "0 < a" "a < 2 ^ 64"
  shows "f64_to_usize (f64_div (f64_of_int (int a)) (bytes_per_attempt d)) * (d * 1024) \<le> a"
proof -
  obtain q where q: "f64_div (f64_of_int (int a)) (bytes_per_attempt d) = Finite q" "0 \<le> q"
    "q * (of_nat d * 1024) \<le> of_nat a"
    by (rule estimate_quotient[OF d a])
  define n where "n = f64_to_usize (f64_div (f64_of_int (int a)) (bytes_per_attempt d))"
  have "n \<le> nat \<lfloor>q\<rfloor>" unfolding n_def q(1) using q(2) by (simp add: trunc_rat_def nat_mono)
  then have "(of_nat n :: rat) \<le> of_nat (nat \<lfloor>q\<rfloor>)" by (simp only: of_nat_le_iff)
  also have "\<dots> \<le> q" using q(2) by simp
  finally have "(of_nat n :: rat) * (of_nat d * 1024) \<le> q * (of_nat d * 1024)"
    by (intro mult_right_mono) auto
  from order_trans[OF this q(3)] have "(of_nat (n * (d * 1024)) :: rat) \<le> of_nat a"
    by (simp only: of_nat_mult of_nat_numeral)
  then show ?thesis unfolding n_def by (simp only: of_nat_le_iff)
qed

lemma select_batch_size_cases:
  "selected_batch_size (select_batch_size rt free d ex)
     \<le> estimate_memory_batch_limit rt free d DEFAULT_MEMORY_RESERVE_BYTES"
  by (simp add: select_batch_size_def Let_def)

lemma job_bytes_for_difficulty:
  "job_bytes (shape_for_difficulty d) = (max d 8 div 4) * 4096"
  by (simp add: job_bytes_def lane_blocks_def segment_blocks_def shape_for_difficulty_def
      ARGON2_SYNC_POINTS_def ARGON2_BLOCK_SIZE_def Let_def)

lemma job_bytes_le: "8 \<le> d \<Longrightarrow> job_bytes (shape_for_difficulty d) \<le> d * 1024"
proof -
  assume d: "8 \<le> d"
  have "d div 4 * 4 \<le> d" by simp
  then have "d div 4 * 4096 \<le> d * 1024" by linarith
  then show ?thesis using d by (simp add: job_bytes_for_difficulty max_def)
qed

text \<open>C26.  whatever batch size is selected, the device buffers of that many jobs fit in the free
  memory minus the runtime's reserve, for every difficulty from 8 up and every 64-bit memory
  size: the binary64 arithmetic of the estimate (five roundings) never tips it over.\<close>

theorem selected_batch_fits_memory:
  assumes "8 \<le> d" and "d < 2 ^ 32" and "free < 2 ^ 64"
  shows "selected_batch_size (select_batch_size rt free d ex) * job_bytes (shape_for_difficulty d)
    \<le> free - effective_reserve_bytes rt free DEFAULT_MEMORY_RESERVE_BYTES"
proof -
  define reserve where "reserve = effective_reserve_bytes rt free DEFAULT_MEMORY_RESERVE_BYTES"
  define n where "n = estimate_memory_batch_limit rt free d DEFAULT_MEMORY_RESERVE_BYTES"
  have "n * (d * 1024) \<le> free - reserve"
  proof (cases "free \<le> reserve")
    case True
    then show ?thesis by (simp add: n_def estimate_memory_batch_limit_def reserve_def)
  next
    case False
    then have "0 < free - reserve" "free - reserve < 2 ^ 64" using assms(3) by linarith+
    with False show ?thesis using estimate_fits[of d "free - reserve"] assms(1,2)
      by (simp add: n_def estimate_memory_batch_limit_def reserve_def Let_def)
  qed
  moreover have "selected_batch_size (select_batch_size rt free d ex)
      * job_bytes (shape_for_difficulty d) \<le> n * (d * 1024)"
    unfolding n_def by (intro mult_le_mono select_batch_size_cases job_bytes_le assms(1))
  ultimately show ?thesis unfolding reserve_def by linarith
qed

theorem selected_batch_fits_memory_witness:
  "selected_batch_size (select_batch_size Hip 25753026560 60000 0)
     * job_bytes (shape_for_difficulty 60000)
   \<le> 25753026560 - effective_reserve_bytes Hip 25753026560 DEFAULT_MEMORY_RESERVE_BYTES"
  by (rule selected_batch_fits_memory) simp_all

lemma estimate_tight:
  assumes d: "0 < d" "d < 2 ^ 32" and a: "0 < a" "a < 2 ^ 64"
  shows "a * 1000 \<le> (f64_to_usize (f64_div (f64_of_int (int a)) (bytes_per_attempt d)) + 1)
    * (d * 1024 * 1003)"
proof -
  obtain q where q: "f64_div (f64_of_int (int a)) (bytes_per_attempt d) = Finite q" "0 \<le> q"
    "q * (of_nat d * 1024) \<le> of_nat a" "of_nat a \<le> q * (of_nat d * 1024) * (1003 / 1000)"
    by (rule estimate_quotient[OF d a])
  define n where "n = f64_to_usize (f64_div (f64_of_int (int a)) (bytes_per_attempt d))"
  have "q * 1 \<le> q * (of_nat d * 1024)" using q(2) d(1) by (intro mult_left_mono) auto
  then have "q \<le> of_nat a" using q(3) by simp
  then have "q \<le> of_int (int a)" by simp
  then have "\<lfloor>q\<rfloor> \<le> int a" by (simp add: floor_le_iff)
  moreover have "int a \<le> 2 ^ 64 - 1" using a(2) by simp
  ultimately have "\<lfloor>q\<rfloor> \<le> 2 ^ 64 - 1" by (rule order_trans)
  then have "min (2 ^ 64 - 1) \<lfloor>q\<rfloor> = \<lfloor>q\<rfloor>" by (rule min_absorb2)
  moreover have "trunc_rat q = \<lfloor>q\<rfloor>" using q(2) by (simp add: trunc_rat_def)
  ultimately have "n = nat \<lfloor>q\<rfloor>" unfolding n_def q(1) f64_to_usize.simps by (simp only:)
  then have "(of_nat n :: rat) = of_int \<lfloor>q\<rfloor>" using q(2) by simp
  then have "q \<le> of_nat n + 1" by linarith
  then have "q * (of_nat d * 1024) \<le> (of_nat n + 1) * (of_nat d * 1024)"
    by (intro mult_right_mono) auto
  then have "of_nat a \<le> (of_nat n + 1) * (of_nat d * 1024) * (1003 / 1000 :: rat)"
    using q(4) by linarith
  then have "of_nat a * 1000 \<le> (of_nat n + 1) * (of_nat d * 1024) * (1003 :: rat)" by linarith
  then have "(of_nat (a * 1000) :: rat) \<le> of_nat ((n + 1) * (d * 1024 * 1003))"
    by (simp only: of_nat_mult of_nat_add of_nat_numeral of_nat_1 mult.assoc)
  then show ?thesis unfolding n_def by (simp only: of_nat_le_iff)
qed

text \<open>C27.  Below difficulty 8 the memory bound fails.  The shape rounds every job up to eight blocks while
  the estimate charges one KiB per unit of difficulty, so when the estimate decides (the operator's
  ceiling, or the recommended size where none is given, is not below it) and at least 64 KiB are free
  above the reserve, the buffers of the selected batch need more than the free memory minus the
  reserve; and once the free memory is at least nine times the reserve, they need more than all the
  free memory.\<close>

theorem low_difficulty_overcommits:
  assumes "0 < d" and "d < 8" and "free < 2 ^ 64"
    and "reserve = effective_reserve_bytes rt free DEFAULT_MEMORY_RESERVE_BYTES" and "65536 \<le> free - reserve"
    and "estimate_memory_batch_limit rt free d DEFAULT_MEMORY_RESERVE_BYTES \<le> (if 0 < ex then ex else recommended_batch_size d)"
  shows "free - reserve < selected_batch_size (select_batch_size rt free d ex) * job_bytes (shape_for_difficulty d)
    \<and> (9 * reserve \<le> free \<longrightarrow> free < selected_batch_size (select_batch_size rt free d ex) * job_bytes (shape_for_difficulty d))"
proof -
  define a where "a = free - reserve"
  define n where "n = estimate_memory_batch_limit rt free d DEFAULT_MEMORY_RESERVE_BYTES"
  have a: "65536 \<le> a" "a < 2 ^ 64" using assms(3,5) by (simp_all add: a_def)
  have "\<not> free \<le> reserve" using assms(5) by auto
  then have n: "n = f64_to_usize (f64_div (f64_of_int (int a)) (bytes_per_attempt d))"
    using assms(1) by (simp add: n_def a_def estimate_memory_batch_limit_def Let_def assms(4))
  have "a * 1000 \<le> (n + 1) * (d * 1024 * 1003)"
    unfolding n using estimate_tight[of d a] assms(1,2) a by simp
  also have "\<dots> \<le> (n + 1) * (7 * 1024 * 1003)" using assms(2) by (intro mult_le_mono) auto
  finally have tight: "a * 1000 \<le> n * 7189504 + 7189504" by simp
  then have lt: "a < n * 8192" using a(1) by linarith
  have all: "free < n * 8192" if "9 * reserve \<le> free"
  proof -
    have "100 * 1024 * 1024 \<le> reserve" unfolding assms(4) by (cases rt) (auto simp: DEFAULT_MEMORY_RESERVE_BYTES_def)
    then have "8 * reserve \<le> a" "838860800 \<le> a" "free = a + reserve" using that by (simp_all add: a_def)
    then show ?thesis using tight by linarith
  qed
  have "0 < n" using lt by (cases n) auto
  then have "selected_batch_size (select_batch_size rt free d ex) = n"
    using assms(1,2,6) by (auto simp: select_batch_size_def Let_def n_def recommended_batch_size_def split: if_splits)
  moreover have "job_bytes (shape_for_difficulty d) = 8192"
    using assms(2) by (simp add: job_bytes_for_difficulty max_def)
  ultimately show ?thesis using lt all by (simp add: a_def)
qed

theorem low_difficulty_overcommits_witness:
  "1048576000 < selected_batch_size (select_batch_size Cuda 1048576000 1 (2 ^ 64)) * job_bytes (shape_for_difficulty 1)"
proof -
  have "f64_to_usize x \<le> 2 ^ 64" for x
    by (cases x) (auto simp: nat_le_iff)
  then have "estimate_memory_batch_limit Cuda 1048576000 1 DEFAULT_MEMORY_RESERVE_BYTES \<le> 2 ^ 64"
    by (auto simp: estimate_memory_batch_limit_def Let_def)
  then show ?thesis
    using low_difficulty_overcommits[of 1 1048576000 "100 * 1024 * 1024" Cuda "2 ^ 64"] by (simp add: DEFAULT_MEMORY_RESERVE_BYTES_def)
qed

end
