(* ===== verification/First_Blocks.thy ===== *)
theory First_Blocks
  imports Blake2b Core_Batch
begin

text \<open>
  The two ends of Argon2: its variable-length hash, the prehash and the first two blocks of every
  job, as the device kernel \<^verbatim>\<open>argon2_first_blocks_kernel\<close> of \<^verbatim>\<open>tm-kernel/src/lib.rs\<close> computes them
  and as the host \<^verbatim>\<open>tm-argon2/src/host.rs\<close> does over the \<^verbatim>\<open>blake2\<close> crate (a parameter).  Both are
  the definition of RFC 9106; the device's work-items may run in any order, and so may the host's
  workers.
\<close>

subsection \<open>The device\<close>

text \<open>The loop of \<^verbatim>\<open>digest_long\<close>: what is written after the first half block.\<close>

function digest_long_rest :: "nat \<Rightarrow> bytes \<Rightarrow> bytes" where
  "digest_long_rest to_produce out_buffer =
     (if BLAKE2B_OUT_BYTES < to_produce then
        (let out_buffer' = blake2b_finalize BLAKE2B_OUT_BYTES
               (blake2b_update out_buffer (blake2b_init BLAKE2B_OUT_BYTES))
         in take (BLAKE2B_OUT_BYTES div 2) out_buffer'
              @ digest_long_rest (to_produce - BLAKE2B_OUT_BYTES div 2) out_buffer')
      else blake2b_finalize to_produce (blake2b_update out_buffer (blake2b_init to_produce)))"
  by pat_completeness auto
termination
  by (relation "measure fst") (auto simp: BLAKE2B_OUT_BYTES_def)

declare digest_long_rest.simps [simp del]

definition digest_long :: "nat \<Rightarrow> bytes \<Rightarrow> bytes" where
  "digest_long out_len input =
     (let out_len_bytes = store32 (of_nat out_len)
      in if out_len \<le> BLAKE2B_OUT_BYTES then
           blake2b_finalize out_len
             (blake2b_update input (blake2b_update out_len_bytes (blake2b_init out_len)))
         else
           (let out_buffer = blake2b_finalize BLAKE2B_OUT_BYTES
                  (blake2b_update input (blake2b_update out_len_bytes (blake2b_init BLAKE2B_OUT_BYTES)))
            in take (BLAKE2B_OUT_BYTES div 2) out_buffer
                 @ digest_long_rest (out_len - BLAKE2B_OUT_BYTES div 2) out_buffer))"

definition initial_hash ::
  "bytes \<Rightarrow> bytes \<Rightarrow> nat \<Rightarrow> nat \<Rightarrow> nat \<Rightarrow> nat \<Rightarrow> nat \<Rightarrow> nat \<Rightarrow> bytes" where
  "initial_hash password salt output_len memory_cost time_cost version type lanes =
     (let b = blake2b_init 64;
          header = concat (map (\<lambda>field. store32 (of_nat field))
            [lanes, output_len, memory_cost, time_cost, version, type, length password]);
          b = blake2b_update header b;
          b = blake2b_update password b;
          b = blake2b_update (store32 (of_nat (length salt))) b;
          b = blake2b_update salt b;
          b = blake2b_update (store32 0) b;
          b = blake2b_update (store32 0) b
      in blake2b_finalize 64 b)"

record kernel_params =
  k_batch_size :: nat
  k_key_length :: nat
  k_output_length :: nat
  k_memory_cost :: nat
  k_time_cost :: nat
  k_version :: nat
  k_type :: nat
  k_lanes :: nat
  k_segment_blocks :: nat
  k_threads_per_block :: nat

text \<open>One work-item: nothing if it is past the batch, otherwise its job's first two blocks are
  written into the job's lane of the device memory.\<close>

definition first_blocks_item ::
  "kernel_params \<Rightarrow> bytes \<Rightarrow> bytes \<Rightarrow> nat \<times> nat \<Rightarrow> bytes \<Rightarrow> bytes" where
  "first_blocks_item p keys salt item memory =
     (let job_id = fst item * k_threads_per_block p + snd item
      in if k_batch_size p \<le> job_id then memory
         else
           (let password = take (k_key_length p) (drop (job_id * k_key_length p) keys);
                h0 = initial_hash password salt (k_output_length p) (k_memory_cost p)
                       (k_time_cost p) (k_version p) (k_type p) (k_lanes p);
                lane_blocks = 4 * k_segment_blocks p mod 2 ^ 32;
                output = job_id * lane_blocks * 1024;
                memory = buf_write output (digest_long 1024 (h0 @ store32 0 @ store32 0)) memory
            in buf_write (output + 1024) (digest_long 1024 (h0 @ store32 1 @ store32 0)) memory))"

text \<open>A launch: the device runs the work-items in some order.\<close>

definition argon2_first_blocks_kernel ::
  "kernel_params \<Rightarrow> bytes \<Rightarrow> bytes \<Rightarrow> (nat \<times> nat) list \<Rightarrow> bytes \<Rightarrow> bytes" where
  "argon2_first_blocks_kernel p keys salt items memory = fold (first_blocks_item p keys salt) items memory"

subsection \<open>RFC 9106\<close>

definition hprime :: "nat \<Rightarrow> bytes \<Rightarrow> bytes" where
  "hprime n a =
     (if n \<le> 64 then blake2b_hash n (store32 (of_nat n) @ a)
      else
        (let r = (n + 31) div 32 - 2;
             V = (\<lambda>i. (blake2b_hash 64 ^^ i) (blake2b_hash 64 (store32 (of_nat n) @ a)))
         in concat (map (\<lambda>i. take 32 (V i)) [0..<r]) @ blake2b_hash (n - 32 * r) (V (r - 1))))"

definition h0_hash :: "bytes \<Rightarrow> bytes \<Rightarrow> nat \<Rightarrow> nat \<Rightarrow> nat \<Rightarrow> nat \<Rightarrow> nat \<Rightarrow> nat \<Rightarrow> bytes" where
  "h0_hash password salt output_len memory_cost time_cost version type lanes =
     blake2b_hash 64
       (concat (map (\<lambda>field. store32 (of_nat field))
          [lanes, output_len, memory_cost, time_cost, version, type, length password])
        @ password @ store32 (of_nat (length salt)) @ salt @ store32 0 @ store32 0)"

definition first_blocks :: "bytes \<Rightarrow> bytes" where
  "first_blocks h0 = hprime 1024 (h0 @ store32 0 @ store32 0) @ hprime 1024 (h0 @ store32 1 @ store32 0)"

text \<open>What job \<open>j\<close> of a batch starts from.\<close>

definition job_first_blocks :: "kernel_params \<Rightarrow> bytes \<Rightarrow> bytes \<Rightarrow> nat \<Rightarrow> bytes" where
  "job_first_blocks p keys salt j =
     first_blocks (h0_hash (take (k_key_length p) (drop (j * k_key_length p) keys)) salt
       (k_output_length p) (k_memory_cost p) (k_time_cost p) (k_version p) (k_type p) (k_lanes p))"

subsection \<open>Lengths\<close>

lemma length_store [simp]: "length (store32 v) = 4" "length (store64 w) = 8"
  by (simp_all add: store32_def store64_def)

lemma length_blake2b_blocks: "length (blake2b_blocks h n msg) = 8"
  by (induction h n msg rule: blake2b_blocks.induct)
     (simp add: blake2b_blocks.simps compress_block_def Let_def)

lemma length_concat_const: "(\<And>x. x \<in> set xs \<Longrightarrow> length (f x) = k) \<Longrightarrow> length (concat (map f xs)) = length xs * k"
  by (induction xs) auto

lemma length_blake2b_hash [simp]: "n \<le> 64 \<Longrightarrow> length (blake2b_hash n msg) = n"
  using length_concat_const[of "blake2b_blocks (bk_h (blake2b_init n)) 0 msg" store64 8]
  by (simp add: blake2b_hash_def length_blake2b_blocks)

lemma length_hprime [simp]: "length (hprime n a) = n"
proof (cases "n \<le> 64")
  case False
  define r where "r = (n + 31) div 32 - 2"
  have r: "0 < r" "32 * r \<le> n" "n - 32 * r \<le> 64" using False by (auto simp: r_def)
  have "length ((blake2b_hash 64 ^^ i) (blake2b_hash 64 m)) = 64" for i m
    by (cases i) simp_all
  then have "length (concat (map (\<lambda>i. take 32 ((blake2b_hash 64 ^^ i) (blake2b_hash 64 m))) [0..<r])) = r * 32" for m
    by (subst length_concat_const[where k = 32]) auto
  then show ?thesis using False r by (simp add: hprime_def Let_def r_def[symmetric])
qed (simp add: hprime_def)

subsection \<open>The device computes the RFC's hashes\<close>

lemma update_once: "length a < 2 ^ 64 \<Longrightarrow> blake2b_finalize n (blake2b_update a (blake2b_init n)) = blake2b_hash n a"
  using streaming_hash[of "[a]" n] by simp

lemma update_twice:
  "length a + length b < 2 ^ 64 \<Longrightarrow>
   blake2b_finalize n (blake2b_update b (blake2b_update a (blake2b_init n))) = blake2b_hash n (a @ b)"
  using streaming_hash[of "[a, b]" n] by simp

lemma digest_long_rest_step:
  "length b < 2 ^ 64 \<Longrightarrow> 64 < j \<Longrightarrow>
   digest_long_rest j b = take 32 (blake2b_hash 64 b) @ digest_long_rest (j - 32) (blake2b_hash 64 b)"
  "length b < 2 ^ 64 \<Longrightarrow> j \<le> 64 \<Longrightarrow> digest_long_rest j b = blake2b_hash j b"
  by (simp_all add: digest_long_rest.simps[of j b] BLAKE2B_OUT_BYTES_def update_once Let_def)

lemma digest_long_rest_hprime:
  assumes r: "r = (n + 31) div 32 - 2" and n: "64 < n" and k: "k < r"
    and V: "\<And>i. V (Suc i) = blake2b_hash 64 (V i)" "\<And>i. length (V i) = 64"
  shows "digest_long_rest (n - 32 * Suc k) (V k)
    = concat (map (\<lambda>i. take 32 (V i)) [Suc k..<r]) @ blake2b_hash (n - 32 * r) (V (r - 1))"
  using k
proof (induction "r - k" arbitrary: k)
  case (Suc d)
  have last: "n - 32 * Suc j \<le> 64 \<longleftrightarrow> r \<le> Suc j" for j using r n by auto
  show ?case
  proof (cases "Suc k < r")
    case True
    then have "64 < n - 32 * Suc k" using last[of k] by simp
    then have "digest_long_rest (n - 32 * Suc k) (V k)
        = take 32 (V (Suc k)) @ digest_long_rest (n - 32 * Suc k - 32) (V (Suc k))"
      using digest_long_rest_step(1)[of "V k" "n - 32 * Suc k"] V by simp
    moreover have "n - 32 * Suc k - 32 = n - 32 * Suc (Suc k)" by simp
    ultimately show ?thesis using Suc.hyps(1)[of "Suc k"] Suc.hyps(2) True by (simp add: upt_conv_Cons)
  next
    case False
    then have "r = Suc k" using Suc.prems by simp
    then show ?thesis using last[of k] digest_long_rest_step(2)[of "V k" "n - 32 * Suc k"] V by simp
  qed
qed simp

lemma digest_long_hprime:
  assumes "length input < 2 ^ 63"
  shows "digest_long n input = hprime n input"
proof (cases "n \<le> 64")
  case True
  then show ?thesis using assms by (simp add: digest_long_def hprime_def BLAKE2B_OUT_BYTES_def Let_def update_twice)
next
  case False
  define r where "r = (n + 31) div 32 - 2"
  define V where "V = (\<lambda>i. (blake2b_hash 64 ^^ i) (blake2b_hash 64 (store32 (of_nat n) @ input)))"
  have r: "0 < r" using False by (auto simp: r_def)
  have V: "V (Suc i) = blake2b_hash 64 (V i)" "length (V i) = 64" for i
    by (cases i; simp add: V_def)+
  have "digest_long n input = take 32 (V 0) @ digest_long_rest (n - 32 * Suc 0) (V 0)"
    using False assms by (simp add: digest_long_def BLAKE2B_OUT_BYTES_def Let_def update_twice V_def)
  also have "\<dots> = take 32 (V 0) @ concat (map (\<lambda>i. take 32 (V i)) [Suc 0..<r]) @ blake2b_hash (n - 32 * r) (V (r - 1))"
    using digest_long_rest_hprime[where V = V, OF r_def _ r V] False by simp
  also have "\<dots> = hprime n input"
    using False r by (simp add: hprime_def Let_def r_def[symmetric] V_def[symmetric] upt_conv_Cons)
  finally show ?thesis .
qed

lemma initial_hash_h0:
  assumes "length password < 2 ^ 32" "length salt < 2 ^ 32"
  shows "initial_hash password salt o_len m t v ty l = h0_hash password salt o_len m t v ty l"
  using streaming_hash[of "[concat (map (\<lambda>field. store32 (of_nat field)) [l, o_len, m, t, v, ty, length password]),
      password, store32 (of_nat (length salt)), salt, store32 0, store32 0]" 64] assms
  by (simp add: initial_hash_def h0_hash_def Let_def)

lemma length_h0 [simp]: "length (h0_hash password salt o_len m t v ty l) = 64"
  by (simp add: h0_hash_def)

subsection \<open>Writes to disjoint slots commute\<close>

lemma nth_buf_write:
  "pos + length bs \<le> length buf \<Longrightarrow> i < length buf \<Longrightarrow>
   buf_write pos bs buf ! i = (if pos \<le> i \<and> i < pos + length bs then bs ! (i - pos) else buf ! i)"
  by (auto simp: buf_write_def nth_append min_def)

lemma buf_write_adjacent:
  "pos + length a + length b \<le> length buf \<Longrightarrow>
   buf_write (pos + length a) b (buf_write pos a buf) = buf_write pos (a @ b) buf"
  by (simp add: buf_write_def add.commute add.left_commute)

text \<open>Slot \<open>j\<close> of size \<open>S\<close> receives the bytes \<open>F j\<close> for every \<open>j\<close> of a list, in its order: what
  stands in the buffer afterwards does not depend on the order.\<close>

lemma slot_index:
  assumes "L \<le> (S::nat)"
  shows "(j * S \<le> i \<and> i < j * S + L) \<longleftrightarrow> (i div S = j \<and> i mod S < L)"
proof
  assume a: "j * S \<le> i \<and> i < j * S + L"
  then have "i div S = j" using assms by (intro div_nat_eqI) (auto simp: algebra_simps)
  moreover from this have "i = j * S + i mod S" by (metis div_mult_mod_eq)
  ultimately show "i div S = j \<and> i mod S < L" using a by linarith
next
  assume a: "i div S = j \<and> i mod S < L"
  then have "i = j * S + i mod S" by (metis div_mult_mod_eq)
  then show "j * S \<le> i \<and> i < j * S + L" using a by linarith
qed

lemma fold_slot_writes:
  assumes "0 < S" "L \<le> S" "n * S \<le> length buf"
    and "\<And>j. j \<in> set js \<Longrightarrow> j < n" "\<And>j. length (F j) = L"
  shows "length (fold (\<lambda>j. buf_write (j * S) (F j)) js buf) = length buf
    \<and> (\<forall>i < length buf. fold (\<lambda>j. buf_write (j * S) (F j)) js buf ! i
         = (if i div S \<in> set js \<and> i mod S < L then F (i div S) ! (i mod S) else buf ! i))"
  using assms(4)
proof (induction js rule: rev_induct)
  case Nil
  then show ?case using assms(3) by simp
next
  case (snoc j js)
  let ?m = "fold (\<lambda>j. buf_write (j * S) (F j)) js buf"
  have m: "length ?m = length buf" and j: "j < n" using snoc by auto
  have "Suc j * S \<le> n * S" using j by (intro mult_le_mono1) simp
  then have fits: "j * S + L \<le> length buf" using assms(2,3) by simp
  have "buf_write (j * S) (F j) ?m ! i
      = (if i div S \<in> set (js @ [j]) \<and> i mod S < L then F (i div S) ! (i mod S) else buf ! i)"
    if "i < length buf" for i
    using snoc.IH snoc.prems that fits m slot_index[OF assms(2), of j i] assms(5)
    by (auto simp: nth_buf_write minus_div_mult_eq_mod)
  then show ?case using m fits assms(5) by simp
qed

subsection \<open>The launch\<close>

lemma length_first_blocks [simp]: "length (first_blocks h0) = 2048"
  by (simp add: first_blocks_def)

lemma length_job_first_blocks [simp]: "length (job_first_blocks p keys salt j) = 2048"
  by (simp add: job_first_blocks_def)

lemma first_blocks_item_writes:
  fixes item :: "nat \<times> nat"
  assumes "0 < k_segment_blocks p" "4 * k_segment_blocks p < 2 ^ 32" "k_key_length p < 2 ^ 32" "length salt < 2 ^ 32"
    and "k_batch_size p * (4096 * k_segment_blocks p) \<le> length memory"
  defines "j \<equiv> fst item * k_threads_per_block p + snd item"
  shows "first_blocks_item p keys salt item memory =
    (if j < k_batch_size p then buf_write (j * (4096 * k_segment_blocks p)) (job_first_blocks p keys salt j) memory
     else memory)"
proof (cases "j < k_batch_size p")
  case True
  let ?S = "4096 * k_segment_blocks p"
  have "Suc j * ?S \<le> k_batch_size p * ?S" using True by (intro mult_le_mono1) simp
  then have "j * ?S + 2048 \<le> length memory" using assms(1,5) by simp
  then have adj: "length a = 1024 \<Longrightarrow> length b = 1024 \<Longrightarrow>
      buf_write (j * ?S + 1024) b (buf_write (j * ?S) a memory) = buf_write (j * ?S) (a @ b) memory" for a b
    using buf_write_adjacent[of "j * ?S" a b memory] by simp
  show ?thesis using True assms(2-4)
    by (simp add: first_blocks_item_def Let_def j_def[symmetric] initial_hash_h0 digest_long_hprime
        adj job_first_blocks_def first_blocks_def mult.assoc)
qed (simp add: first_blocks_item_def j_def)

lemma launch_writes:
  assumes "0 < k_segment_blocks p" "4 * k_segment_blocks p < 2 ^ 32" "k_key_length p < 2 ^ 32" "length salt < 2 ^ 32"
    and "k_batch_size p * (4096 * k_segment_blocks p) \<le> length memory"
  shows "argon2_first_blocks_kernel p keys salt items memory =
    fold (\<lambda>j. buf_write (j * (4096 * k_segment_blocks p)) (job_first_blocks p keys salt j))
      (filter (\<lambda>j. j < k_batch_size p) (map (\<lambda>(g, t). g * k_threads_per_block p + t) items)) memory"
  unfolding argon2_first_blocks_kernel_def using assms(5)
proof (induction items arbitrary: memory)
  case (Cons item items)
  let ?j = "fst item * k_threads_per_block p + snd item"
  have "?j * (4096 * k_segment_blocks p) + 2048 \<le> length memory" if "?j < k_batch_size p"
  proof -
    have "Suc ?j * (4096 * k_segment_blocks p) \<le> k_batch_size p * (4096 * k_segment_blocks p)"
      using that by (intro mult_le_mono1) simp
    also have "\<dots> \<le> length memory" by (rule Cons.prems)
    finally show ?thesis using assms(1) by simp
  qed
  then show ?case using Cons.IH[of "first_blocks_item p keys salt item memory"] Cons.prems
    by (auto simp: first_blocks_item_writes[OF assms(1-4) Cons.prems] split_beta)
qed simp

lemma covers_batch:
  assumes "set items = {0..<groups} \<times> {0..<t}" "j < groups * (t::nat)"
  shows "j \<in> (\<lambda>(g, i). g * t + i) ` set items"
proof -
  have "0 < t" using assms(2) by (cases "t = 0") auto
  then show ?thesis unfolding assms(1) using assms(2)
    by (intro image_eqI[where x = "(j div t, j mod t)"]) (auto simp: less_mult_imp_div_less)
qed

lemma first_blocks_slots:
  fixes p keys salt items memory
  defines "S \<equiv> 4096 * k_segment_blocks p"
    and "memory' \<equiv> argon2_first_blocks_kernel p keys salt items memory"
  assumes "0 < k_segment_blocks p" "4 * k_segment_blocks p < 2 ^ 32" "k_key_length p < 2 ^ 32" "length salt < 2 ^ 32"
    and len: "k_batch_size p * S \<le> length memory"
    and grid: "set items = {0..<groups} \<times> {0..<k_threads_per_block p}" "k_batch_size p \<le> groups * k_threads_per_block p"
  shows "length memory' = length memory"
    and "j < k_batch_size p \<Longrightarrow> take 2048 (drop (j * S) memory') = job_first_blocks p keys salt j"
    and "i < length memory \<Longrightarrow> 2048 \<le> i mod S \<Longrightarrow> memory' ! i = memory ! i"
proof -
  let ?js = "filter (\<lambda>j. j < k_batch_size p) (map (\<lambda>(g, t). g * k_threads_per_block p + t) items)"
  have w: "memory' = fold (\<lambda>j. buf_write (j * S) (job_first_blocks p keys salt j)) ?js memory"
    using launch_writes[of p salt memory keys items] assms by simp
  have S: "0 < S" "2048 \<le> S" using assms(3) by (auto simp: S_def)
  note f = fold_slot_writes[OF S len, of ?js "job_first_blocks p keys salt", folded w]
  then have l: "length memory' = length memory"
    and n: "i < length memory \<Longrightarrow> memory' ! i =
      (if i div S \<in> set ?js \<and> i mod S < 2048 then job_first_blocks p keys salt (i div S) ! (i mod S) else memory ! i)" for i
    by auto
  show "length memory' = length memory" by (rule l)
  show "i < length memory \<Longrightarrow> 2048 \<le> i mod S \<Longrightarrow> memory' ! i = memory ! i" using n by simp
  assume j: "j < k_batch_size p"
  then have "j \<in> set ?js" using covers_batch[OF grid(1), of j] grid(2) by auto
  moreover have "Suc j * S \<le> k_batch_size p * S" using j by (intro mult_le_mono1) simp
  then have "j * S + 2048 \<le> length memory" using S(2) len by simp
  ultimately show "take 2048 (drop (j * S) memory') = job_first_blocks p keys salt j"
    using S l n by (intro nth_equalityI) (auto simp: div_mult_self3)
qed

text \<open>C35.  A launch of the first-blocks kernel that covers the batch, its work-items run in any order,
  leaves in the first two blocks of every job's lane the two blocks RFC 9106 prescribes for the
  job's password, and changes no other byte of the device memory.\<close>

theorem first_blocks_launch:
  fixes p keys salt items memory
  defines "S \<equiv> 4096 * k_segment_blocks p"
    and "memory' \<equiv> argon2_first_blocks_kernel p keys salt items memory"
  assumes "0 < k_segment_blocks p" "4 * k_segment_blocks p < 2 ^ 32" "k_key_length p < 2 ^ 32" "length salt < 2 ^ 32"
    and "k_batch_size p * S \<le> length memory"
    and "set items = {0..<groups} \<times> {0..<k_threads_per_block p}" "k_batch_size p \<le> groups * k_threads_per_block p"
  shows "length memory' = length memory
    \<and> (\<forall>j < k_batch_size p. take 2048 (drop (j * S) memory') = job_first_blocks p keys salt j)
    \<and> (\<forall>i < length memory. 2048 \<le> i mod S \<longrightarrow> memory' ! i = memory ! i)"
  unfolding S_def memory'_def using first_blocks_slots[OF assms(3-6) assms(7)[unfolded S_def] assms(8,9)] by blast

text \<open>Three jobs on a grid of two groups of two work-items, run in a scrambled order; the fourth
  work-item is past the batch.\<close>

definition demo_params :: kernel_params where
  "demo_params = \<lparr> k_batch_size = 3, k_key_length = 4, k_output_length = 64, k_memory_cost = 8, k_time_cost = 1,
     k_version = 19, k_type = 2, k_lanes = 1, k_segment_blocks = 2, k_threads_per_block = 2 \<rparr>"

theorem first_blocks_launch_witness:
  "take 2048 (drop 8192 (argon2_first_blocks_kernel demo_params [1,2,3,4,5,6,7,8,9,10,11,12] [7,7]
      [(1, 1), (0, 1), (1, 0), (0, 0)] (replicate 24576 0)))
    = job_first_blocks demo_params [1,2,3,4,5,6,7,8,9,10,11,12] [7,7] 1"
proof -
  have "set [(1, 1), (0, 1), (1, 0), (0, 0)] = {0..<2::nat} \<times> {0..<2::nat}"
    by (auto simp: numeral_2_eq_2 less_Suc_eq)
  then have "\<forall>j < 3. take 2048 (drop (j * 8192) (argon2_first_blocks_kernel demo_params [1,2,3,4,5,6,7,8,9,10,11,12] [7,7]
      [(1, 1), (0, 1), (1, 0), (0, 0)] (replicate 24576 0)))
      = job_first_blocks demo_params [1,2,3,4,5,6,7,8,9,10,11,12] [7,7] j"
    using first_blocks_launch[of demo_params "[7,7]" "replicate 24576 0" "[(1, 1), (0, 1), (1, 0), (0, 0)]" 2
        "[1,2,3,4,5,6,7,8,9,10,11,12]"]
    by (simp add: demo_params_def)
  from this[rule_format, of 1] show ?thesis by simp
qed

end
