(* ===== verification/Argon2_Host.thy ===== *)
theory Argon2_Host
  imports First_Blocks
begin

text \<open>
  The host half of Argon2 (\<^verbatim>\<open>tm-argon2/src/host.rs\<close>): the first blocks of a job and of a batch,
  and the reduction of the last block.  The \<^verbatim>\<open>blake2\<close> crate is the parameter \<open>blake2\<close>: output length
  and message parts to the digest, \<^term>\<open>None\<close> when the crate refuses the length.  What the host needs
  of it is the locale \<open>blake2_crate\<close>, which the device's own streaming hasher satisfies.

  The batch is filled by worker threads that pop chunks of jobs from a shared queue.  A schedule is
  the sequence of workers that take the next step; a step is one pop or one job.  Panics are error
  values of their own.
\<close>

subsection \<open>Worker and chunk counts\<close>

definition MIN_PARALLEL_FIRST_BLOCK_ATTEMPTS :: nat where
  "MIN_PARALLEL_FIRST_BLOCK_ATTEMPTS = 8"

definition first_block_worker_count :: "nat \<Rightarrow> nat \<Rightarrow> nat \<Rightarrow> nat" where
  "first_block_worker_count hardware_threads attempts worker_cap =
     (if attempts < MIN_PARALLEL_FIRST_BLOCK_ATTEMPTS then 1
      else if hardware_threads < 2 then 1
      else
        (let worker_count = min attempts hardware_threads;
             worker_count = (if 0 < worker_cap then min worker_count worker_cap else worker_count)
         in max worker_count 1))"

definition first_block_chunk_size :: "nat \<Rightarrow> nat \<Rightarrow> nat" where
  "first_block_chunk_size attempts worker_count =
     (if attempts = 0 \<or> worker_count = 0 then 0 else (attempts + worker_count - 1) div worker_count)"

definition first_block_selected_chunk_size :: "nat \<Rightarrow> nat \<Rightarrow> nat \<Rightarrow> nat" where
  "first_block_selected_chunk_size attempts worker_count dynamic_chunk_size =
     (if attempts = 0 \<or> worker_count = 0 then 0
      else if 0 < dynamic_chunk_size \<and> 1 < worker_count then min attempts dynamic_chunk_size
      else first_block_chunk_size attempts worker_count)"

definition recommended_first_block_dynamic_chunk_size ::
  "bool \<Rightarrow> string \<Rightarrow> bool \<Rightarrow> nat \<Rightarrow> nat \<Rightarrow> nat \<Rightarrow> nat" where
  "recommended_first_block_dynamic_chunk_size dynamic_chunk_auto backend has_fixed_key difficulty attempts worker_count =
     (if \<not> dynamic_chunk_auto \<or> backend \<noteq> ''cuda'' \<or> has_fixed_key \<or> attempts < 1024 \<or> worker_count \<le> 1 then 0
      else if difficulty = 1 then 16
      else if difficulty = 8 then (if 2048 \<le> attempts then 16 else 32)
      else if difficulty = 64 \<and> attempts \<le> 2048 then 16
      else 0)"

record cpu_argon2_host =
  ch_workers :: nat
  ch_dynamic_chunk_size :: nat

definition host_new :: cpu_argon2_host where
  "host_new = \<lparr> ch_workers = 0, ch_dynamic_chunk_size = 0 \<rparr>"

definition single_threaded :: cpu_argon2_host where
  "single_threaded = \<lparr> ch_workers = 1, ch_dynamic_chunk_size = 0 \<rparr>"

definition with_workers :: "nat \<Rightarrow> cpu_argon2_host \<Rightarrow> cpu_argon2_host" where
  "with_workers workers h = h\<lparr> ch_workers := workers \<rparr>"

definition with_dynamic_chunk_size :: "nat \<Rightarrow> cpu_argon2_host \<Rightarrow> cpu_argon2_host" where
  "with_dynamic_chunk_size jobs h = h\<lparr> ch_dynamic_chunk_size := jobs \<rparr>"

definition worker_count :: "nat \<Rightarrow> cpu_argon2_host \<Rightarrow> nat \<Rightarrow> nat" where
  "worker_count hardware_threads h attempts = first_block_worker_count hardware_threads attempts (ch_workers h)"

definition chunk_size :: "nat \<Rightarrow> cpu_argon2_host \<Rightarrow> nat \<Rightarrow> nat" where
  "chunk_size hardware_threads h attempts =
     first_block_selected_chunk_size attempts (worker_count hardware_threads h attempts) (ch_dynamic_chunk_size h)"

subsection \<open>Hashing over the crate\<close>

datatype host_error = Host_Err string | Host_Panic string

type_synonym blake2_fn = "nat \<Rightarrow> bytes list \<Rightarrow> bytes option"

definition host_blake2b :: "blake2_fn \<Rightarrow> nat \<Rightarrow> bytes list \<Rightarrow> host_error + bytes" where
  "host_blake2b blake2 n parts =
     (case blake2 n parts of
        None \<Rightarrow> Inl (Host_Panic ''blake2b output length is in range'')
      | Some h \<Rightarrow> Inr h)"

function host_digest_long_rest :: "blake2_fn \<Rightarrow> nat \<Rightarrow> bytes \<Rightarrow> host_error + bytes" where
  "host_digest_long_rest blake2 to_produce buffer =
     (if BLAKE2B_OUT_BYTES < to_produce then
        rbind (host_blake2b blake2 BLAKE2B_OUT_BYTES [buffer]) (\<lambda>buffer'.
          rbind (host_digest_long_rest blake2 (to_produce - BLAKE2B_OUT_BYTES div 2) buffer') (\<lambda>rest.
            Inr (take (BLAKE2B_OUT_BYTES div 2) buffer' @ rest)))
      else host_blake2b blake2 to_produce [buffer])"
  by pat_completeness auto
termination
  by (relation "measure (\<lambda>(b, n, buf). n)") (auto simp: BLAKE2B_OUT_BYTES_def)

declare host_digest_long_rest.simps [simp del]

definition host_digest_long :: "blake2_fn \<Rightarrow> nat \<Rightarrow> bytes \<Rightarrow> host_error + bytes" where
  "host_digest_long blake2 out_len input =
     (let length_prefix = store32 (of_nat out_len)
      in if out_len \<le> BLAKE2B_OUT_BYTES then host_blake2b blake2 out_len [length_prefix, input]
         else
           rbind (host_blake2b blake2 BLAKE2B_OUT_BYTES [length_prefix, input]) (\<lambda>buffer.
             rbind (host_digest_long_rest blake2 (out_len - BLAKE2B_OUT_BYTES div 2) buffer) (\<lambda>rest.
               Inr (take (BLAKE2B_OUT_BYTES div 2) buffer @ rest))))"

definition host_initial_hash :: "blake2_fn \<Rightarrow> bytes \<Rightarrow> bytes \<Rightarrow> argon2_shape \<Rightarrow> host_error + bytes" where
  "host_initial_hash blake2 password salt shape =
     host_blake2b blake2 64
       [concat (map (\<lambda>v. store32 (of_nat v))
          [sh_lanes shape, sh_output_length shape, sh_memory_cost shape, sh_passes shape, sh_version shape,
           sh_type shape, length password]),
        password, store32 (of_nat (length salt)), salt, replicate 8 0]"

definition INPUT_BLOCKS_PER_JOB :: nat where
  "INPUT_BLOCKS_PER_JOB = 2"

definition slot_bytes :: "argon2_shape \<Rightarrow> nat" where
  "slot_bytes shape = INPUT_BLOCKS_PER_JOB * ARGON2_BLOCK_SIZE * sh_lanes shape"

definition fill_first_blocks ::
  "blake2_fn \<Rightarrow> bytes \<Rightarrow> bytes \<Rightarrow> bytes \<Rightarrow> argon2_shape \<Rightarrow> host_error + bytes" where
  "fill_first_blocks blake2 out password salt shape =
     (let want = slot_bytes shape
      in if length out \<noteq> want then
           Inl (Host_Err (''first-block slot is '' @ show_nat (length out) @ '' bytes, want '' @ show_nat want))
         else if sh_lanes shape = 0 then Inl (Host_Err ''shape must have at least one lane'')
         else
           rbind (host_initial_hash blake2 password salt shape) (\<lambda>h0.
             rbind (rmapM (\<lambda>(block_index, lane).
                      host_digest_long blake2 ARGON2_BLOCK_SIZE (h0 @ store32 (of_nat block_index) @ store32 (of_nat lane)))
                    (List.product [0..<2] [0..<sh_lanes shape])) (\<lambda>blocks.
               Inr (concat blocks))))"

subsection \<open>The batch\<close>

text \<open>Rust's \<^verbatim>\<open>chunks\<close>; a chunk size of zero panics, which the callers below write out.\<close>

function chunks :: "nat \<Rightarrow> 'a list \<Rightarrow> 'a list list" where
  "chunks n xs = (if xs = [] \<or> n = 0 then [] else take n xs # chunks n (drop n xs))"
  by pat_completeness auto
termination
  by (relation "measure (\<lambda>(n, xs). length xs)") auto

declare chunks.simps [simp del]

text \<open>A worker is about to pop, or at job \<open>k\<close> of the chunk of \<open>n\<close> jobs from \<open>first_job\<close>, or it has
  returned, or panicked.\<close>

datatype worker = Popping | Filling nat nat nat | Returned "string option" | Panicked

record pool =
  p_queue :: "(nat \<times> nat) list"
  p_workers :: "worker list"
  p_out :: bytes

definition worker_done :: "worker \<Rightarrow> bool" where
  "worker_done w = (case w of Returned e \<Rightarrow> True | Panicked \<Rightarrow> True | _ \<Rightarrow> False)"

definition set_worker :: "nat \<Rightarrow> worker \<Rightarrow> pool \<Rightarrow> pool" where
  "set_worker w x st = st\<lparr> p_workers := (p_workers st)[w := x] \<rparr>"

definition worker_step ::
  "blake2_fn \<Rightarrow> bytes list \<Rightarrow> bytes \<Rightarrow> argon2_shape \<Rightarrow> nat \<Rightarrow> pool \<Rightarrow> pool" where
  "worker_step blake2 passwords salt shape w st =
     (if length (p_workers st) \<le> w then st
      else case p_workers st ! w of
        Popping \<Rightarrow>
          (case p_queue st of
             [] \<Rightarrow> set_worker w (Returned None) st
           | (first_job, jobs) # queue \<Rightarrow> set_worker w (Filling first_job 0 jobs) (st\<lparr> p_queue := queue \<rparr>))
      | Filling first_job k jobs \<Rightarrow>
          (if jobs \<le> k then set_worker w Popping st
           else
             (let slot = slot_bytes shape;
                  pos = (first_job + k) * slot
              in case fill_first_blocks blake2 (take slot (drop pos (p_out st))) (passwords ! (first_job + k)) salt shape of
                   Inl (Host_Err e) \<Rightarrow> set_worker w (Returned (Some e)) st
                 | Inl (Host_Panic m) \<Rightarrow> set_worker w Panicked st
                 | Inr blocks \<Rightarrow>
                     set_worker w (Filling first_job (Suc k) jobs) (st\<lparr> p_out := buf_write pos blocks (p_out st) \<rparr>)))
      | Returned e \<Rightarrow> st
      | Panicked \<Rightarrow> st)"

fun first_failure :: "worker list \<Rightarrow> string option" where
  "first_failure [] = None"
| "first_failure (Returned (Some e) # ws) = Some e"
| "first_failure (Panicked # ws) = Some ''a first-block worker panicked''"
| "first_failure (w # ws) = first_failure ws"

text \<open>\<^verbatim>\<open>fill_first_blocks_batch\<close>.  The outer \<^term>\<open>None\<close> says that the schedule ends before the workers
  do; the sequential path does not look at it.\<close>

definition fill_first_blocks_batch ::
  "blake2_fn \<Rightarrow> nat \<Rightarrow> cpu_argon2_host \<Rightarrow> nat list \<Rightarrow> bytes \<Rightarrow> bytes list \<Rightarrow> bytes \<Rightarrow> argon2_shape
   \<Rightarrow> (host_error + bytes) option" where
  "fill_first_blocks_batch blake2 hardware_threads h schedule out passwords salt shape =
     (let slot = slot_bytes shape;
          attempts = length passwords
      in if length out \<noteq> attempts * slot then
           Some (Inl (Host_Err (''first-block buffer is '' @ show_nat (length out) @ '' bytes, want ''
             @ show_nat (attempts * slot))))
         else if attempts = 0 then Some (Inr out)
         else if slot = 0 then Some (Inl (Host_Panic ''chunk size must be non-zero''))
         else
           (let workers = worker_count hardware_threads h attempts
            in if workers \<le> 1 then
                 Some (rbind (rmapM (\<lambda>(chunk, password). fill_first_blocks blake2 chunk password salt shape)
                                (zip (chunks slot out) passwords)) (\<lambda>slots.
                         Inr (concat slots)))
               else
                 (let chunk_jobs = max (first_block_selected_chunk_size attempts workers (ch_dynamic_chunk_size h)) 1;
                      queue = map (\<lambda>(index, chunk). (index * chunk_jobs, length (chunks slot chunk)))
                                (enumerate 0 (chunks (chunk_jobs * slot) out));
                      st = fold (worker_step blake2 passwords salt shape) schedule
                             \<lparr> p_queue = queue, p_workers = replicate workers Popping, p_out = out \<rparr>
                  in if \<not> list_all worker_done (p_workers st) then None
                     else case first_failure (p_workers st) of
                       Some e \<Rightarrow> Some (Inl (Host_Err e))
                     | None \<Rightarrow> Some (Inr (p_out st)))))"

subsection \<open>The last block\<close>

definition xor_blocks :: "bytes \<Rightarrow> bytes" where
  "xor_blocks last_block =
     fold (\<lambda>block acc. map2 (\<lambda>a b. xor a b) acc block) (chunks ARGON2_BLOCK_SIZE last_block)
       (replicate ARGON2_BLOCK_SIZE 0)"

definition host_finalize :: "blake2_fn \<Rightarrow> bytes \<Rightarrow> nat \<Rightarrow> host_error + bytes" where
  "host_finalize blake2 last_block out_len =
     (if last_block = [] \<or> length last_block mod ARGON2_BLOCK_SIZE \<noteq> 0 then
        Inl (Host_Err (''final block is '' @ show_nat (length last_block) @ '' bytes, want a multiple of 1024''))
      else if length last_block = ARGON2_BLOCK_SIZE then host_digest_long blake2 out_len last_block
      else host_digest_long blake2 out_len (xor_blocks last_block))"

subsection \<open>Specification: the first blocks of RFC 9106, every lane\<close>

definition lanes_first_blocks :: "bytes \<Rightarrow> nat \<Rightarrow> bytes" where
  "lanes_first_blocks h0 lanes =
     concat (map (\<lambda>(b, l). hprime 1024 (h0 @ store32 (of_nat b) @ store32 (of_nat l)))
       (List.product [0..<2] [0..<lanes]))"

definition shape_h0 :: "bytes \<Rightarrow> bytes \<Rightarrow> argon2_shape \<Rightarrow> bytes" where
  "shape_h0 password salt shape =
     h0_hash password salt (sh_output_length shape) (sh_memory_cost shape) (sh_passes shape) (sh_version shape)
       (sh_type shape) (sh_lanes shape)"

definition slot_spec :: "bytes \<Rightarrow> argon2_shape \<Rightarrow> bytes \<Rightarrow> bytes" where
  "slot_spec salt shape password = lanes_first_blocks (shape_h0 password salt shape) (sh_lanes shape)"

lemma length_lanes_first_blocks [simp]: "length (lanes_first_blocks h0 lanes) = 2048 * lanes"
  unfolding lanes_first_blocks_def by (subst length_concat_const[where k = 1024]) auto

lemma length_slot_spec [simp]: "length (slot_spec salt shape password) = slot_bytes shape"
  by (simp add: slot_spec_def slot_bytes_def INPUT_BLOCKS_PER_JOB_def ARGON2_BLOCK_SIZE_def)

lemma one_lane: "lanes_first_blocks h0 1 = first_blocks h0"
  by (simp add: lanes_first_blocks_def first_blocks_def numeral_2_eq_2)

subsection \<open>Slots of a buffer\<close>

abbreviation slot_at :: "nat \<Rightarrow> nat \<Rightarrow> 'a list \<Rightarrow> 'a list" where
  "slot_at S j buf \<equiv> take S (drop (j * S) buf)"

lemma slot_end: "j < n \<Longrightarrow> j * S + S \<le> n * (S::nat)"
  using mult_le_mono1[of "Suc j" n S] by simp

lemma slot_disjoint: "i < j \<Longrightarrow> i * S + S \<le> j * (S::nat)"
  by (rule slot_end)

lemma length_slot_at: "length buf = n * S \<Longrightarrow> j < n \<Longrightarrow> length (slot_at S j buf) = S"
  using slot_end[of j n S] by simp

lemma slot_write_same:
  assumes "length buf = n * S" "j < n" "length b = S"
  shows "slot_at S j (buf_write (j * S) b buf) = b"
  using assms slot_end[of j n S] by (simp add: buf_write_def)

lemma slot_write_other:
  assumes "length buf = n * S" "j < n" "length b = S" "i \<noteq> j"
  shows "slot_at S i (buf_write (j * S) b buf) = slot_at S i buf"
proof (cases "i < j")
  case True
  then show ?thesis using slot_disjoint[of i j S] slot_end[of j n S] assms
    by (simp add: buf_write_def take_drop min_def)
next
  case False
  then have "j < i" using assms(4) by simp
  then show ?thesis using slot_disjoint[of j i S] slot_end[of j n S] assms
    by (simp add: buf_write_def add.commute)
qed

lemma slots_determine:
  "length buf = n * S \<Longrightarrow> (\<And>j. j < n \<Longrightarrow> slot_at S j buf = F j) \<Longrightarrow> buf = concat (map F [0..<n])"
proof (induction n arbitrary: buf)
  case (Suc n)
  let ?pre = "take (n * S) buf"
  have "slot_at S j ?pre = F j" if "j < n" for j
    using Suc.prems(2)[of j] slot_end[OF that, of S] that by (simp add: take_drop min_def)
  then have "?pre = concat (map F [0..<n])" using Suc.prems(1) by (intro Suc.IH) auto
  moreover have "drop (n * S) buf = F n" using Suc.prems(2)[of n] Suc.prems(1) by simp
  ultimately show ?case by (metis append_take_drop_id concat_append concat.simps(1) concat.simps(2) append_Nil2
        list.map(1) list.map(2) map_append upt_Suc_append zero_le)
qed simp

lemma chunks_index:
  assumes "0 < n"
  shows "i < length (chunks n xs) \<longleftrightarrow> i * n < length xs"
    and "i * n < length xs \<Longrightarrow> chunks n xs ! i = take n (drop (i * n) xs)"
proof (induction i arbitrary: xs)
  case 0
  { case 1 show ?case using assms by (simp add: chunks.simps[of n xs]) }
  { case 2 then show ?case using assms by (simp add: chunks.simps[of n xs]) }
next
  case (Suc i)
  { case 1 show ?case using Suc(1)[of "drop n xs"] assms by (auto simp: chunks.simps[of n xs]) }
  { case 2 then have "xs \<noteq> []" "i * n < length (drop n xs)" by auto
    then show ?case using Suc(2)[of "drop n xs"] assms by (simp add: chunks.simps[of n xs] add.commute) }
qed

lemma length_chunks: "0 < n \<Longrightarrow> length xs = k * n \<Longrightarrow> length (chunks n xs) = k"
  using chunks_index(1)[of n _ xs] by (metis linorder_neqE_nat mult_less_cancel2 nat_neq_iff)

subsection \<open>What the host relies on\<close>

lemma empty_lengths: "replicate 8 0 = store32 0 @ store32 0"
  by (simp add: store32_def numeral_eq_Suc)

text \<open>BLAKE2b of RFC 7693, unkeyed, over the concatenation of the parts.\<close>

locale blake2_crate =
  fixes blake2 :: blake2_fn
  assumes digest: "0 < n \<Longrightarrow> n \<le> 64 \<Longrightarrow> length (concat parts) < 2 ^ 64 \<Longrightarrow>
    blake2 n parts = Some (blake2b_hash n (concat parts))"
begin

lemma blake2b_ok: "0 < n \<Longrightarrow> n \<le> 64 \<Longrightarrow> length (concat parts) < 2 ^ 64 \<Longrightarrow>
    host_blake2b blake2 n parts = Inr (blake2b_hash n (concat parts))"
  by (simp add: host_blake2b_def digest)

lemma rest_ok: "length b = 64 \<Longrightarrow> 32 < n \<Longrightarrow> host_digest_long_rest blake2 n b = Inr (digest_long_rest n b)"
proof (induction n b rule: digest_long_rest.induct)
  case (1 n b)
  then show ?case
    by (cases "64 < n")
       (simp_all add: host_digest_long_rest.simps[of blake2 n b] digest_long_rest.simps[of n b] blake2b_ok
          update_once BLAKE2B_OUT_BYTES_def Let_def)
qed

lemma digest_long_ok:
  assumes "0 < n" "length input < 2 ^ 63"
  shows "host_digest_long blake2 n input = Inr (hprime n input)"
proof -
  have "host_digest_long blake2 n input = Inr (digest_long n input)"
    using assms
    by (simp add: host_digest_long_def digest_long_def Let_def blake2b_ok rest_ok update_twice BLAKE2B_OUT_BYTES_def)
  then show ?thesis using digest_long_hprime assms by simp
qed

lemma initial_hash_ok:
  "length password < 2 ^ 32 \<Longrightarrow> length salt < 2 ^ 32 \<Longrightarrow> host_initial_hash blake2 password salt shape
   = Inr (h0_hash password salt (sh_output_length shape) (sh_memory_cost shape) (sh_passes shape) (sh_version shape)
        (sh_type shape) (sh_lanes shape))"
  by (simp add: host_initial_hash_def blake2b_ok h0_hash_def empty_lengths)

lemma fill_ok:
  assumes "length out = slot_bytes shape" "0 < sh_lanes shape" "length password < 2 ^ 32" "length salt < 2 ^ 32"
  shows "fill_first_blocks blake2 out password salt shape = Inr (slot_spec salt shape password)"
proof -
  let ?h0 = "shape_h0 password salt shape"
  have "rmapM (\<lambda>(b, l). host_digest_long blake2 1024 (?h0 @ store32 (of_nat b) @ store32 (of_nat l)))
      (List.product [0..<2] [0..<sh_lanes shape])
    = Inr (map (\<lambda>(b, l). hprime 1024 (?h0 @ store32 (of_nat b) @ store32 (of_nat l)))
        (List.product [0..<2] [0..<sh_lanes shape]))"
    by (rule rmapM_total) (auto simp: digest_long_ok shape_h0_def)
  then show ?thesis using assms
    by (simp add: fill_first_blocks_def initial_hash_ok[folded shape_h0_def] slot_spec_def lanes_first_blocks_def
        ARGON2_BLOCK_SIZE_def Let_def)
qed

end

subsection \<open>Workers in any order\<close>

text \<open>The jobs a pool still owes: those queued and those in a worker's chunk.\<close>

definition worker_todo :: "worker \<Rightarrow> nat set" where
  "worker_todo w = (case w of Filling j k n \<Rightarrow> {j + k..<j + n} | _ \<Rightarrow> {})"

definition queue_todo :: "(nat \<times> nat) list \<Rightarrow> nat set" where
  "queue_todo q = (\<Union>(j, n)\<in>set q. {j..<j + n})"

definition pool_todo :: "pool \<Rightarrow> nat set" where
  "pool_todo st = queue_todo (p_queue st) \<union> (\<Union>i<length (p_workers st). worker_todo (p_workers st ! i))"

lemma worker_todo_simps [simp]:
  "worker_todo Popping = {}" "worker_todo (Filling j k n) = {j + k..<j + n}"
  "worker_todo (Returned e) = {}" "worker_todo Panicked = {}"
  by (simp_all add: worker_todo_def)

lemma queue_todo_simps [simp]: "queue_todo [] = {}" "queue_todo ((j, n) # q) = {j..<j + n} \<union> queue_todo q"
  by (simp_all add: queue_todo_def)

definition others_todo :: "nat \<Rightarrow> worker list \<Rightarrow> nat set" where
  "others_todo w ws = (\<Union>i\<in>{..<length ws} - {w}. worker_todo (ws ! i))"

lemma pool_todo_split:
  assumes "w < length (p_workers st)"
  shows "pool_todo st = queue_todo (p_queue st) \<union> worker_todo (p_workers st ! w) \<union> others_todo w (p_workers st)"
    and "pool_todo (set_worker w x st) = queue_todo (p_queue st) \<union> worker_todo x \<union> others_todo w (p_workers st)"
  using assms by (auto simp: pool_todo_def others_todo_def set_worker_def nth_list_update split: if_splits)

lemma set_worker_simps [simp]:
  "p_queue (set_worker w x st) = p_queue st" "p_out (set_worker w x st) = p_out st"
  "p_workers (set_worker w x st) = (p_workers st)[w := x]"
  by (simp_all add: set_worker_def)

definition worker_ok :: "worker \<Rightarrow> bool" where
  "worker_ok w = (case w of Returned (Some e) \<Rightarrow> False | Panicked \<Rightarrow> False | _ \<Rightarrow> True)"

lemma worker_ok_simps [simp]:
  "worker_ok Popping" "worker_ok (Filling j k n)" "worker_ok (Returned None)" "\<not> worker_ok (Returned (Some e))"
  "\<not> worker_ok Panicked"
  by (simp_all add: worker_ok_def)

definition pool_inv :: "bytes list \<Rightarrow> bytes \<Rightarrow> argon2_shape \<Rightarrow> pool \<Rightarrow> bool" where
  "pool_inv passwords salt shape st \<longleftrightarrow>
     length (p_out st) = length passwords * slot_bytes shape
     \<and> pool_todo st \<subseteq> {..<length passwords}
     \<and> (\<forall>j < length passwords. j \<notin> pool_todo st \<longrightarrow>
          slot_at (slot_bytes shape) j (p_out st) = slot_spec salt shape (passwords ! j))
     \<and> (\<forall>x\<in>set (p_workers st). worker_ok x)
     \<and> (Returned None \<in> set (p_workers st) \<longrightarrow> p_queue st = [])"

lemma set_update_cases: "x \<in> set (xs[i := y]) \<Longrightarrow> x = y \<or> x \<in> set xs"
  using set_update_subset_insert by fastforce

context blake2_crate
begin

lemma step_inv:
  assumes inv: "pool_inv passwords salt shape st" and "0 < sh_lanes shape" "length salt < 2 ^ 32"
    and pw: "\<forall>x\<in>set passwords. length x < 2 ^ 32"
  shows "pool_inv passwords salt shape (worker_step blake2 passwords salt shape w st)"
proof (cases "w < length (p_workers st)")
  case True
  note split = pool_todo_split[OF True]
  let ?S = "slot_bytes shape"
  from inv have len: "length (p_out st) = length passwords * ?S"
    and todo: "pool_todo st \<subseteq> {..<length passwords}"
    by (auto simp: pool_inv_def)
  show ?thesis
  proof (cases "p_workers st ! w")
    case Popping
    show ?thesis
    proof (cases "p_queue st")
      case Nil
      then show ?thesis using inv True Popping
        by (auto simp: worker_step_def pool_inv_def split dest!: set_update_cases)
    next
      case (Cons c q)
      let ?st = "set_worker w (Filling (fst c) 0 (snd c)) (st\<lparr> p_queue := q \<rparr>)"
      have st: "worker_step blake2 passwords salt shape w st = ?st"
        using Cons Popping True by (simp add: worker_step_def split_beta)
      have "pool_todo ?st = pool_todo st"
        using Cons Popping True pool_todo_split(2)[of w "st\<lparr> p_queue := q \<rparr>" "Filling (fst c) 0 (snd c)"]
        by (cases c) (auto simp: split)
      then show ?thesis unfolding st using inv Cons by (auto simp: pool_inv_def dest!: set_update_cases)
    qed
  next
    case (Filling j k n)
    show ?thesis
    proof (cases "n \<le> k")
      case True
      then show ?thesis using inv Filling \<open>w < length (p_workers st)\<close>
        by (auto simp: worker_step_def pool_inv_def split dest!: set_update_cases)
    next
      case False
      then have "j + k \<in> pool_todo st" using Filling by (simp add: split)
      then have jk: "j + k < length passwords" using todo by auto
      let ?b = "slot_spec salt shape (passwords ! (j + k))"
      have fill: "fill_first_blocks blake2 (slot_at ?S (j + k) (p_out st)) (passwords ! (j + k)) salt shape = Inr ?b"
        using assms pw jk length_slot_at[OF len jk] by (intro fill_ok) auto
      let ?st = "set_worker w (Filling j (Suc k) n) (st\<lparr> p_out := buf_write ((j + k) * ?S) ?b (p_out st) \<rparr>)"
      have st: "worker_step blake2 passwords salt shape w st = ?st"
        using Filling False True fill by (simp add: worker_step_def Let_def)
      have t: "pool_todo ?st \<subseteq> pool_todo st" "\<And>i. i \<notin> pool_todo ?st \<Longrightarrow> i = j + k \<or> i \<notin> pool_todo st"
        using Filling True pool_todo_split(2)[of w "st\<lparr> p_out := buf_write ((j + k) * ?S) ?b (p_out st) \<rparr>" "Filling j (Suc k) n"]
        by (auto simp: split)
      have "slot_at ?S i (p_out ?st) = slot_spec salt shape (passwords ! i)" if "i < length passwords" "i \<notin> pool_todo ?st" for i
        using inv that t(2)[OF that(2)] slot_write_same[OF len jk, of ?b] slot_write_other[OF len jk, of ?b i]
        by (cases "i = j + k") (auto simp: pool_inv_def)
      then show ?thesis unfolding st
        using inv t(1) slot_end[OF jk, of ?S] len by (auto simp: pool_inv_def dest!: set_update_cases)
    qed
  qed (use inv True in \<open>simp_all add: worker_step_def\<close>)
qed (use inv in \<open>simp add: worker_step_def\<close>)

lemma run_inv:
  assumes "pool_inv passwords salt shape st" "0 < sh_lanes shape" "length salt < 2 ^ 32"
    "\<forall>x\<in>set passwords. length x < 2 ^ 32"
  shows "pool_inv passwords salt shape (fold (worker_step blake2 passwords salt shape) schedule st)"
  using assms(1)
proof (induction schedule arbitrary: st)
  case (Cons w schedule)
  then show ?case using Cons.IH[OF step_inv[OF Cons.prems assms(2-4)]] by simp
qed simp

end

lemma first_failure_ok: "list_all worker_ok ws \<Longrightarrow> first_failure ws = None"
  by (induction ws rule: first_failure.induct) auto

lemma pool_finished:
  assumes inv: "pool_inv passwords salt shape st" and fin: "list_all worker_done (p_workers st)" and "p_workers st \<noteq> []"
  shows "first_failure (p_workers st) = None" "p_out st = concat (map (slot_spec salt shape) passwords)"
proof -
  have r: "x = Returned None" if "x \<in> set (p_workers st)" for x
    using inv fin that by (cases x) (auto simp: pool_inv_def list_all_iff worker_done_def worker_ok_def split: option.splits)
  then have "p_queue st = []" using inv assms(3) by (cases "p_workers st") (auto simp: pool_inv_def)
  moreover have "worker_todo (p_workers st ! i) = {}" if "i < length (p_workers st)" for i
    using r[OF nth_mem[OF that]] by simp
  ultimately have "pool_todo st = {}" by (simp add: pool_todo_def)
  then have "p_out st = concat (map (\<lambda>j. slot_spec salt shape (passwords ! j)) [0..<length passwords])"
    using inv by (intro slots_determine) (auto simp: pool_inv_def)
  also have "map (\<lambda>j. slot_spec salt shape (passwords ! j)) [0..<length passwords] = map (slot_spec salt shape) passwords"
    by (rule nth_equalityI) auto
  finally show "p_out st = concat (map (slot_spec salt shape) passwords)" .
  show "first_failure (p_workers st) = None"
    using inv by (intro first_failure_ok) (simp add: pool_inv_def list_all_iff)
qed

text \<open>The queue the batch starts with covers every job.\<close>

definition start_queue :: "nat \<Rightarrow> nat \<Rightarrow> bytes \<Rightarrow> (nat \<times> nat) list" where
  "start_queue slot chunk_jobs out =
     map (\<lambda>(index, chunk). (index * chunk_jobs, length (chunks slot chunk))) (enumerate 0 (chunks (chunk_jobs * slot) out))"

lemma start_queue_nth:
  assumes "0 < slot" "0 < c" "length out = n * slot"
  shows "i < length (start_queue slot c out) \<longleftrightarrow> i * c < n"
    and "i * c < n \<Longrightarrow> start_queue slot c out ! i = (i * c, min c (n - i * c))"
proof -
  have "i * (c * slot) < length out \<longleftrightarrow> i * c < n"
    using assms by (simp add: mult.assoc[symmetric])
  then have len: "i < length (chunks (c * slot) out) \<longleftrightarrow> i * c < n"
    using chunks_index(1)[of "c * slot" i out] assms by simp
  then show "i < length (start_queue slot c out) \<longleftrightarrow> i * c < n" by (simp add: start_queue_def)
  assume i: "i * c < n"
  then have "chunks (c * slot) out ! i = take (c * slot) (drop (i * (c * slot)) out)"
    using chunks_index(2)[of "c * slot" i out] assms by (simp add: mult.assoc[symmetric])
  moreover have "length (take (c * slot) (drop (i * (c * slot)) out)) = min c (n - i * c) * slot"
    using assms(3) by (simp add: nat_mult_min_left diff_mult_distrib mult.assoc min.commute)
  ultimately show "start_queue slot c out ! i = (i * c, min c (n - i * c))"
    using i len assms(1) by (simp add: start_queue_def nth_enumerate_eq length_chunks del: length_take length_drop)
qed

lemma start_queue_todo:
  assumes "0 < slot" "0 < c" "length out = n * slot"
  shows "queue_todo (start_queue slot c out) = {..<n}"
proof (intro equalityI subsetI)
  note q = start_queue_nth[OF assms]
  fix j assume "j \<in> queue_todo (start_queue slot c out)"
  then obtain i where "i < length (start_queue slot c out)" "j \<in> (\<lambda>(j, n). {j..<j + n}) (start_queue slot c out ! i)"
    unfolding queue_todo_def by (metis (no_types, lifting) UN_E in_set_conv_nth)
  then show "j \<in> {..<n}" using q[of i] by auto
next
  note q = start_queue_nth[OF assms]
  fix j assume "j \<in> {..<n}"
  then have j: "j < n" by simp
  have i: "j div c * c \<le> j" "j < j div c * c + c"
    using assms(2) by (simp_all add: dividend_less_div_times add.commute)
  then have "start_queue slot c out ! (j div c) \<in> set (start_queue slot c out)" using q(1)[of "j div c"] j i by (intro nth_mem) linarith
  moreover have "start_queue slot c out ! (j div c) = (j div c * c, min c (n - j div c * c))"
    using q(2)[of "j div c"] i j by linarith
  ultimately show "j \<in> queue_todo (start_queue slot c out)"
    using i j unfolding queue_todo_def by (intro UN_I) auto
qed

lemma start_inv:
  assumes "0 < slot_bytes shape" "0 < c" "length out = length passwords * slot_bytes shape"
  shows "pool_inv passwords salt shape
    \<lparr> p_queue = start_queue (slot_bytes shape) c out, p_workers = replicate k Popping, p_out = out \<rparr>"
  using assms start_queue_todo[OF assms] by (auto simp: pool_inv_def pool_todo_def)

subsection \<open>The workers finish\<close>

text \<open>Every step of a worker that has not finished decreases this weight; a pop pays for the
  chunk's jobs and for the return to the queue.\<close>

definition worker_weight :: "worker \<Rightarrow> nat" where
  "worker_weight w = (case w of Popping \<Rightarrow> 1 | Filling j k n \<Rightarrow> n - k + 2 | _ \<Rightarrow> 0)"

definition pool_weight :: "pool \<Rightarrow> nat" where
  "pool_weight st = (\<Sum>(j, n)\<leftarrow>p_queue st. n + 2) + sum_list (map worker_weight (p_workers st))"

lemma weight_update:
  "w < length ws \<Longrightarrow> sum_list (map worker_weight (ws[w := x])) + worker_weight (ws ! w)
   = sum_list (map worker_weight ws) + worker_weight x"
  by (simp add: map_update sum_list_update elem_le_sum_list)
     (metis (no_types, lifting) elem_le_sum_list le_add_diff_inverse2 length_map nth_map add.commute add_diff_assoc2 add.left_commute trans_le_add1)

lemma step_workers [simp]: "length (p_workers (worker_step blake2 passwords salt shape w st)) = length (p_workers st)"
  by (simp add: worker_step_def Let_def split: worker.splits list.splits sum.splits host_error.splits)

lemma step_weight:
  assumes "w < length (p_workers st)" "\<not> worker_done (p_workers st ! w)"
  shows "pool_weight (worker_step blake2 passwords salt shape w st) < pool_weight st"
proof -
  note u = weight_update[OF assms(1)]
  note simps = worker_step_def pool_weight_def worker_done_def worker_weight_def Let_def
  show ?thesis
  proof (cases "p_workers st ! w")
    case Popping
    then show ?thesis using assms u[of "Returned None"] u[of "Filling (fst (hd (p_queue st))) 0 (snd (hd (p_queue st)))"]
      by (cases "p_queue st") (auto simp: simps)
  next
    case (Filling j k n)
    show ?thesis
    proof (cases "fill_first_blocks blake2 (slot_at (slot_bytes shape) (j + k) (p_out st)) (passwords ! (j + k)) salt shape")
      case (Inl e)
      then show ?thesis using Filling assms u[of Popping] u[of Panicked] u[of "Returned (Some (case e of Host_Err m \<Rightarrow> m | Host_Panic m \<Rightarrow> m))"]
        by (cases e) (auto simp: simps)
    next
      case (Inr b)
      then show ?thesis using Filling assms u[of Popping] u[of "Filling j (Suc k) n"] by (auto simp: simps)
    qed
  qed (use assms in \<open>simp_all add: worker_done_def\<close>)
qed


text \<open>A round gives every worker one step.\<close>

abbreviation run_pool :: "blake2_fn \<Rightarrow> bytes list \<Rightarrow> bytes \<Rightarrow> argon2_shape \<Rightarrow> nat list \<Rightarrow> pool \<Rightarrow> pool" where
  "run_pool blake2 passwords salt shape schedule st \<equiv> fold (worker_step blake2 passwords salt shape) schedule st"

lemma step_done_id:
  "(w < length (p_workers st) \<Longrightarrow> worker_done (p_workers st ! w)) \<Longrightarrow> worker_step blake2 passwords salt shape w st = st"
  by (cases "w < length (p_workers st)") (auto simp: worker_step_def worker_done_def split: worker.splits)

lemma step_weight_cases:
  "worker_step blake2 passwords salt shape w st = st
   \<or> pool_weight (worker_step blake2 passwords salt shape w st) < pool_weight st"
  using step_weight step_done_id by blast

lemma step_weight_le: "pool_weight (worker_step blake2 passwords salt shape w st) \<le> pool_weight st"
  using step_weight_cases[of blake2 passwords salt shape w st] by auto

lemma run_workers [simp]: "length (p_workers (run_pool blake2 passwords salt shape schedule st)) = length (p_workers st)"
  by (induction schedule arbitrary: st) auto

lemma run_weight_le: "pool_weight (run_pool blake2 passwords salt shape schedule st) \<le> pool_weight st"
  by (induction schedule arbitrary: st) (auto intro: order_trans[OF _ step_weight_le])

lemma round_weight:
  assumes "\<not> list_all worker_done (p_workers st)" "length (p_workers st) \<le> k"
  shows "pool_weight (run_pool blake2 passwords salt shape [0..<k] st) < pool_weight st"
proof -
  let ?run = "run_pool blake2 passwords salt shape"
  have cases: "?run [0..<m] st = st \<or> pool_weight (?run [0..<m] st) < pool_weight st" for m
  proof (induction m)
    case (Suc m)
    show ?case
    proof (cases "?run [0..<m] st = st")
      case True
      then show ?thesis using step_weight_cases[of blake2 passwords salt shape m st] by simp
    next
      case False
      then show ?thesis using Suc step_weight_le[of blake2 passwords salt shape m "?run [0..<m] st"] by auto
    qed
  qed simp
  have "?run [0..<k] st \<noteq> st"
  proof
    assume eq: "?run [0..<k] st = st"
    obtain w where w: "w < length (p_workers st)" "\<not> worker_done (p_workers st ! w)"
      using assms(1) by (auto simp: list_all_length)
    have k: "[0..<k] = [0..<w] @ w # [Suc w..<k]" using w assms(2)
      by (metis le_add_diff_inverse less_imp_le order.strict_trans2 upt_add_eq_append upt_conv_Cons zero_le)
    have "pool_weight (?run [0..<k] st) \<le> pool_weight (worker_step blake2 passwords salt shape w (?run [0..<w] st))"
      unfolding k by (simp add: run_weight_le)
    also have "\<dots> < pool_weight st"
    proof (cases "?run [0..<w] st = st")
      case True
      then show ?thesis using step_weight[OF w] by simp
    next
      case False
      then have "pool_weight (?run [0..<w] st) < pool_weight st"
        using cases by blast
      then show ?thesis using step_weight_le order_le_less_trans by blast
    qed
    finally show False using eq by simp
  qed
  then show ?thesis using cases by blast
qed

lemma done_stays: "list_all worker_done (p_workers st) \<Longrightarrow> run_pool blake2 passwords salt shape schedule st = st"
proof (induction schedule)
  case (Cons w ws)
  then have "worker_step blake2 passwords salt shape w st = st"
    by (intro step_done_id) (simp add: list_all_length)
  then show ?case using Cons by simp
qed simp

lemma rounds_finish:
  "length (p_workers st) \<le> k \<Longrightarrow> pool_weight st \<le> r \<Longrightarrow>
   list_all worker_done (p_workers (run_pool blake2 passwords salt shape (concat (replicate r [0..<k])) st))"
proof (induction r arbitrary: st)
  case 0
  then show ?case using round_weight[of st k] by force
next
  case (Suc r)
  show ?case
  proof (cases "list_all worker_done (p_workers st)")
    case False
    then show ?thesis
      using Suc.IH[of "run_pool blake2 passwords salt shape [0..<k] st"] Suc.prems
        round_weight[OF False Suc.prems(1), of blake2 passwords salt shape] by simp
  qed (simp add: done_stays)
qed

lemma start_weight:
  assumes "0 < slot" "0 < c" "length out = n * slot"
  shows "pool_weight \<lparr> p_queue = start_queue slot c out, p_workers = replicate k Popping, p_out = out \<rparr> \<le> n * (n + 2) + k"
proof -
  let ?q = "start_queue slot c out"
  have le: "x \<in> set ?q \<Longrightarrow> (case x of (j, m) \<Rightarrow> m + 2) \<le> n + 2" for x
    using start_queue_nth[OF assms] by (auto simp: in_set_conv_nth)
  have "length ?q \<le> n"
  proof (rule ccontr)
    assume "\<not> length ?q \<le> n"
    then show False using start_queue_nth(1)[OF assms, of n] assms(2) by simp
  qed
  moreover have "(\<Sum>x\<leftarrow>?q. case x of (j, m) \<Rightarrow> m + 2) \<le> (\<Sum>x\<leftarrow>?q. n + 2)"
    by (rule sum_list_mono) (rule le)
  ultimately have "(\<Sum>x\<leftarrow>?q. case x of (j, m) \<Rightarrow> m + 2) \<le> n * (n + 2)"
    by (simp add: sum_list_triv) (meson add_le_mono mult_le_mono1 mult_le_mono2 order_trans)
  moreover have "sum_list (map worker_weight (replicate k Popping)) = k"
    by (simp add: worker_weight_def sum_list_replicate)
  ultimately show ?thesis by (simp add: pool_weight_def)
qed

subsection \<open>The batch is the specification\<close>

context blake2_crate
begin

lemma sequential_ok:
  assumes "0 < sh_lanes shape" "length salt < 2 ^ 32" "\<forall>x\<in>set passwords. length x < 2 ^ 32"
    and len: "length out = length passwords * slot_bytes shape" and S: "0 < slot_bytes shape"
  shows "rmapM (\<lambda>(chunk, password). fill_first_blocks blake2 chunk password salt shape)
           (zip (chunks (slot_bytes shape) out) passwords) = Inr (map (slot_spec salt shape) passwords)"
proof -
  let ?S = "slot_bytes shape"
  have lc: "length (chunks ?S out) = length passwords" using length_chunks[OF S len] .
  have "length c = ?S" if "(c, x) \<in> set (zip (chunks ?S out) passwords)" for c x
  proof -
    from that obtain i where "i < length passwords" "c = chunks ?S out ! i"
      by (auto simp: set_zip lc)
    then show ?thesis using chunks_index(2)[OF S, of i out] length_slot_at[OF len, of i] len S by simp
  qed
  then have "rmapM (\<lambda>(chunk, password). fill_first_blocks blake2 chunk password salt shape)
      (zip (chunks ?S out) passwords) = Inr (map (\<lambda>(c, x). slot_spec salt shape x) (zip (chunks ?S out) passwords))"
    using assms by (intro rmapM_total) (auto intro!: fill_ok dest: set_zip_rightD)
  moreover have "map (\<lambda>(c, x). slot_spec salt shape x) (zip (chunks ?S out) passwords) = map (slot_spec salt shape) passwords"
    by (rule nth_equalityI) (auto simp: lc)
  ultimately show ?thesis by simp
qed

lemma batch_ok:
  fixes hw h schedule out
  assumes lanes: "0 < sh_lanes shape" and salt: "length salt < 2 ^ 32" and pw: "\<forall>x\<in>set passwords. length x < 2 ^ 32"
    and len: "length out = length passwords * slot_bytes shape"
  defines "r \<equiv> fill_first_blocks_batch blake2 hw h schedule out passwords salt shape"
    and "k \<equiv> worker_count hw h (length passwords)" and "n \<equiv> length passwords"
  shows "r = None \<or> r = Some (Inr (concat (map (slot_spec salt shape) passwords)))"
    and "schedule = prefix @ concat (replicate (n * (n + 2) + k) [0..<k]) \<Longrightarrow> r \<noteq> None"
proof -
  define c where "c = max (first_block_selected_chunk_size n k (ch_dynamic_chunk_size h)) 1"
  define st where "st = \<lparr> p_queue = start_queue (slot_bytes shape) c out, p_workers = replicate k Popping, p_out = out \<rparr>"
  define fin where "fin = run_pool blake2 passwords salt shape schedule st"
  have c: "0 < c" by (simp add: c_def)
  have S: "0 < slot_bytes shape" using lanes by (simp add: slot_bytes_def INPUT_BLOCKS_PER_JOB_def ARGON2_BLOCK_SIZE_def)
  have k: "length (p_workers fin) = k" by (simp add: fin_def st_def)
  have "r = (if passwords = [] then Some (Inr out)
      else if k \<le> 1 then Some (rbind (rmapM (\<lambda>(chunk, password). fill_first_blocks blake2 chunk password salt shape)
           (zip (chunks (slot_bytes shape) out) passwords)) (\<lambda>slots. Inr (concat slots)))
      else if \<not> list_all worker_done (p_workers fin) then None
      else case first_failure (p_workers fin) of Some e \<Rightarrow> Some (Inl (Host_Err e)) | None \<Rightarrow> Some (Inr (p_out fin)))"
    using len S by (simp add: r_def fill_first_blocks_batch_def k_def n_def Let_def start_queue_def fin_def st_def c_def
        split: option.split)
  note r = this[unfolded sequential_ok[OF lanes salt pw len S] rbind.simps]
  have "pool_inv passwords salt shape st" unfolding st_def by (rule start_inv[OF S c len])
  then have inv: "pool_inv passwords salt shape fin" unfolding fin_def by (rule run_inv[OF _ lanes salt pw])
  show "r = None \<or> r = Some (Inr (concat (map (slot_spec salt shape) passwords)))"
  proof (cases "passwords = [] \<or> k \<le> 1 \<or> \<not> list_all worker_done (p_workers fin)")
    case True
    then show ?thesis using r len by auto
  next
    case False
    then have "p_workers fin \<noteq> []" using k by auto
    then show ?thesis using False pool_finished[OF inv] r by simp
  qed
  assume sched: "schedule = prefix @ concat (replicate (n * (n + 2) + k) [0..<k])"
  define mid where "mid = run_pool blake2 passwords salt shape prefix st"
  have mk: "length (p_workers mid) \<le> k" by (simp add: mid_def st_def)
  have "pool_weight mid \<le> pool_weight st" unfolding mid_def by (rule run_weight_le)
  also have "\<dots> \<le> n * (n + 2) + k" unfolding st_def n_def by (rule start_weight[OF S c len])
  finally have "list_all worker_done (p_workers (run_pool blake2 passwords salt shape
      (concat (replicate (n * (n + 2) + k) [0..<k])) mid))"
    by (rule rounds_finish[OF mk])
  then have "list_all worker_done (p_workers fin)" unfolding fin_def sched mid_def fold_append comp_def .
  then show "r \<noteq> None" using r by (auto split: option.splits)
qed

lemma finalize_ok:
  assumes "length last_block = k * 1024" "0 < k" "0 < out_len"
  shows "host_finalize blake2 last_block out_len
    = Inr (hprime out_len (if k = 1 then last_block else xor_blocks last_block))"
proof -
  have l: "length (fold (\<lambda>block acc. map2 xor acc block) bs (replicate 1024 (0::u8))) \<le> 1024" for bs
    by (induction bs rule: rev_induct) auto
  have "length (xor_blocks last_block) \<le> 1024" using l by (simp add: xor_blocks_def ARGON2_BLOCK_SIZE_def)
  then show ?thesis using assms by (auto simp: host_finalize_def ARGON2_BLOCK_SIZE_def digest_long_ok)
qed

end

text \<open>The device's hasher is such an implementation.\<close>

definition device_blake2 :: blake2_fn where
  "device_blake2 n parts = Some (blake2b_finalize n (fold blake2b_update parts (blake2b_init n)))"

interpretation dev: blake2_crate device_blake2
  by unfold_locales (simp add: device_blake2_def streaming_hash)

subsection \<open>Properties\<close>

text \<open>However the workers are interleaved, a batch whose buffer has the right size either is still
  running or has filled every job's slot with the blocks RFC 9106 prescribes, in the order of the
  passwords: the parallel path computes what the single thread computes.\<close>

theorem host_batch_any_schedule:
  assumes "blake2_crate blake2" "0 < sh_lanes shape" "length salt < 2 ^ 32" "\<forall>x\<in>set passwords. length x < 2 ^ 32"
    and "length out = length passwords * slot_bytes shape"
  shows "fill_first_blocks_batch blake2 hw h schedule out passwords salt shape = None
    \<or> fill_first_blocks_batch blake2 hw h schedule out passwords salt shape
      = Some (Inr (concat (map (slot_spec salt shape) passwords)))"
  by (rule blake2_crate.batch_ok(1)[OF assms])

theorem host_batch_any_schedule_witness:
  "fill_first_blocks_batch device_blake2 4 host_new [3, 0, 0, 2, 1] (replicate 18432 0) (replicate 9 [65, 66]) [1, 2, 3]
     (shape_for_difficulty 8) \<in> {None, Some (Inr (concat (replicate 9 (slot_spec [1, 2, 3] (shape_for_difficulty 8) [65, 66]))))}"
  using host_batch_any_schedule[OF dev.blake2_crate_axioms, of "shape_for_difficulty 8" "[1, 2, 3]" "replicate 9 [65, 66]"
      "replicate 18432 0" 4 host_new "[3, 0, 0, 2, 1]"]
  by (simp add: shape_for_difficulty_def slot_bytes_def INPUT_BLOCKS_PER_JOB_def ARGON2_BLOCK_SIZE_def)

text \<open>C36.  The batch returns: from any point of any interleaving, after a bounded number of further
  rounds in which every worker gets a step, every worker has returned and the buffer is filled.\<close>

theorem host_batch_finishes:
  fixes hw h shape passwords
  assumes "blake2_crate blake2" "0 < sh_lanes shape" "length salt < 2 ^ 32" "\<forall>x\<in>set passwords. length x < 2 ^ 32"
    and "length out = length passwords * slot_bytes shape"
  defines "n \<equiv> length passwords" and "k \<equiv> worker_count hw h (length passwords)"
  shows "fill_first_blocks_batch blake2 hw h (prefix @ concat (replicate (n * (n + 2) + k) [0..<k])) out passwords salt shape
    = Some (Inr (concat (map (slot_spec salt shape) passwords)))"
  unfolding n_def k_def
  using blake2_crate.batch_ok(1)[OF assms(1-5)] blake2_crate.batch_ok(2)[OF assms(1-5) refl] by blast

theorem host_batch_finishes_witness:
  "fill_first_blocks_batch device_blake2 2 host_new ([1, 1] @ concat (replicate 101 [0..<2])) (replicate 18432 0)
     (replicate 9 [65, 66]) [1, 2, 3] (shape_for_difficulty 8)
   = Some (Inr (concat (replicate 9 (slot_spec [1, 2, 3] (shape_for_difficulty 8) [65, 66]))))"
proof -
  have k: "worker_count 2 host_new 9 = 2"
    by (simp add: worker_count_def first_block_worker_count_def host_new_def MIN_PARALLEL_FIRST_BLOCK_ATTEMPTS_def)
  show ?thesis
    using host_batch_finishes[OF dev.blake2_crate_axioms, of "shape_for_difficulty 8" "[1, 2, 3]" "replicate 9 [65, 66]"
      "replicate 18432 0" 2 host_new "[1, 1]"]
    by (simp add: k shape_for_difficulty_def slot_bytes_def INPUT_BLOCKS_PER_JOB_def ARGON2_BLOCK_SIZE_def)
qed

text \<open>The device and the host agree: for one lane and the same parameters, the first two blocks
  the kernel leaves in a job's lane are the bytes of the job's slot in the host's batch.\<close>

theorem host_slot_is_device_slot:
  assumes "sh_lanes shape = 1" "k_lanes p = 1" "k_output_length p = sh_output_length shape"
    "k_memory_cost p = sh_memory_cost shape" "k_time_cost p = sh_passes shape" "k_version p = sh_version shape"
    "k_type p = sh_type shape"
    and "blake2_crate blake2" "length salt < 2 ^ 32" "k_key_length p < 2 ^ 32" "length out = slot_bytes shape"
  shows "fill_first_blocks blake2 out (take (k_key_length p) (drop (j * k_key_length p) keys)) salt shape
    = Inr (job_first_blocks p keys salt j)"
proof -
  have "slot_spec salt shape x = first_blocks (shape_h0 x salt shape)" for x
    using assms(1) one_lane by (simp add: slot_spec_def)
  then show ?thesis
    using blake2_crate.fill_ok[OF assms(8) assms(11), of "take (k_key_length p) (drop (j * k_key_length p) keys)" salt] assms
    by (simp add: job_first_blocks_def shape_h0_def)
qed

theorem host_slot_is_device_slot_witness:
  "fill_first_blocks device_blake2 (replicate 2048 0) [3, 4] [7] (shape_for_difficulty 8)
   = Inr (job_first_blocks \<lparr> k_batch_size = 2, k_key_length = 2, k_output_length = 64, k_memory_cost = 8, k_time_cost = 1,
       k_version = 19, k_type = 2, k_lanes = 1, k_segment_blocks = 2, k_threads_per_block = 2 \<rparr> [1, 2, 3, 4] [7] 1)"
  using host_slot_is_device_slot[of "shape_for_difficulty 8" "\<lparr> k_batch_size = 2, k_key_length = 2, k_output_length = 64,
      k_memory_cost = 8, k_time_cost = 1, k_version = 19, k_type = 2, k_lanes = 1, k_segment_blocks = 2,
      k_threads_per_block = 2 \<rparr>" device_blake2 "[7]" "replicate 2048 0" 1 "[1, 2, 3, 4]", OF _ _ _ _ _ _ _ dev.blake2_crate_axioms]
  by (simp add: shape_for_difficulty_def slot_bytes_def INPUT_BLOCKS_PER_JOB_def ARGON2_BLOCK_SIZE_def ARGON2_VERSION_13_def
      ARGON2_ID_def DEFAULT_HASH_LENGTH_def)

text \<open>The zero-lane guard does not protect the batch: a single slot answers a shape without lanes
  with an error value, the batch of at least one password panics instead.\<close>

theorem zero_lanes_panics:
  "sh_lanes shape = 0 \<Longrightarrow> passwords \<noteq> [] \<Longrightarrow>
   fill_first_blocks blake2 [] password salt shape = Inl (Host_Err ''shape must have at least one lane'')
   \<and> fill_first_blocks_batch blake2 hw h schedule [] passwords salt shape
      = Some (Inl (Host_Panic ''chunk size must be non-zero''))"
  by (simp add: fill_first_blocks_def fill_first_blocks_batch_def slot_bytes_def)

theorem zero_lanes_panics_witness:
  "fill_first_blocks_batch device_blake2 1 host_new [] [] [[65]] [1] (shape_for_difficulty 8\<lparr> sh_lanes := 0 \<rparr>)
   = Some (Inl (Host_Panic ''chunk size must be non-zero''))"
  using zero_lanes_panics[of "shape_for_difficulty 8\<lparr> sh_lanes := 0 \<rparr>" "[[65]]" device_blake2 "[]" "[1]" 1 host_new "[]"]
  by simp

end
