(* ===== verification/Argon2_Fill.thy ===== *)
theory Argon2_Fill
  imports Argon2_Wave Argon2_Host
begin

text \<open>
  The memory-filling kernel \<^verbatim>\<open>argon2_kernel_oneshot\<close> of \<^verbatim>\<open>tm-kernel/src/lib.rs\<close>: one wavefront per
  job chains the blocks of the job's lane.  Device memory is a list of 64-bit words.  The reference
  is the block sequence of RFC 9106 for Argon2id, one lane, one pass.
\<close>

unbundle bit_operations_syntax

subsection \<open>The kernel\<close>

definition xor_waves :: "wave \<Rightarrow> wave \<Rightarrow> wave" where
  "xor_waves w other = map2 bt_xor w other"

definition next_addresses :: "u32 list \<Rightarrow> wave" where
  "next_addresses thread_input =
     (let addr = map (\<lambda>i. BlockTh (ucast i) 0 0 0) thread_input;
          addr = shuffle_block addr;
          addr = map2 (\<lambda>b i. BlockTh (ra b XOR ucast i) (rb b) (rc b) (rd b)) addr thread_input;
          tmp = addr;
          addr = shuffle_block addr
      in xor_waves addr tmp)"

definition umulhi :: "u32 \<Rightarrow> u32 \<Rightarrow> u32" where
  "umulhi x y = ucast (drop_bit 32 (ucast x * ucast y :: u64))"

definition compute_ref_pos :: "u32 \<Rightarrow> u32 \<Rightarrow> u32 \<Rightarrow> u32 \<Rightarrow> u32" where
  "compute_ref_pos seg_blocks slice_no offset ref_index =
     (let ref_area_size = slice_no * seg_blocks + offset - 1;
          index = umulhi ref_index ref_index
      in ref_area_size - 1 - umulhi ref_area_size index)"

text \<open>Every work-item computes its own reference index, so the core takes the list of them.\<close>

definition argon2_core :: "nat \<Rightarrow> nat \<Rightarrow> u32 list \<Rightarrow> wave \<Rightarrow> u64 list \<Rightarrow> wave \<times> u64 list" where
  "argon2_core mem_lane mem_curr ref_index prev memory =
     (let mem_ref = (\<lambda>thread. mem_lane + unat (ref_index ! thread) * QWORDS_IN_BLOCK);
          prev = wave_map (\<lambda>thread b. load_xor memory (mem_ref thread) b thread) prev;
          tmp = prev;
          prev = shuffle_block prev;
          prev = xor_waves prev tmp
      in (prev, fold (\<lambda>thread. bt_store (prev ! thread) mem_curr thread) [0..<THREADS_PER_LANE] memory))"

record fill_state =
  f_memory :: "u64 list"
  f_curr :: nat
  f_prev :: wave
  f_addr :: wave
  f_input :: "u32 list"

definition argon2_step_indexed :: "nat \<Rightarrow> u32 \<Rightarrow> u32 \<Rightarrow> u32 \<Rightarrow> fill_state \<Rightarrow> fill_state" where
  "argon2_step_indexed mem_lane seg_blocks slice_no offset st =
     (let addr_index = unat offset mod QWORDS_IN_BLOCK;
          st = (if addr_index = 0 then
                  (let input = (f_input st)[6 := f_input st ! 6 + 1]
                   in st\<lparr> f_input := input, f_addr := next_addresses input \<rparr>)
                else st);
          thr = addr_index mod THREADS_PER_LANE;
          idx = addr_index div THREADS_PER_LANE;
          ref_index = map (\<lambda>thread. compute_ref_pos seg_blocks slice_no offset
            (ucast (shfl64 (map (\<lambda>b. get_uniform b idx) (f_addr st)) thread thr))) [0..<THREADS_PER_LANE];
          (prev, memory) = argon2_core mem_lane (f_curr st) ref_index (f_prev st) (f_memory st)
      in st\<lparr> f_prev := prev, f_memory := memory \<rparr>)"

definition argon2_step_dependent :: "nat \<Rightarrow> u32 \<Rightarrow> u32 \<Rightarrow> u32 \<Rightarrow> fill_state \<Rightarrow> fill_state" where
  "argon2_step_dependent mem_lane seg_blocks slice_no offset st =
     (let ref_index = map (\<lambda>thread. compute_ref_pos seg_blocks slice_no offset
            (ucast (shfl64 (map ra (f_prev st)) thread 0))) [0..<THREADS_PER_LANE];
          (prev, memory) = argon2_core mem_lane (f_curr st) ref_index (f_prev st) (f_memory st)
      in st\<lparr> f_prev := prev, f_memory := memory \<rparr>)"

text \<open>The loops advance \<^verbatim>\<open>mem_curr\<close> by a block after every step.\<close>

definition advance :: "fill_state \<Rightarrow> fill_state" where
  "advance st = st\<lparr> f_curr := f_curr st + QWORDS_IN_BLOCK \<rparr>"

definition initial_input :: "nat \<Rightarrow> u32 list" where
  "initial_input blocks =
     map (\<lambda>thread. of_bool (thread = 3) * of_nat blocks + of_bool (thread = 4)
            + of_bool (thread = 5) * 2 + of_bool (thread = 6)) [0..<THREADS_PER_LANE]"

definition argon2_kernel_oneshot :: "nat \<Rightarrow> nat \<Rightarrow> u64 list \<Rightarrow> u64 list" where
  "argon2_kernel_oneshot seg_blocks job_id memory =
     (let lane_blocks = 4 * seg_blocks mod 2 ^ 32;
          seg = of_nat seg_blocks;
          mem_lane = job_id * lane_blocks * QWORDS_IN_BLOCK;
          input = initial_input lane_blocks;
          st = \<lparr> f_memory = memory, f_curr = mem_lane + 2 * QWORDS_IN_BLOCK,
                 f_prev = map (bt_load memory (mem_lane + QWORDS_IN_BLOCK)) [0..<THREADS_PER_LANE],
                 f_addr = next_addresses input, f_input = input \<rparr>;
          st = fold (\<lambda>offset st. advance (argon2_step_indexed mem_lane seg 0 (of_nat offset) st)) [2..<seg_blocks] st;
          st = st\<lparr> f_input := (f_input st)[2 := f_input st ! 2 + 1, 6 := 0] \<rparr>;
          st = fold (\<lambda>offset st. advance (argon2_step_indexed mem_lane seg 1 (of_nat offset) st)) [0..<seg_blocks] st;
          st = fold (\<lambda>slice_no st.
                 fold (\<lambda>offset st. advance (argon2_step_dependent mem_lane seg (of_nat slice_no) (of_nat offset) st))
                   [0..<seg_blocks] st) [2..<4] st
      in f_memory st)"

text \<open>A launch runs the workgroups of the batch in some order.\<close>

definition oneshot_launch :: "nat \<Rightarrow> nat list \<Rightarrow> u64 list \<Rightarrow> u64 list" where
  "oneshot_launch seg_blocks jobs memory = fold (argon2_kernel_oneshot seg_blocks) jobs memory"

subsection \<open>RFC 9106: the blocks of a lane\<close>

definition compress_G :: "u64 list \<Rightarrow> u64 list \<Rightarrow> u64 list" where
  "compress_G x y = (let r = map2 (XOR) x y in map2 (XOR) r (permute_block r))"

definition zero_block :: "u64 list" where
  "zero_block = replicate 128 0"

text \<open>The input of the address generator: pass, lane, slice, blocks of memory, passes, type Argon2id,
  counter, zeros.\<close>

definition address_input :: "nat \<Rightarrow> nat \<Rightarrow> nat \<Rightarrow> u64 list" where
  "address_input slice_no blocks counter =
     [0, 0, of_nat slice_no, of_nat blocks, 1, 2, of_nat counter] @ replicate 121 0"

definition address_block :: "nat \<Rightarrow> nat \<Rightarrow> nat \<Rightarrow> u64 list" where
  "address_block slice_no blocks counter =
     compress_G zero_block (compress_G zero_block (address_input slice_no blocks counter))"

definition pseudo_J1 :: "nat \<Rightarrow> u64 list list \<Rightarrow> nat" where
  "pseudo_J1 seg blocks =
     (let i = length blocks; slice_no = i div seg; offset = i mod seg
      in if slice_no < 2
         then unat (take_bit 32 (address_block slice_no (4 * seg) (offset div 128 + 1) ! (offset mod 128)))
         else unat (take_bit 32 (last blocks ! 0)))"

definition reference_index :: "nat \<Rightarrow> nat \<Rightarrow> nat" where
  "reference_index area j1 = area - 1 - area * (j1 * j1 div 2 ^ 32) div 2 ^ 32"

definition next_block :: "nat \<Rightarrow> u64 list list \<Rightarrow> u64 list" where
  "next_block seg blocks =
     compress_G (last blocks) (blocks ! reference_index (length blocks - 1) (pseudo_J1 seg blocks))"

primrec fill_blocks :: "nat \<Rightarrow> nat \<Rightarrow> u64 list list \<Rightarrow> u64 list list" where
  "fill_blocks seg 0 blocks = blocks"
| "fill_blocks seg (Suc n) blocks = fill_blocks seg n (blocks @ [next_block seg blocks])"

subsection \<open>One block\<close>

lemma length_permute [simp]: "length (permute_block v) = 128"
  by (simp add: permute_block_def)

lemma length_compress_G [simp]: "length x = 128 \<Longrightarrow> length y = 128 \<Longrightarrow> length (compress_G x y) = 128"
  by (simp add: compress_G_def Let_def)

lemma straight_lt: "t < 32 \<Longrightarrow> r < 4 \<Longrightarrow> straight t r < 128"
  by (simp add: straight_def)

lemma xor_waves_of:
  "length x = 128 \<Longrightarrow> length y = 128 \<Longrightarrow> xor_waves (wave_of straight x) (wave_of straight y) = wave_of straight (map2 (XOR) x y)"
  by (rule nth_equalityI) (simp_all add: xor_waves_def bt_xor_def straight_def)

lemma load_wave:
  "block + 128 \<le> length memory \<Longrightarrow> map (bt_load memory block) [0..<THREADS_PER_LANE] = wave_of straight (take 128 (drop block memory))"
  by (rule nth_equalityI) (simp_all add: bt_load_def straight_def THREADS_PER_LANE_def Let_def)

lemma bt_store_nth:
  assumes "n < 32" "c + 128 \<le> length m" "x < length m"
  shows "bt_store (wave_of straight v ! n) c n m ! x = (if c \<le> x \<and> x < c + 128 \<and> (x - c) mod 32 = n then v ! (x - c) else m ! x)"
proof (cases "c \<le> x \<and> x < c + 128 \<and> (x - c) mod 32 = n")
  case True
  define r where "r = (x - c) div 32"
  have x: "x = c + (32 * r + n)" using True div_mult_mod_eq[of "x - c" 32] unfolding r_def by linarith
  have "r < 4" using True unfolding r_def by (intro less_mult_imp_div_less) linarith
  then consider "r = 0" | "r = 1" | "r = 2" | "r = 3" by linarith
  then show ?thesis using assms True
    by cases (simp_all add: bt_store_def x straight_def THREADS_PER_LANE_def Let_def nth_list_update)
next
  case False
  have "x \<noteq> c + (32 * r + n)" if "r < 4" for r
    using False assms(1) that by auto
  from this[of 0] this[of 1] this[of 2] this[of 3] False show ?thesis using assms
    by (auto simp: bt_store_def THREADS_PER_LANE_def Let_def nth_list_update)
qed

lemma store_wave:
  assumes "length v = 128" "c + 128 \<le> length memory"
  shows "fold (\<lambda>thread. bt_store (wave_of straight v ! thread) c thread) [0..<THREADS_PER_LANE] memory = buf_write c v memory"
proof -
  let ?f = "\<lambda>n. fold (\<lambda>thread. bt_store (wave_of straight v ! thread) c thread) [0..<n] memory"
  have f: "length (?f n) = length memory
    \<and> (\<forall>x < length memory. ?f n ! x = (if c \<le> x \<and> x < c + 128 \<and> (x - c) mod 32 < n then v ! (x - c) else memory ! x))"
    if "n \<le> 32" for n
    using that
  proof (induction n)
    case (Suc n)
    then have IH: "length (?f n) = length memory"
      "\<And>x. x < length memory \<Longrightarrow> ?f n ! x = (if c \<le> x \<and> x < c + 128 \<and> (x - c) mod 32 < n then v ! (x - c) else memory ! x)"
      by auto
    have "length (?f (Suc n)) = length memory" using IH(1) by (simp add: bt_store_def Let_def)
    moreover have "?f (Suc n) ! x = (if c \<le> x \<and> x < c + 128 \<and> (x - c) mod 32 < Suc n then v ! (x - c) else memory ! x)"
      if "x < length memory" for x
      using IH(2)[OF that] bt_store_nth[of n c "?f n" x v] assms that IH(1) Suc.prems by (auto simp: less_Suc_eq)
    ultimately show ?case by blast
  qed simp
  show ?thesis
    using f[of 32] assms by (intro nth_equalityI) (auto simp: THREADS_PER_LANE_def nth_buf_write)
qed

lemma core_ok:
  assumes "length p = 128" "\<forall>t < 32. unat (refs ! t) = k" "mem_lane + k * 128 + 128 \<le> length memory" "c + 128 \<le> length memory"
  defines "b \<equiv> compress_G p (take 128 (drop (mem_lane + k * 128) memory))"
  shows "argon2_core mem_lane c refs (wave_of straight p) memory = (wave_of straight b, buf_write c b memory)"
proof -
  let ?y = "take 128 (drop (mem_lane + k * 128) memory)"
  let ?r = "map2 (XOR) p ?y"
  have y: "length ?y = 128" using assms(3) by simp
  have "wave_map (\<lambda>thread b. load_xor memory (mem_lane + unat (refs ! thread) * QWORDS_IN_BLOCK) b thread) (wave_of straight p)
      = xor_waves (wave_of straight p) (map (bt_load memory (mem_lane + k * 128)) [0..<THREADS_PER_LANE])"
    using assms(2) by (intro nth_equalityI) (simp_all add: load_xor_def xor_waves_def QWORDS_IN_BLOCK_def THREADS_PER_LANE_def)
  also have "\<dots> = wave_of straight ?r"
    using assms(1,3) y by (simp add: load_wave xor_waves_of)
  finally have r: "wave_map (\<lambda>thread b. load_xor memory (mem_lane + unat (refs ! thread) * QWORDS_IN_BLOCK) b thread)
      (wave_of straight p) = wave_of straight ?r" .
  have "map2 (XOR) (permute_block ?r) ?r = b"
    using assms(1) y by (intro nth_equalityI) (simp_all add: b_def compress_G_def Let_def xor.commute)
  then have "xor_waves (shuffle_block (wave_of straight ?r)) (wave_of straight ?r) = wave_of straight b"
    using assms(1) y by (simp add: shuffle_block_permutes xor_waves_of)
  moreover have "length b = 128" using assms(1) y by (simp add: b_def)
  ultimately show ?thesis using store_wave assms(4) by (simp add: argon2_core_def r Let_def)
qed

subsection \<open>Addresses\<close>

definition slice_input :: "nat \<Rightarrow> nat \<Rightarrow> nat \<Rightarrow> u32 list" where
  "slice_input slice_no blocks counter = [0, 0, of_nat slice_no, of_nat blocks, 1, 2, of_nat counter] @ replicate 25 0"

lemma length_slice_input [simp]: "length (slice_input s b c) = 32"
  by (simp add: slice_input_def)

lemma initial_slice_input: "initial_input blocks = slice_input 0 blocks 1"
  by (simp add: initial_input_def slice_input_def THREADS_PER_LANE_def threads numeral_eq_Suc)

lemma next_addresses_ok:
  assumes "length input = 32"
  defines "z \<equiv> map ucast input @ replicate 96 0"
  shows "next_addresses input = wave_of straight (compress_G zero_block (compress_G zero_block z))"
proof -
  have z: "length z = 128" using assms(1) by (simp add: z_def)
  have G: "compress_G zero_block x = map2 (XOR) x (permute_block x)" if "length x = 128" for x
  proof -
    have "map2 (XOR) zero_block x = x" using that by (intro nth_equalityI) (simp_all add: zero_block_def)
    then show ?thesis by (simp add: compress_G_def)
  qed
  have z_nth: "z ! straight t 0 = ucast (input ! t)" "z ! straight t 1 = 0" "z ! straight t 2 = 0" "z ! straight t 3 = 0" if "t < 32" for t
    using that assms(1) by (simp_all add: z_def straight_def nth_append)
  have "map (\<lambda>i. BlockTh (ucast i) 0 0 0) input = wave_of straight z"
    using assms(1) by (intro nth_equalityI) (simp_all add: z_nth[unfolded One_nat_def])
  moreover have "map2 (\<lambda>b i. BlockTh (ra b XOR ucast i) (rb b) (rc b) (rd b)) (wave_of straight (permute_block z)) input
      = wave_of straight (compress_G zero_block z)"
    using assms(1) z by (intro nth_equalityI)
      (simp_all add: G straight_lt z_nth[unfolded One_nat_def] xor.commute)
  moreover have "xor_waves (wave_of straight (permute_block x)) (wave_of straight x) = wave_of straight (compress_G zero_block x)"
    if "length x = 128" for x
    using that by (simp add: xor_waves_of G) (rule arg_cong[where f = "wave_of straight"], rule nth_equalityI, simp_all add: xor.commute)
  ultimately show ?thesis using z by (simp add: next_addresses_def Let_def shuffle_block_permutes zero_block_def)
qed

lemma next_addresses_slice:
  assumes "s < 2 ^ 32" "blocks < 2 ^ 32" "c < 2 ^ 32"
  shows "next_addresses (slice_input s blocks c) = wave_of straight (address_block s blocks c)"
proof -
  have u: "ucast (of_nat n :: u32) = (of_nat n :: u64)" if "n < 2 ^ 32" for n
    using that by (simp add: unsigned_of_nat take_bit_nat_eq_self)
  have "(replicate 25 0 :: u64 list) @ replicate 96 0 = replicate 121 0" by (simp flip: replicate_add)
  then have "map ucast (slice_input s blocks c) @ replicate 96 0 = address_input s blocks c"
    using u[OF assms(1)] u[OF assms(2)] u[OF assms(3)] by (simp add: slice_input_def address_input_def)
  then show ?thesis by (simp add: next_addresses_ok address_block_def)
qed

subsection \<open>The reference position\<close>

lemma u32_lt: "unat (x::u32) < 2 ^ 32"
  using unsigned_less[where ?'a = nat, of x] by simp

lemma unat_umulhi: "unat (umulhi x y) = unat x * unat y div 2 ^ 32"
proof -
  have b: "unat x * unat y \<le> (2 ^ 32 - 1) * (2 ^ 32 - 1)"
    using u32_lt[of x] u32_lt[of y] by (intro mult_le_mono) auto
  then have "unat x * unat y < 2 ^ 64" by simp
  moreover have "unat (ucast z :: u64) = unat z" for z :: u32
    using u32_lt[of z] by (simp add: unsigned_ucast_eq take_bit_nat_eq_self)
  ultimately have p: "unat (ucast x * ucast y :: u64) = unat x * unat y"
    using unat_mult_lem[of "ucast x :: u64" "ucast y"] by simp
  have "unat x * unat y div 2 ^ 32 < 2 ^ 32" using b by (simp add: div_less_iff_less_mult)
  moreover have "unat (drop_bit 32 w) = unat w div 2 ^ 32" for w :: u64
    unfolding unsigned_drop_bit_eq using unsigned_less[where ?'a = nat, of w]
    by (simp add: drop_bit_eq_div take_bit_nat_eq_self)
  ultimately show ?thesis using p by (simp only: umulhi_def unsigned_ucast_eq) (simp add: take_bit_nat_eq_self)
qed

lemma reference_index_lt: "0 < area \<Longrightarrow> reference_index area j < area"
  by (simp add: reference_index_def)

lemma compute_ref_pos_ok:
  assumes "2 \<le> s * seg + off" "s * seg + off < 2 ^ 32"
  shows "unat (compute_ref_pos (of_nat seg) (of_nat s) (of_nat off) j) = reference_index (s * seg + off - 1) (unat j)"
proof -
  define A where "A = s * seg + off - 1"
  have A: "1 \<le> A" "A < 2 ^ 32" using assms by (auto simp: A_def)
  have a: "of_nat s * of_nat seg + of_nat off - 1 = (of_nat A :: u32)"
    using assms(1) by (simp add: A_def of_nat_diff)
  have uA: "unat (of_nat A :: u32) = A" using A(2) by (simp add: unsigned_of_nat take_bit_nat_eq_self)
  have u1: "unat (of_nat A - 1 :: u32) = A - 1"
    using A uA by (simp add: unat_sub word_le_nat_alt)
  define y where "y = umulhi (of_nat A) (umulhi j j)"
  have y: "unat y = A * (unat j * unat j div 2 ^ 32) div 2 ^ 32" using uA by (simp add: y_def unat_umulhi)
  have "unat j * unat j div 2 ^ 32 < 2 ^ 32"
    using u32_lt[of "umulhi j j"] by (simp add: unat_umulhi)
  then have "A * (unat j * unat j div 2 ^ 32) < A * 2 ^ 32" using A(1) by (intro mult_strict_left_mono) auto
  then have "unat y < A" unfolding y by (simp add: div_less_iff_less_mult)
  then have "y \<le> of_nat A - 1" using u1 by (simp add: word_le_nat_alt)
  then have "unat (of_nat A - 1 - y) = A - 1 - unat y" using u1 by (simp add: unat_sub)
  then show ?thesis unfolding compute_ref_pos_def Let_def a y_def[symmetric] reference_index_def A_def[symmetric] y .
qed

subsection \<open>The chain of blocks\<close>

lemma block_of_concat:
  "\<forall>b\<in>set B. length b = 128 \<Longrightarrow> k < length B \<Longrightarrow> take 128 (drop (k * 128) (concat B)) = B ! k"
proof (induction B arbitrary: k)
  case (Cons b B)
  then show ?case by (cases k) (simp_all add: algebra_simps)
qed simp

text \<open>The lane from \<open>base\<close> on holds the blocks \<open>B\<close>, the rest of the memory is untouched, the wave
  holds the last block.\<close>

definition chained :: "nat \<Rightarrow> u64 list \<Rightarrow> u64 list list \<Rightarrow> fill_state \<Rightarrow> bool" where
  "chained base mem0 B st \<longleftrightarrow>
     B \<noteq> [] \<and> (\<forall>b\<in>set B. length b = 128) \<and> base + 128 * length B \<le> length mem0
     \<and> f_memory st = take base mem0 @ concat B @ drop (base + 128 * length B) mem0
     \<and> f_curr st = base + 128 * length B \<and> f_prev st = wave_of straight (last B)"

lemma length_blocks: "\<forall>b\<in>set B. length b = 128 \<Longrightarrow> length (concat B) = 128 * length B"
  by (induction B) auto

lemma chained_facts:
  assumes "chained base mem0 B st"
  shows "length (f_memory st) = length mem0" "length (last B) = 128"
    and "k < length B \<Longrightarrow> take 128 (drop (base + k * 128) (f_memory st)) = B ! k"
    and "\<And>k. k < length B \<Longrightarrow> base + k * 128 + 128 \<le> length mem0"
proof -
  note c = assms[unfolded chained_def]
  have l: "length (concat B) = 128 * length B" using c length_blocks by blast
  show "length (f_memory st) = length mem0" using c l by simp
  show "length (last B) = 128" using c by simp
  show b: "base + k * 128 + 128 \<le> length mem0" if "k < length B" for k
  proof -
    have "Suc k * 128 \<le> length B * 128" using that by (intro mult_le_mono1) simp
    then show ?thesis using c by simp
  qed
  assume k: "k < length B"
  have "drop (base + k * 128) (f_memory st) = drop (k * 128) (concat B @ drop (base + 128 * length B) mem0)"
    using c by simp
  moreover have "Suc k * 128 \<le> length B * 128" using k by (intro mult_le_mono1) simp
  then have "128 \<le> length (concat B) - k * 128" using l by simp
  ultimately show "take 128 (drop (base + k * 128) (f_memory st)) = B ! k"
    using c k block_of_concat[of B k] by simp
qed

lemma chained_core:
  assumes ch: "chained base mem0 B st" and room: "base + 128 * length B + 128 \<le> length mem0" and "2 \<le> length B"
    and refs: "\<forall>t < 32. unat (refs ! t) = reference_index (length B - 1) (pseudo_J1 seg B)"
  shows "\<exists>prev memory. argon2_core base (f_curr st) refs (f_prev st) (f_memory st) = (prev, memory)
    \<and> chained base mem0 (B @ [next_block seg B]) (advance (st\<lparr> f_prev := prev, f_memory := memory \<rparr>))"
proof -
  let ?k = "reference_index (length B - 1) (pseudo_J1 seg B)"
  let ?b = "next_block seg B"
  note c = ch[unfolded chained_def]
  have "?k < length B - 1" using assms(3) by (intro reference_index_lt) simp
  then have k: "?k < length B" by simp
  note f = chained_facts[OF ch]
  have "B ! ?k \<in> set B" using k by simp
  then have lb: "length ?b = 128" using c f(2) by (simp add: next_block_def)
  have l: "length (concat B) = 128 * length B" using c length_blocks by blast
  have "argon2_core base (f_curr st) refs (f_prev st) (f_memory st)
      = (wave_of straight ?b, buf_write (f_curr st) ?b (f_memory st))"
    using core_ok[OF f(2) refs, of base "f_memory st" "f_curr st"] f(1) f(3)[OF k] f(4)[OF k] room c
    by (simp add: next_block_def)
  moreover have "buf_write (f_curr st) ?b (f_memory st)
      = take base mem0 @ concat (B @ [?b]) @ drop (base + 128 * length (B @ [?b])) mem0"
    using c l lb room by (simp add: buf_write_def ac_simps)
  ultimately show ?thesis using c lb room by (simp add: chained_def advance_def QWORDS_IN_BLOCK_def)
qed

text \<open>A step at block \<open>slice * seg + offset\<close>.\<close>

lemma low32: "unat (ucast x :: u32) = unat (take_bit 32 (x::u64))"
  by (simp add: unsigned_ucast_eq unsigned_take_bit_eq)

lemma dependent_step:
  assumes ch: "chained base mem0 B st" and room: "base + 128 * (4 * seg) \<le> length mem0" and seg: "2 \<le> seg" "4 * seg < 2 ^ 32"
    and pos: "length B = s * seg + off" "off < seg" "2 \<le> s" "s < 4"
  shows "chained base mem0 (B @ [next_block seg B])
    (advance (argon2_step_dependent base (of_nat seg) (of_nat s) (of_nat off) st))"
proof -
  have B: "length B < 4 * seg" "2 \<le> length B"
  proof -
    have "Suc s * seg \<le> 4 * seg" by (rule mult_le_mono1) (use pos in simp)
    then show "length B < 4 * seg" using pos(1,2) by (simp only: mult_Suc)
    have "2 * seg \<le> s * seg" using pos by (intro mult_le_mono1)
    then show "2 \<le> length B" using pos(1) seg(1) by linarith
  qed
  have at: "length B div seg = s" "length B mod seg = off" using pos by simp_all
  let ?refs = "map (\<lambda>thread. compute_ref_pos (of_nat seg) (of_nat s) (of_nat off)
      (ucast (shfl64 (map ra (f_prev st)) thread 0))) [0..<THREADS_PER_LANE]"
  have "unat (?refs ! t) = reference_index (length B - 1) (pseudo_J1 seg B)" if t: "t < 32" for t
  proof -
    have "shfl64 (map ra (f_prev st)) t 0 = last B ! 0"
      using ch t by (simp add: chained_def shfl64_nth straight_def)
    then show ?thesis using t B compute_ref_pos_ok[of s seg off] pos seg at
      by (simp add: THREADS_PER_LANE_def pseudo_J1_def low32)
  qed
  moreover have "base + 128 * length B + 128 \<le> length mem0" using room B(1) by simp
  ultimately obtain prev memory where "argon2_core base (f_curr st) ?refs (f_prev st) (f_memory st) = (prev, memory)"
    "chained base mem0 (B @ [next_block seg B]) (advance (st\<lparr> f_prev := prev, f_memory := memory \<rparr>))"
    using chained_core[OF ch _ B(2), of ?refs seg] by blast
  then show ?thesis by (simp add: argon2_step_dependent_def)
qed

text \<open>Before offset \<open>off\<close> of an indexed slice the address counter has been raised once for every
  started group of 128 offsets.\<close>

definition addressed :: "nat \<Rightarrow> nat \<Rightarrow> nat \<Rightarrow> fill_state \<Rightarrow> bool" where
  "addressed seg s off st \<longleftrightarrow>
     f_input st = slice_input s (4 * seg) ((off + 127) div 128)
     \<and> (0 < off \<longrightarrow> f_addr st = wave_of straight (address_block s (4 * seg) ((off + 127) div 128)))"

definition refreshed :: "nat \<Rightarrow> fill_state \<Rightarrow> fill_state" where
  "refreshed off st =
     (if off mod 128 = 0 then
        (let input = (f_input st)[6 := f_input st ! 6 + 1] in st\<lparr> f_input := input, f_addr := next_addresses input \<rparr>)
      else st)"

lemma groups_of_128: "(off + 127) div 128 = (if off mod 128 = 0 then off div 128 else off div 128 + (1::nat))"
proof -
  define q r where "q = off div 128" "r = off mod 128"
  have o: "off = q * 128 + r" "r < 128" by (simp_all add: q_r_def)
  then have "(off + 127) div 128 = (if r = 0 then q else q + 1)" by (auto intro!: div_nat_eqI)
  then show ?thesis by (simp add: q_r_def)
qed

lemma refreshed_ok:
  assumes ad: "addressed seg s off st" and "s < 2" "off < seg" "4 * seg < 2 ^ 32"
  shows "f_input (refreshed off st) = slice_input s (4 * seg) (off div 128 + 1)"
    and "f_addr (refreshed off st) = wave_of straight (address_block s (4 * seg) (off div 128 + 1))"
proof -
  have up: "(slice_input s b c)[6 := slice_input s b c ! 6 + 1] = slice_input s b (c + 1)" for b c
    by (simp add: slice_input_def)
  have c: "off div 128 + 1 < 2 ^ 32" using assms(3,4) by (simp add: div_le_dividend le_less_trans)
  show "f_input (refreshed off st) = slice_input s (4 * seg) (off div 128 + 1)"
    "f_addr (refreshed off st) = wave_of straight (address_block s (4 * seg) (off div 128 + 1))"
    using ad up next_addresses_slice[of s "4 * seg" "off div 128 + 1"] assms c
    by (auto simp: refreshed_def addressed_def groups_of_128 Let_def intro: gr0I)
qed


lemma indexed_step:
  assumes ch: "chained base mem0 B st" and ad: "addressed seg s off st"
    and room: "base + 128 * (4 * seg) \<le> length mem0" and seg: "2 \<le> seg" "4 * seg < 2 ^ 32"
    and pos: "length B = s * seg + off" "off < seg" "s < 2" and B2: "2 \<le> length B"
  defines "st' \<equiv> advance (argon2_step_indexed base (of_nat seg) (of_nat s) (of_nat off) st)"
  shows "chained base mem0 (B @ [next_block seg B]) st' \<and> addressed seg s (Suc off) st'"
proof -
  let ?A = "address_block s (4 * seg) (off div 128 + 1)"
  define st1 where "st1 = refreshed off st"
  note re = refreshed_ok[OF ad pos(3,2) seg(2), folded st1_def]
  have ch1: "chained base mem0 B st1" using ch by (simp add: chained_def st1_def refreshed_def Let_def)
  have uo: "unat (of_nat off :: u32) = off" using pos(2) seg(2) by (simp add: unsigned_of_nat take_bit_nat_eq_self)
  have at: "length B div seg = s" "length B mod seg = off" using pos by simp_all
  have B: "length B < 4 * seg"
  proof -
    have "Suc s * seg \<le> 4 * seg" by (rule mult_le_mono1) (use pos in simp)
    then show ?thesis using pos(1,2) by (simp only: mult_Suc)
  qed
  define idx where "idx = off mod 128 div 32"
  define thr where "thr = off mod 128 mod 32"
  have i: "idx < 4" "thr < 32" "32 * idx + thr = off mod 128"
    by (simp_all add: idx_def thr_def less_mult_imp_div_less)
  let ?refs = "map (\<lambda>thread. compute_ref_pos (of_nat seg) (of_nat s) (of_nat off)
      (ucast (shfl64 (map (\<lambda>b. get_uniform b idx) (f_addr st1)) thread thr))) [0..<THREADS_PER_LANE]"
  have "unat (?refs ! t) = reference_index (length B - 1) (pseudo_J1 seg B)" if t: "t < 32" for t
  proof -
    have "shfl64 (map (\<lambda>b. get_uniform b idx) (f_addr st1)) t thr = ?A ! (off mod 128)"
      using re(2) t i get_wave_of[OF i(2) i(1), of straight ?A] by (simp add: shfl64_nth straight_def)
    then show ?thesis using t B B2 compute_ref_pos_ok[of s seg off] pos seg at
      by (simp add: THREADS_PER_LANE_def pseudo_J1_def low32)
  qed
  moreover have "base + 128 * length B + 128 \<le> length mem0" using room B(1) by simp
  ultimately obtain prev memory where core: "argon2_core base (f_curr st1) ?refs (f_prev st1) (f_memory st1) = (prev, memory)"
    and next_ch: "chained base mem0 (B @ [next_block seg B]) (advance (st1\<lparr> f_prev := prev, f_memory := memory \<rparr>))"
    using chained_core[OF ch1 _ B2, of ?refs seg] by blast
  have "argon2_step_indexed base (of_nat seg) (of_nat s) (of_nat off) st = st1\<lparr> f_prev := prev, f_memory := memory \<rparr>"
    using core
    by (cases "off mod 128 = 0")
       (simp_all add: argon2_step_indexed_def uo QWORDS_IN_BLOCK_def THREADS_PER_LANE_def idx_def thr_def st1_def
          refreshed_def Let_def)
  then have "st' = advance (st1\<lparr> f_prev := prev, f_memory := memory \<rparr>)" by (simp add: st'_def)
  moreover have "(Suc off + 127) div 128 = off div 128 + 1" by simp
  ultimately show ?thesis using next_ch re by (simp add: addressed_def advance_def)
qed

subsection \<open>The kernel fills the lane\<close>

lemma fill_blocks_snoc:
  "fill_blocks seg (Suc n) B = fill_blocks seg n B @ [next_block seg (fill_blocks seg n B)]"
proof (induction n arbitrary: B)
  case (Suc n)
  show ?case using Suc[of "B @ [next_block seg B]"] by (simp only: fill_blocks.simps(2))
qed simp

lemma fill_blocks_add: "fill_blocks seg (m + n) B = fill_blocks seg n (fill_blocks seg m B)"
  by (induction m arbitrary: B) simp_all

lemma length_fill_blocks [simp]: "length (fill_blocks seg n B) = length B + n"
  by (induction n arbitrary: B) simp_all

declare fill_blocks.simps(2) [simp del]

lemma indexed_loop:
  assumes "chained base mem0 B st" "addressed seg s a st" "length B = s * seg + a" "2 \<le> length B"
    and room: "base + 128 * (4 * seg) \<le> length mem0" and seg: "2 \<le> seg" "4 * seg < 2 ^ 32" and s: "s < 2"
    and "a \<le> m" "m \<le> seg"
  defines "st' \<equiv> fold (\<lambda>offset st. advance (argon2_step_indexed base (of_nat seg) (of_nat s) (of_nat offset) st)) [a..<m] st"
  shows "chained base mem0 (fill_blocks seg (m - a) B) st' \<and> addressed seg s m st'"
  unfolding st'_def using assms(9,10)
proof (induction m rule: dec_induct)
  case base
  then show ?case using assms(1,2) by simp
next
  case (step m)
  let ?C = "fill_blocks seg (m - a) B"
  have "m \<le> seg" using step.prems by simp
  note IH = step.IH[OF this]
  have "length ?C = s * seg + m" "2 \<le> length ?C" using assms(3,4) step.hyps by simp_all
  then show ?case
    using indexed_step[OF conjunct1[OF IH] conjunct2[OF IH] room seg, of] step.prems step.hyps s
    by (simp add: Suc_diff_le fill_blocks_snoc)
qed

lemma dependent_loop:
  assumes "chained base mem0 B st" "length B = s * seg"
    and room: "base + 128 * (4 * seg) \<le> length mem0" and seg: "2 \<le> seg" "4 * seg < 2 ^ 32" and s: "2 \<le> s" "s < 4"
    and "m \<le> seg"
  shows "chained base mem0 (fill_blocks seg m B)
    (fold (\<lambda>offset st. advance (argon2_step_dependent base (of_nat seg) (of_nat s) (of_nat offset) st)) [0..<m] st)"
  using assms(8)
proof (induction m)
  case (Suc m)
  then show ?case
    using dependent_step[OF Suc.IH room seg, of s m] assms(2) s by (simp add: fill_blocks_snoc)
qed (use assms(1) in simp)

definition lane_spec :: "nat \<Rightarrow> u64 list \<Rightarrow> u64 list" where
  "lane_spec seg lane = concat (fill_blocks seg (4 * seg - 2) [take 128 lane, take 128 (drop 128 lane)])"

lemma kernel_fills:
  assumes seg: "2 \<le> seg" "4 * seg < 2 ^ 32" and room: "job * (512 * seg) + 512 * seg \<le> length memory"
  shows "argon2_kernel_oneshot seg job memory
    = buf_write (job * (512 * seg)) (lane_spec seg (drop (job * (512 * seg)) memory)) memory"
proof -
  define base where "base = job * (512 * seg)"
  have room': "base + 128 * (4 * seg) \<le> length memory" using room by (simp add: base_def)
  have base: "job * (4 * seg) * QWORDS_IN_BLOCK = base" by (simp add: base_def QWORDS_IN_BLOCK_def)
  define B where "B = [take 128 (drop base memory), take 128 (drop (base + 128) memory)]"
  define st0 where "st0 = \<lparr> f_memory = memory, f_curr = base + 2 * QWORDS_IN_BLOCK,
      f_prev = map (bt_load memory (base + QWORDS_IN_BLOCK)) [0..<THREADS_PER_LANE],
      f_addr = next_addresses (initial_input (4 * seg)), f_input = initial_input (4 * seg) \<rparr>"
  let ?idx = "\<lambda>s offset st. advance (argon2_step_indexed base (of_nat seg) s (of_nat offset) st)"
  let ?dep = "\<lambda>s offset st. advance (argon2_step_dependent base (of_nat seg) s (of_nat offset) st)"
  define st1 where "st1 = fold (?idx 0) [2..<seg] st0"
  define st2 where "st2 = st1\<lparr> f_input := (f_input st1)[2 := f_input st1 ! 2 + 1, 6 := 0] \<rparr>"
  define st3 where "st3 = fold (?idx 1) [0..<seg] st2"
  define st4 where "st4 = fold (?dep 2) [0..<seg] st3"
  define st5 where "st5 = fold (?dep 3) [0..<seg] st4"
  have "take base memory @ take 128 (drop base memory) @ take 128 (drop (base + 128) memory) @ drop (base + 256) memory = memory"
    using append_take_drop_id[of 128 "drop (base + 128) memory"] append_take_drop_id[of 128 "drop base memory"]
    by (simp add: add.commute)
  then have c0: "chained base memory B st0"
    using room' seg load_wave[of "base + 128" memory]
    by (simp add: chained_def B_def st0_def QWORDS_IN_BLOCK_def)
  have a0: "addressed seg 0 2 st0"
    using next_addresses_slice[of 0 "4 * seg" 1] seg by (simp add: addressed_def st0_def initial_slice_input)
  note l1 = indexed_loop[OF c0 a0 _ _ room' seg, of seg, folded st1_def]
  have c1: "chained base memory (fill_blocks seg (seg - 2) B) st1" "addressed seg 0 seg st1"
    using l1 seg by (simp_all add: B_def st1_def)
  have c2: "chained base memory (fill_blocks seg (seg - 2) B) st2" "addressed seg 1 0 st2"
    using c1 by (simp_all add: st2_def chained_def addressed_def slice_input_def)
  have c3: "chained base memory (fill_blocks seg (seg - 2 + seg) B) st3"
    using indexed_loop[OF c2 _ _ room' seg, of seg] seg unfolding fill_blocks_add by (simp add: B_def st3_def)
  have c4: "chained base memory (fill_blocks seg (seg - 2 + seg + seg) B) st4"
    using dependent_loop[OF c3 _ room' seg, of 2 seg] seg unfolding fill_blocks_add[of _ _ seg] by (simp add: B_def st4_def)
  have "chained base memory (fill_blocks seg (seg - 2 + seg + seg + seg) B) st5"
    using dependent_loop[OF c4 _ room' seg, of 3 seg] seg unfolding fill_blocks_add[of _ _ seg] by (simp add: B_def st5_def)
  moreover have "seg - 2 + seg + seg + seg = 4 * seg - 2" using seg by simp
  ultimately have c5: "chained base memory (fill_blocks seg (4 * seg - 2) B) st5" by simp
  have spec: "lane_spec seg (drop base memory) = concat (fill_blocks seg (4 * seg - 2) B)"
    by (simp add: lane_spec_def B_def add.commute[of 128 base])
  have "length B = 2" by (simp add: B_def)
  then have len: "length (fill_blocks seg (4 * seg - 2) B) = 4 * seg" using seg by simp
  then have "length (concat (fill_blocks seg (4 * seg - 2) B)) = 128 * (4 * seg)"
    using length_blocks[of "fill_blocks seg (4 * seg - 2) B"] c5 by (simp add: chained_def)
  then have "f_memory st5 = buf_write base (lane_spec seg (drop base memory)) memory"
    using c5 unfolding chained_def buf_write_def spec len by simp
  moreover have "argon2_kernel_oneshot seg job memory = f_memory st5"
  proof -
    have "[2..<4] = [2, 3::nat]" by (simp add: upt_rec)
    then show ?thesis using seg
      by (simp add: argon2_kernel_oneshot_def Let_def base st5_def st4_def st3_def st2_def st1_def st0_def)
  qed
  ultimately show ?thesis by (simp add: base_def)
qed

lemma fill_blocks_lengths:
  assumes "\<forall>b\<in>set B. length b = 128" "2 \<le> length B"
  shows "\<forall>b\<in>set (fill_blocks seg n B). length b = 128"
  using assms
proof (induction n)
  case (Suc n)
  let ?C = "fill_blocks seg n B"
  have "reference_index (length ?C - 1) (pseudo_J1 seg ?C) < length ?C - 1"
    using Suc.prems by (intro reference_index_lt) simp
  then have "?C ! reference_index (length ?C - 1) (pseudo_J1 seg ?C) \<in> set ?C" "last ?C \<in> set ?C"
    using Suc.prems by (auto intro!: nth_mem last_in_set simp: length_greater_0_conv[symmetric] simp del: length_greater_0_conv)
  then show ?case using Suc by (auto simp: fill_blocks_snoc next_block_def)
qed simp

lemma length_lane_spec:
  assumes "2 \<le> seg" "4 * seg < 2 ^ 32" "512 * seg \<le> length lane"
  shows "length (lane_spec seg lane) = 512 * seg"
proof -
  have "\<forall>b\<in>set [take 128 lane, take 128 (drop 128 lane)]. length b = 128" using assms by auto
  from length_blocks[OF fill_blocks_lengths[OF this, of seg "4 * seg - 2"]] show ?thesis
    using assms(1) by (simp add: lane_spec_def)
qed

lemma launch_fills:
  assumes seg: "2 \<le> seg" "4 * seg < 2 ^ 32" and len: "length memory = n * (512 * seg)"
    and jobs: "distinct jobs" "\<forall>j\<in>set jobs. j < n"
  shows "oneshot_launch seg jobs memory
    = fold (\<lambda>j. buf_write (j * (512 * seg)) (lane_spec seg (slot_at (512 * seg) j memory))) jobs memory"
  unfolding oneshot_launch_def using len jobs
proof (induction jobs arbitrary: memory)
  case (Cons j js)
  let ?S = "512 * seg"
  let ?b = "lane_spec seg (slot_at ?S j memory)"
  have j: "j < n" using Cons.prems by simp
  have e: "j * ?S + ?S \<le> length memory" using slot_end[OF j, of ?S] Cons.prems(1) by simp
  have "lane_spec seg (drop (j * ?S) memory) = ?b" using seg(1) by (simp add: lane_spec_def drop_take min_def)
  then have k: "argon2_kernel_oneshot seg j memory = buf_write (j * ?S) ?b memory"
    using kernel_fills[OF seg e] by simp
  have lb: "length ?b = ?S" using seg length_slot_at[OF Cons.prems(1) j] by (intro length_lane_spec) simp_all
  have other: "slot_at ?S i (buf_write (j * ?S) ?b memory) = slot_at ?S i memory" if "i \<in> set js" for i
    using slot_write_other[OF Cons.prems(1) j lb, of i] that Cons.prems(2) by auto
  have "fold (argon2_kernel_oneshot seg) js (buf_write (j * ?S) ?b memory)
      = fold (\<lambda>i. buf_write (i * ?S) (lane_spec seg (slot_at ?S i (buf_write (j * ?S) ?b memory)))) js (buf_write (j * ?S) ?b memory)"
    using Cons.prems e lb by (intro Cons.IH) auto
  also have "\<dots> = fold (\<lambda>i. buf_write (i * ?S) (lane_spec seg (slot_at ?S i memory))) js (buf_write (j * ?S) ?b memory)"
    using other by (intro fold_cong) auto
  finally show ?case using k by simp
qed simp

lemma fold_whole_slots:
  assumes "length buf = n * S" "\<And>j. j < n \<Longrightarrow> length (F j) = S" "\<forall>j\<in>set js. j < n"
  shows "length (fold (\<lambda>j. buf_write (j * S) (F j)) js buf) = n * S
    \<and> (\<forall>i < n. slot_at S i (fold (\<lambda>j. buf_write (j * S) (F j)) js buf) = (if i \<in> set js then F i else slot_at S i buf))"
  using assms(3)
proof (induction js rule: rev_induct)
  case (snoc j js)
  let ?m = "fold (\<lambda>j. buf_write (j * S) (F j)) js buf"
  have m: "length ?m = n * S" and j: "j < n" and sl: "\<And>i. i < n \<Longrightarrow> slot_at S i ?m = (if i \<in> set js then F i else slot_at S i buf)"
    using snoc by auto
  have "slot_at S i (buf_write (j * S) (F j) ?m) = (if i \<in> set (js @ [j]) then F i else slot_at S i buf)" if "i < n" for i
    using sl[OF that] slot_write_same[OF m j assms(2)[OF j]] slot_write_other[OF m j assms(2)[OF j], of i]
    by (cases "i = j") simp_all
  then show ?case using m slot_end[OF j, of S] assms(2)[OF j] by simp
qed (use assms(1) in simp)

lemma launch_slots:
  assumes "2 \<le> seg" "4 * seg < 2 ^ 32" "length memory = n * (512 * seg)" "distinct jobs" "set jobs = {..<n}"
  shows "length (oneshot_launch seg jobs memory) = n * (512 * seg)"
    and "j < n \<Longrightarrow> slot_at (512 * seg) j (oneshot_launch seg jobs memory) = lane_spec seg (drop (j * (512 * seg)) memory)"
proof -
  let ?S = "512 * seg"
  let ?F = "\<lambda>j. lane_spec seg (slot_at ?S j memory)"
  have lenF: "length (?F j) = ?S" if "j < n" for j
    using length_slot_at[OF assms(3) that] assms(1,2) by (intro length_lane_spec) simp_all
  have r: "oneshot_launch seg jobs memory = fold (\<lambda>j. buf_write (j * ?S) (?F j)) jobs memory"
    using launch_fills[OF assms(1-4)] assms(5) by simp
  have in_n: "\<forall>j\<in>set jobs. j < n" using assms(5) by simp
  note f = fold_whole_slots[OF assms(3), of ?F jobs, OF lenF in_n, folded r]
  then show "length (oneshot_launch seg jobs memory) = n * ?S" by simp
  assume "j < n"
  then have "slot_at ?S j (oneshot_launch seg jobs memory) = ?F j" using f assms(5) by simp
  also have "\<dots> = lane_spec seg (drop (j * ?S) memory)" using assms(1) by (simp add: lane_spec_def drop_take min_def)
  finally show "slot_at ?S j (oneshot_launch seg jobs memory) = lane_spec seg (drop (j * ?S) memory)" .
qed

text \<open>C40.  A launch of the memory-filling kernel over a batch, one workgroup per job in any order, leaves in
  every job's lane the blocks of RFC 9106 (Argon2id, one lane, one pass) chained from the two blocks
  that stood there: the addresses of the first two slices, the data-dependent references of the last
  two, the wrapped 32-bit reference arithmetic and the shuffled compression all follow the standard.\<close>

theorem oneshot_is_rfc_fill:
  assumes "2 \<le> seg" "4 * seg < 2 ^ 32" "length memory = n * (512 * seg)" "distinct jobs" "set jobs = {..<n}"
  shows "length (oneshot_launch seg jobs memory) = length memory
    \<and> (\<forall>j < n. take (512 * seg) (drop (j * (512 * seg)) (oneshot_launch seg jobs memory))
        = concat (fill_blocks seg (4 * seg - 2)
            [take 128 (drop (j * (512 * seg)) memory), take 128 (drop (j * (512 * seg) + 128) memory)]))"
  using launch_slots[OF assms] assms(3) by (simp add: lane_spec_def add.commute[of 128])

theorem oneshot_is_rfc_fill_witness:
  "take 1024 (drop 1024 (oneshot_launch 2 [1, 2, 0] (replicate 3072 5)))
   = concat (fill_blocks 2 6 [replicate 128 5, replicate 128 5])"
proof -
  have "set [1, 2, 0] = {..<3::nat}" by auto
  then have "\<forall>j < 3. take 1024 (drop (j * 1024) (oneshot_launch 2 [1, 2, 0] (replicate 3072 5)))
      = concat (fill_blocks 2 6 [take 128 (drop (j * 1024) (replicate 3072 5)), take 128 (drop (j * 1024 + 128) (replicate 3072 5))])"
    using oneshot_is_rfc_fill[of 2 "replicate 3072 5" 3 "[1, 2, 0]"] by simp
  from this[rule_format, of 1] show ?thesis by simp
qed

end
