(* ===== verification/Gpu_Runner.thy ===== *)
theory Gpu_Runner
  imports Argon2_Fill Core_Encoding
begin

text \<open>
  The device pool and its launch sequence (\<^verbatim>\<open>tm-gpu/src/runner.rs\<close>), the kernel launches
  (\<^verbatim>\<open>tm-gpu/src/module.rs\<close>) and the pool's owner (\<^verbatim>\<open>tm-gpu/src/backend.rs\<close>).  The driver is the
  parameter \<open>driver\<close>: which of its calls fail, what a fresh allocation contains, in which order the
  work-items and workgroups of a launch run.  What is queued on the stream takes effect in the order
  of the calls, the driver's documented stream order; events and timings carry no data and appear as
  calls that may fail.
\<close>

subsection \<open>Driver and errors\<close>

datatype gpu_error =
    Hip_Failed string int string
  | Cuda_Failed string int string
  | NoKernel
  | Gpu_Invalid string
  | NoSuchDevice int
  | Gpu_Host string

fun gpu_error_text :: "gpu_error \<Rightarrow> string" where
  "gpu_error_text (Hip_Failed call code message) =
     call @ '' failed: '' @ message @ '' (hipError '' @ show_int code @ '')''"
| "gpu_error_text (Cuda_Failed call code message) =
     call @ '' failed: '' @ message @ '' (CUresult '' @ show_int code @ '')''"
| "gpu_error_text NoKernel = ''tm-gpu was built without hipcc; no Argon2 device kernel is available''"
| "gpu_error_text (Gpu_Invalid reason) = ''invalid GPU request: '' @ reason"
| "gpu_error_text (NoSuchDevice index) = ''no GPU with index '' @ show_int index"
| "gpu_error_text (Gpu_Host message) = ''CPU Argon2 helper failed: '' @ message"

record driver =
  dr_fail :: "nat \<Rightarrow> gpu_error option"
  dr_fresh :: "nat \<Rightarrow> nat \<Rightarrow> bytes"
  dr_items :: "nat \<Rightarrow> nat \<Rightarrow> nat \<Rightarrow> (nat \<times> nat) list"
  dr_jobs :: "nat \<Rightarrow> nat \<Rightarrow> nat list"

text \<open>An allocation has the size asked for, a launch runs every work-item of its grid, and every
  workgroup once.\<close>

definition driver_ok :: "driver \<Rightarrow> bool" where
  "driver_ok d \<longleftrightarrow>
     (\<forall>k n. length (dr_fresh d k n) = n)
     \<and> (\<forall>k g t. set (dr_items d k g t) = {0..<g} \<times> {0..<t})
     \<and> (\<forall>k n. distinct (dr_jobs d k n) \<and> set (dr_jobs d k n) = {..<n})"

subsection \<open>State\<close>

record first_block_config =
  fc_key_length :: nat
  fc_salt_length :: nat
  fc_shape :: argon2_shape

record kernel_runner =
  r_memory :: bytes
  r_keys :: "bytes option"
  r_salt :: "bytes option"
  r_shape :: argon2_shape
  r_alloc_segment_blocks :: nat
  r_batch_size :: nat
  r_blocks_in :: bytes
  r_blocks_out :: bytes
  r_pending :: "first_block_config option"
  r_last_used_device :: bool

record gpu =
  g_calls :: nat
  g_runner :: "kernel_runner option"

type_synonym 'a gm = "gpu \<Rightarrow> (gpu_error + 'a) \<times> gpu"

definition gret :: "'a \<Rightarrow> 'a gm" where
  "gret a g = (Inr a, g)"

definition gfail :: "gpu_error \<Rightarrow> 'a gm" where
  "gfail e g = (Inl e, g)"

definition gbind :: "'a gm \<Rightarrow> ('a \<Rightarrow> 'b gm) \<Rightarrow> 'b gm" where
  "gbind m f g = (case m g of (Inl e, g1) \<Rightarrow> (Inl e, g1) | (Inr a, g1) \<Rightarrow> f a g1)"

text \<open>One checked driver call; its value is its number.\<close>

definition gcall :: "driver \<Rightarrow> nat gm" where
  "gcall d g =
     (let k = g_calls g; g1 = g\<lparr> g_calls := Suc k \<rparr>
      in case dr_fail d k of Some e \<Rightarrow> (Inl e, g1) | None \<Rightarrow> (Inr k, g1))"

fun gcalls :: "driver \<Rightarrow> nat \<Rightarrow> unit gm" where
  "gcalls d 0 = gret ()"
| "gcalls d (Suc n) = gbind (gcall d) (\<lambda>_. gcalls d n)"

text \<open>\<^verbatim>\<open>runner_mut()?\<close> and the update of the pool.\<close>

definition runner_mut :: "kernel_runner gm" where
  "runner_mut g =
     (case g_runner g of
        None \<Rightarrow> (Inl (Gpu_Invalid ''GPU pool is not initialised''), g)
      | Some r \<Rightarrow> (Inr r, g))"

definition put_runner :: "kernel_runner \<Rightarrow> unit gm" where
  "put_runner r g = (Inr (), g\<lparr> g_runner := Some r \<rparr>)"

subsection \<open>The pool\<close>

definition runner_new :: "driver \<Rightarrow> argon2_shape \<Rightarrow> nat \<Rightarrow> kernel_runner gm" where
  "runner_new d shape batch_size =
     (if batch_size = 0 then gfail (Gpu_Invalid ''batch size must be non-zero'')
      else
        (let memory_size = batch_size * job_bytes shape
         in if 2 ^ 64 \<le> memory_size then gfail (Gpu_Invalid ''batch size overflows the device pool'')
            else
              gbind (gcalls d 9) (\<lambda>_.
              gbind (gcall d) (\<lambda>k.
              gret \<lparr> r_memory = dr_fresh d k memory_size, r_keys = None, r_salt = None, r_shape = shape,
                     r_alloc_segment_blocks = segment_blocks shape, r_batch_size = batch_size,
                     r_blocks_in = replicate (batch_size * INPUT_BLOCKS_PER_JOB * ARGON2_BLOCK_SIZE) 0,
                     r_blocks_out = replicate (batch_size * ARGON2_BLOCK_SIZE) 0,
                     r_pending = None, r_last_used_device = False \<rparr>))))"

definition can_reuse :: "kernel_runner \<Rightarrow> argon2_shape \<Rightarrow> nat \<Rightarrow> bool" where
  "can_reuse r shape batch_size \<longleftrightarrow>
     sh_type (r_shape r) = sh_type shape \<and> sh_version (r_shape r) = sh_version shape
     \<and> sh_passes (r_shape r) = sh_passes shape \<and> sh_lanes (r_shape r) = sh_lanes shape
     \<and> r_batch_size r = batch_size \<and> segment_blocks shape \<le> r_alloc_segment_blocks r"

definition reconfigure :: "argon2_shape \<Rightarrow> nat \<Rightarrow> kernel_runner \<Rightarrow> kernel_runner" where
  "reconfigure shape batch_size r =
     r\<lparr> r_shape := shape, r_batch_size := batch_size, r_pending := None, r_last_used_device := False \<rparr>"

definition backend_init :: "driver \<Rightarrow> argon2_shape \<Rightarrow> nat \<Rightarrow> unit gm" where
  "backend_init d shape batch_size g =
     (case g_runner g of
        Some r \<Rightarrow>
          if can_reuse r shape batch_size then put_runner (reconfigure shape batch_size r) g
          else gbind (runner_new d shape batch_size) put_runner (g\<lparr> g_runner := None \<rparr>)
      | None \<Rightarrow> gbind (runner_new d shape batch_size) put_runner (g\<lparr> g_runner := None \<rparr>))"

definition release_buffers :: "gpu \<Rightarrow> gpu" where
  "release_buffers g = g\<lparr> g_runner := None \<rparr>"

text \<open>The pool is released before the free memory is measured; \<open>free\<close> is what the device reports.\<close>

definition plan_batch_size ::
  "gpu_runtime_kind \<Rightarrow> (nat \<Rightarrow> gpu_error + nat) \<Rightarrow> nat \<Rightarrow> nat \<Rightarrow> batch_size_decision gm" where
  "plan_batch_size runtime free difficulty explicit_max_batch_size g =
     (let g = release_buffers g
      in case free (g_calls g) of
           Inl e \<Rightarrow> (Inl e, g\<lparr> g_calls := Suc (g_calls g) \<rparr>)
         | Inr n \<Rightarrow> (Inr (select_batch_size runtime n difficulty explicit_max_batch_size), g\<lparr> g_calls := Suc (g_calls g) \<rparr>))"

subsection \<open>Staging\<close>

definition input_blocks_mut :: "kernel_runner \<Rightarrow> nat \<Rightarrow> gpu_error + bytes" where
  "input_blocks_mut r job_id =
     (let size = INPUT_BLOCKS_PER_JOB * ARGON2_BLOCK_SIZE; start = job_id * size
      in if length (r_blocks_in r) < start + size then
           Inl (Gpu_Invalid (''job '' @ show_nat job_id @ '' is outside the batch''))
         else Inr (take size (drop start (r_blocks_in r))))"

definition input_blocks_batch_mut :: "kernel_runner \<Rightarrow> nat \<Rightarrow> gpu_error + bytes" where
  "input_blocks_batch_mut r jobs =
     (let size = INPUT_BLOCKS_PER_JOB * ARGON2_BLOCK_SIZE
      in if length (r_blocks_in r) < jobs * size then
           Inl (Gpu_Invalid (''batch of '' @ show_nat jobs @ '' is outside the pool''))
         else Inr (take (jobs * size) (r_blocks_in r)))"

definition output_block :: "kernel_runner \<Rightarrow> nat \<Rightarrow> gpu_error + bytes" where
  "output_block r job_id =
     (let start = job_id * ARGON2_BLOCK_SIZE
      in if length (r_blocks_out r) < start + ARGON2_BLOCK_SIZE then
           Inl (Gpu_Invalid (''job '' @ show_nat job_id @ '' is outside the batch''))
         else Inr (take ARGON2_BLOCK_SIZE (drop start (r_blocks_out r))))"

definition output_blocks :: "kernel_runner \<Rightarrow> nat \<Rightarrow> gpu_error + bytes" where
  "output_blocks r jobs =
     (if length (r_blocks_out r) < jobs * ARGON2_BLOCK_SIZE then
        Inl (Gpu_Invalid (''batch of '' @ show_nat jobs @ '' is outside the pool''))
      else Inr (take (jobs * ARGON2_BLOCK_SIZE) (r_blocks_out r)))"

text \<open>A device buffer that only grows, and the blocking copy into its start.\<close>

definition grow :: "driver \<Rightarrow> nat \<Rightarrow> bytes option \<Rightarrow> bytes gm" where
  "grow d want buffer =
     (case buffer of
        Some b \<Rightarrow> if length b < want then gbind (gcall d) (\<lambda>k. gret (dr_fresh d k want)) else gret b
      | None \<Rightarrow> gbind (gcall d) (\<lambda>k. gret (dr_fresh d k want)))"

definition copy_from_host :: "driver \<Rightarrow> bytes \<Rightarrow> bytes \<Rightarrow> bytes gm" where
  "copy_from_host d source buffer =
     (if length buffer < length source then
        gfail (Gpu_Invalid (''host->device copy of '' @ show_nat (length source) @ '' bytes into a ''
          @ show_nat (length buffer) @ ''-byte buffer''))
      else gbind (gcall d) (\<lambda>k. gret (buf_write 0 source buffer)))"

definition upd_runner :: "(kernel_runner \<Rightarrow> kernel_runner) \<Rightarrow> unit gm" where
  "upd_runner f g = (Inr (), g\<lparr> g_runner := map_option f (g_runner g) \<rparr>)"

definition prepare_input_blocks_on_device ::
  "driver \<Rightarrow> bytes list \<Rightarrow> bytes \<Rightarrow> argon2_shape \<Rightarrow> bool gm" where
  "prepare_input_blocks_on_device d passwords salt shape =
     gbind runner_mut (\<lambda>r.
     gbind (upd_runner (\<lambda>r. r\<lparr> r_pending := None \<rparr>)) (\<lambda>_.
       if passwords = [] \<or> length passwords \<noteq> r_batch_size r \<or> sh_output_length shape \<noteq> DEFAULT_HASH_LENGTH
          \<or> sh_passes shape \<noteq> 1 \<or> sh_lanes shape \<noteq> 1 \<or> salt = [] \<or> 2 ^ 32 \<le> length salt
       then gret False
       else
         (let key_length = length (hd passwords)
          in if key_length = 0 \<or> 2 ^ 32 \<le> key_length then gret False
             else if \<not> list_all (\<lambda>p. length p = key_length) passwords then gret False
             else
               (let flat_keys = concat passwords
                in gbind (upd_runner (\<lambda>r. r\<lparr> r_keys := (case r_keys r of
                       Some b \<Rightarrow> if length b < length flat_keys then None else Some b | None \<Rightarrow> None) \<rparr>)) (\<lambda>_.
                   gbind (grow d (length flat_keys) (r_keys r)) (\<lambda>keys.
                   gbind (upd_runner (\<lambda>r. r\<lparr> r_keys := Some keys \<rparr>)) (\<lambda>_.
                   gbind (upd_runner (\<lambda>r. r\<lparr> r_salt := (case r_salt r of
                       Some b \<Rightarrow> if length b < length salt then None else Some b | None \<Rightarrow> None) \<rparr>)) (\<lambda>_.
                   gbind (grow d (length salt) (r_salt r)) (\<lambda>salt_buffer.
                   gbind (upd_runner (\<lambda>r. r\<lparr> r_salt := Some salt_buffer \<rparr>)) (\<lambda>_.
                   gbind (copy_from_host d flat_keys keys) (\<lambda>keys.
                   gbind (upd_runner (\<lambda>r. r\<lparr> r_keys := Some keys \<rparr>)) (\<lambda>_.
                   gbind (copy_from_host d salt salt_buffer) (\<lambda>salt_buffer.
                   gbind (upd_runner (\<lambda>r. r\<lparr> r_salt := Some salt_buffer,
                       r_pending := Some \<lparr> fc_key_length = key_length, fc_salt_length = length salt, fc_shape = shape \<rparr> \<rparr>)) (\<lambda>_.
                   gret True))))))))))))))"

subsection \<open>Launching\<close>

text \<open>Device memory read as little-endian words, as the cast of the kernel argument reads it.\<close>

definition words_of_bytes :: "bytes \<Rightarrow> u64 list" where
  "words_of_bytes bs = map (\<lambda>i. load64 (take 8 (drop (8 * i) bs))) [0..<length bs div 8]"

definition bytes_of_words :: "u64 list \<Rightarrow> bytes" where
  "bytes_of_words ws = concat (map store64 ws)"

definition memcpy_2d :: "nat \<Rightarrow> nat \<Rightarrow> nat \<Rightarrow> nat \<Rightarrow> bytes \<Rightarrow> bytes \<Rightarrow> bytes" where
  "memcpy_2d dpitch spitch width height src dst =
     fold (\<lambda>i. buf_write (i * dpitch) (take width (drop (i * spitch) src))) [0..<height] dst"

definition THREADS_PER_BLOCK :: nat where "THREADS_PER_BLOCK = 128"

definition first_blocks_grid :: "kernel_runner \<Rightarrow> nat" where
  "first_blocks_grid r = (r_batch_size r + THREADS_PER_BLOCK - 1) div THREADS_PER_BLOCK"

definition first_blocks_params :: "first_block_config \<Rightarrow> kernel_runner \<Rightarrow> kernel_params" where
  "first_blocks_params config r =
     \<lparr> k_batch_size = r_batch_size r, k_key_length = fc_key_length config,
       k_output_length = sh_output_length (fc_shape config), k_memory_cost = sh_memory_cost (fc_shape config),
       k_time_cost = sh_passes (fc_shape config), k_version = sh_version (fc_shape config),
       k_type = sh_type (fc_shape config), k_lanes = sh_lanes (fc_shape config),
       k_segment_blocks = segment_blocks (r_shape r), k_threads_per_block = THREADS_PER_BLOCK \<rparr>"

definition launch_first_blocks :: "driver \<Rightarrow> first_block_config \<Rightarrow> unit gm" where
  "launch_first_blocks d config =
     gbind runner_mut (\<lambda>r.
       case r_keys r of
         None \<Rightarrow> gfail (Gpu_Invalid ''first blocks prepared without keys'')
       | Some keys \<Rightarrow>
           (case r_salt r of
              None \<Rightarrow> gfail (Gpu_Invalid ''first blocks prepared without a salt'')
            | Some salt \<Rightarrow>
                gbind (gcall d) (\<lambda>_.
                  if 2 ^ 32 \<le> first_blocks_grid r then
                    gfail (Gpu_Invalid (''batch of '' @ show_nat (r_batch_size r) @ '' exceeds one grid''))
                  else
                    gbind (gcall d) (\<lambda>k.
                    upd_runner (\<lambda>r. r\<lparr> r_memory :=
                      argon2_first_blocks_kernel (first_blocks_params config r) keys (take (fc_salt_length config) salt)
                        (dr_items d k (first_blocks_grid r) THREADS_PER_BLOCK) (r_memory r) \<rparr>)))))"

definition launch_oneshot :: "driver \<Rightarrow> unit gm" where
  "launch_oneshot d =
     gbind runner_mut (\<lambda>r.
     gbind (gcall d) (\<lambda>_.
       if 2 ^ 32 \<le> r_batch_size r then
         gfail (Gpu_Invalid (''batch of '' @ show_nat (r_batch_size r) @ '' exceeds one grid''))
       else
         gbind (gcall d) (\<lambda>k.
         upd_runner (\<lambda>r. r\<lparr> r_memory :=
           bytes_of_words (oneshot_launch (segment_blocks (r_shape r)) (dr_jobs d k (r_batch_size r))
             (words_of_bytes (r_memory r))) \<rparr>))))"

definition copy_input_blocks :: "driver \<Rightarrow> unit gm" where
  "copy_input_blocks d =
     (let copy_size = INPUT_BLOCKS_PER_JOB * ARGON2_BLOCK_SIZE
      in gbind (gcall d) (\<lambda>_.
         upd_runner (\<lambda>r. r\<lparr> r_memory := memcpy_2d (job_bytes (r_shape r)) copy_size copy_size (r_batch_size r)
           (r_blocks_in r) (r_memory r) \<rparr>)))"

definition copy_output_blocks :: "driver \<Rightarrow> unit gm" where
  "copy_output_blocks d =
     gbind (gcall d) (\<lambda>_.
     upd_runner (\<lambda>r.
       let copy_size = sh_lanes (r_shape r) * ARGON2_BLOCK_SIZE
       in r\<lparr> r_blocks_out := memcpy_2d copy_size (job_bytes (r_shape r)) copy_size (r_batch_size r)
            (drop (job_bytes (r_shape r) - copy_size) (r_memory r)) (r_blocks_out r) \<rparr>))"

definition runner_run :: "driver \<Rightarrow> unit gm" where
  "runner_run d =
     gbind (gcalls d 2) (\<lambda>_.
     gbind runner_mut (\<lambda>r.
     let pending = r_pending r
     in gbind (upd_runner (\<lambda>r. r\<lparr> r_pending := None, r_last_used_device := (pending \<noteq> None) \<rparr>)) (\<lambda>_.
        gbind (case pending of
                 Some config \<Rightarrow>
                   gbind (gcalls d 2) (\<lambda>_. gbind (launch_first_blocks d config) (\<lambda>_. gcalls d 1))
               | None \<Rightarrow> gbind (copy_input_blocks d) (\<lambda>_. gcalls d 3)) (\<lambda>_.
        gbind (gcalls d 1) (\<lambda>_.
        gbind (launch_oneshot d) (\<lambda>_.
        gbind (gcalls d 1) (\<lambda>_.
        gbind (copy_output_blocks d) (\<lambda>_.
        gcalls d 1))))))))"

definition runner_finish :: "driver \<Rightarrow> unit gm" where
  "runner_finish d =
     gbind (gcalls d 1) (\<lambda>_. gbind runner_mut (\<lambda>r. gcalls d (if r_last_used_device r then 5 else 4)))"

subsection \<open>Bytes and words\<close>

unbundle bit_operations_syntax

lemma load64_bits:
  "k \<le> 8 \<Longrightarrow> n < 64 \<Longrightarrow> bit (fold (\<lambda>i v. v OR push_bit (8 * i) (ucast (src ! i))) [0..<k] (0::u64)) n
   \<longleftrightarrow> n < 8 * k \<and> bit ((src :: bytes) ! (n div 8)) (n mod 8)"
proof (induction k)
  case (Suc k)
  have "bit (push_bit (8 * k) (ucast (src ! k)) :: u64) n \<longleftrightarrow> 8 * k \<le> n \<and> n < 8 * Suc k \<and> bit (src ! (n div 8)) (n mod 8)"
  proof (cases "8 * k \<le> n \<and> n < 8 * Suc k")
    case True
    then have "n div 8 = k" by (intro div_nat_eqI) auto
    moreover from this have "n - 8 * k = n mod 8" by (simp add: minus_mult_div_eq_mod[symmetric])
    moreover have "n mod 8 < 64" by (rule less_trans[of _ 8]) simp_all
    ultimately show ?thesis using True Suc.prems by (simp add: bit_simps)
  next
    case False
    then show ?thesis by (auto simp: bit_simps dest: bit_imp_le_length)
  qed
  then show ?case using Suc by (auto simp: bit_simps)
qed (simp add: bit_simps)

lemma bit_load64: "bit (load64 src) n \<longleftrightarrow> n < 64 \<and> bit (src ! (n div 8)) (n mod 8)"
  using load64_bits[of 8 n src] by (cases "n < 64") (auto simp: load64_def dest: bit_imp_le_length)

lemma bit_store64: "i < 8 \<Longrightarrow> bit (store64 v ! i) m \<longleftrightarrow> m < 8 \<and> bit v (8 * i + m)"
  by (auto simp: store64_def bit_simps)

lemma load_store64: "load64 (store64 v) = v"
  by (rule bit_word_eqI) (simp add: bit_load64 bit_store64 less_mult_imp_div_less)

lemma store_load64: "length bs = 8 \<Longrightarrow> store64 (load64 bs) = bs"
proof (rule nth_equalityI)
  fix i assume "length bs = 8" "i < length (store64 (load64 bs))"
  then have i: "i < 8" by simp
  show "store64 (load64 bs) ! i = bs ! i"
    using i by (intro bit_word_eqI) (simp add: bit_store64 bit_load64)
qed simp

lemma length_words [simp]: "length (words_of_bytes bs) = length bs div 8"
  by (simp add: words_of_bytes_def)

lemma nth_words: "i < length bs div 8 \<Longrightarrow> words_of_bytes bs ! i = load64 (take 8 (drop (8 * i) bs))"
  by (simp add: words_of_bytes_def)

lemma length_bytes_of_words [simp]: "length (bytes_of_words ws) = 8 * length ws"
  by (induction ws) (simp_all add: bytes_of_words_def)

lemma bytes_of_words_append: "bytes_of_words (a @ b) = bytes_of_words a @ bytes_of_words b"
  by (simp add: bytes_of_words_def)

lemma slot_bytes_of_words: "take (8 * a) (drop (8 * b) (bytes_of_words ws)) = bytes_of_words (take a (drop b ws))"
proof -
  have d: "drop (8 * b) (bytes_of_words ws) = bytes_of_words (drop b ws)"
  proof (cases "b \<le> length ws")
    case True
    then have "bytes_of_words ws = bytes_of_words (take b ws) @ bytes_of_words (drop b ws)" by (simp flip: bytes_of_words_append)
    then show ?thesis using True by simp
  next
    case False
    then have "length (bytes_of_words ws) \<le> 8 * b" by simp
    then show ?thesis using False by (simp add: bytes_of_words_def)
  qed
  have t: "take (8 * a) (bytes_of_words v) = bytes_of_words (take a v)" for v
  proof (cases "a \<le> length v")
    case True
    then have "bytes_of_words v = bytes_of_words (take a v) @ bytes_of_words (drop a v)" by (simp flip: bytes_of_words_append)
    then show ?thesis using True by simp
  qed simp
  show ?thesis by (simp add: d t)
qed

lemma nth_bytes_of_words: "i < length ws \<Longrightarrow> take 8 (drop (8 * i) (bytes_of_words ws)) = store64 (ws ! i)"
  using slot_bytes_of_words[of 1 i ws] by (simp add: take_Suc_conv_app_nth bytes_of_words_def hd_drop_conv_nth take_Suc)

lemma words_of_bytes_of_words [simp]: "words_of_bytes (bytes_of_words ws) = ws"
  by (rule nth_equalityI) (simp_all add: words_of_bytes_def nth_bytes_of_words load_store64)

lemma slot_words_of_bytes:
  assumes l: "8 * (a + b) \<le> length bs"
  shows "words_of_bytes (take (8 * a) (drop (8 * b) bs)) = take a (drop b (words_of_bytes bs))"
proof (rule nth_equalityI)
  have e: "length (take (8 * a) (drop (8 * b) bs)) = 8 * a" using l by simp
  have ab: "a + b \<le> length bs div 8" using l by (simp add: less_eq_div_iff_mult_less_eq mult.commute)
  then have "length (take a (drop b (words_of_bytes bs))) = a" by simp
  then show "length (words_of_bytes (take (8 * a) (drop (8 * b) bs))) = length (take a (drop b (words_of_bytes bs)))"
    unfolding length_words e by simp
  fix i assume "i < length (words_of_bytes (take (8 * a) (drop (8 * b) bs)))"
  then have i: "i < a" unfolding length_words e by simp
  have "take 8 (drop (8 * i) (take (8 * a) (drop (8 * b) bs))) = take 8 (drop (8 * (b + i)) bs)"
    using i by (simp add: drop_take min_def algebra_simps)
  moreover have "i < length (take (8 * a) (drop (8 * b) bs)) div 8" using e i by simp
  ultimately show "words_of_bytes (take (8 * a) (drop (8 * b) bs)) ! i = take a (drop b (words_of_bytes bs)) ! i"
    using i ab by (simp add: nth_words)
qed

lemma bytes_of_words_of_bytes: "length bs = 8 * n \<Longrightarrow> bytes_of_words (words_of_bytes bs) = bs"
proof (induction n arbitrary: bs)
  case (Suc n)
  have "words_of_bytes bs = load64 (take 8 bs) # words_of_bytes (drop 8 bs)"
  proof (rule nth_equalityI)
    fix i assume "i < length (words_of_bytes bs)"
    then show "words_of_bytes bs ! i = (load64 (take 8 bs) # words_of_bytes (drop 8 bs)) ! i"
      using Suc.prems by (cases i) (simp_all add: nth_words add.commute)
  qed (use Suc.prems in simp)
  then show ?case using Suc.IH[of "drop 8 bs"] Suc.prems store_load64[of "take 8 bs"] by (simp add: bytes_of_words_def)
qed (simp add: bytes_of_words_def words_of_bytes_def)

subsection \<open>Launches on a pool that may be larger than the batch\<close>

lemma fold_slot_at:
  assumes "0 < S" "L \<le> S" "n * S \<le> length buf" "\<And>j. j \<in> set js \<Longrightarrow> j < n" "\<And>j. length (F j) = L" "j \<in> set js"
  shows "take L (drop (j * S) (fold (\<lambda>j. buf_write (j * S) (F j)) js buf)) = F j"
proof -
  let ?m = "fold (\<lambda>j. buf_write (j * S) (F j)) js buf"
  have f: "length ?m = length buf"
    "\<And>i. i < length buf \<Longrightarrow> ?m ! i = (if i div S \<in> set js \<and> i mod S < L then F (i div S) ! (i mod S) else buf ! i)"
    using fold_slot_writes[OF assms(1-3), of js F] assms(4,5) by auto
  have "j * S + S \<le> length buf" using slot_end[OF assms(4)[OF assms(6)], of S] assms(3) by simp
  then show ?thesis using assms(1,2,5,6) f by (intro nth_equalityI) auto
qed

lemma kernel_append:
  assumes "2 \<le> seg" "4 * seg < 2 ^ 32" "j * (512 * seg) + 512 * seg \<le> length a"
  shows "argon2_kernel_oneshot seg j (a @ b) = argon2_kernel_oneshot seg j a @ b"
    and "length (argon2_kernel_oneshot seg j a) = length a"
proof -
  let ?o = "j * (512 * seg)"
  have spec: "lane_spec seg (drop ?o (a @ b)) = lane_spec seg (drop ?o a)"
    using assms(1,3) by (simp add: lane_spec_def)
  have len: "length (lane_spec seg (drop ?o a)) = 512 * seg"
    using assms by (intro length_lane_spec) simp_all
  show "argon2_kernel_oneshot seg j (a @ b) = argon2_kernel_oneshot seg j a @ b"
    using kernel_fills[OF assms(1,2), of j "a @ b"] kernel_fills[OF assms] assms(3) spec len
    by (simp add: buf_write_def)
  show "length (argon2_kernel_oneshot seg j a) = length a"
    using kernel_fills[OF assms] len assms(3) by simp
qed

lemma launch_append:
  assumes "2 \<le> seg" "4 * seg < 2 ^ 32" "length a = n * (512 * seg)" "\<forall>j\<in>set jobs. j < n"
  shows "oneshot_launch seg jobs (a @ b) = oneshot_launch seg jobs a @ b"
  unfolding oneshot_launch_def using assms(3,4)
proof (induction jobs arbitrary: a)
  case (Cons j js)
  have "j * (512 * seg) + 512 * seg \<le> length a" using slot_end[of j n "512 * seg"] Cons.prems by simp
  note k = kernel_append[OF assms(1,2) this]
  show ?case using Cons.IH[of "argon2_kernel_oneshot seg j a"] Cons.prems k by simp
qed simp

lemma launch_lanes:
  assumes seg: "2 \<le> seg" "4 * seg < 2 ^ 32" and len: "n * (512 * seg) \<le> length memory"
    and jobs: "distinct jobs" "set jobs = {..<n}"
  shows "length (oneshot_launch seg jobs memory) = length memory"
    and "j < n \<Longrightarrow> slot_at (512 * seg) j (oneshot_launch seg jobs memory) = lane_spec seg (drop (j * (512 * seg)) memory)"
proof -
  let ?a = "take (n * (512 * seg)) memory" and ?b = "drop (n * (512 * seg)) memory"
  have la: "length ?a = n * (512 * seg)" using len by simp
  have split: "oneshot_launch seg jobs memory = oneshot_launch seg jobs ?a @ ?b"
    using launch_append[OF seg la, of jobs ?b] jobs by simp
  note l = launch_slots[OF seg la jobs]
  show "length (oneshot_launch seg jobs memory) = length memory" using split l(1) len by simp
  assume j: "j < n"
  have e: "j * (512 * seg) + 512 * seg \<le> n * (512 * seg)" by (rule slot_end[OF j])
  have "slot_at (512 * seg) j (oneshot_launch seg jobs memory) = slot_at (512 * seg) j (oneshot_launch seg jobs ?a)"
    using split l(1) e by simp
  also have "\<dots> = lane_spec seg (drop (j * (512 * seg)) ?a)" by (rule l(2)[OF j])
  also have "\<dots> = lane_spec seg (drop (j * (512 * seg)) memory)"
    using e seg(1) by (simp add: lane_spec_def drop_take min_def)
  finally show "slot_at (512 * seg) j (oneshot_launch seg jobs memory) = lane_spec seg (drop (j * (512 * seg)) memory)" .
qed

text \<open>What a job ends with, given the 2 KiB it starts from.\<close>

definition last_block :: "nat \<Rightarrow> bytes \<Rightarrow> bytes" where
  "last_block seg fb = bytes_of_words (last (fill_blocks seg (4 * seg - 2)
     [words_of_bytes (take 1024 fb), words_of_bytes (take 1024 (drop 1024 fb))]))"

lemma oneshot_last_block:
  assumes seg: "2 \<le> seg" "4 * seg < 2 ^ 32" and len: "n * (4096 * seg) \<le> length memory"
    and jobs: "distinct jobs" "set jobs = {..<n}" and j: "j < n"
  shows "take 1024 (drop (j * (4096 * seg) + (4096 * seg - 1024)) (bytes_of_words (oneshot_launch seg jobs (words_of_bytes memory))))
    = last_block seg (take 2048 (drop (j * (4096 * seg)) memory))"
proof -
  let ?w = "words_of_bytes memory" and ?S = "512 * seg"
  let ?m = "oneshot_launch seg jobs ?w"
  have lw: "n * ?S \<le> length ?w"
  proof -
    have "n * ?S * 8 \<le> length memory" using len by simp
    then show ?thesis by (simp only: length_words less_eq_div_iff_mult_less_eq)
  qed
  have e: "j * ?S + ?S \<le> n * ?S" by (rule slot_end[OF j])
  define B where "B = [take 128 (drop (j * ?S) ?w), take 128 (drop (j * ?S + 128) ?w)]"
  have lane: "slot_at ?S j ?m = concat (fill_blocks seg (4 * seg - 2) B)"
    using launch_lanes(2)[OF seg lw jobs j] by (simp add: lane_spec_def B_def add.commute[of 128])
  have Bl: "\<forall>b\<in>set B. length b = 128" "length B = 2" using e lw seg by (auto simp: B_def)
  have nb: "\<forall>b\<in>set (fill_blocks seg (4 * seg - 2) B). length b = 128"
    using fill_blocks_lengths[OF Bl(1)] Bl(2) by simp
  have lf: "length (fill_blocks seg (4 * seg - 2) B) = 4 * seg" using Bl seg by simp
  then have "length (fill_blocks seg (4 * seg - 2) B) \<noteq> 0" using seg by (simp only:)
  then have ne: "fill_blocks seg (4 * seg - 2) B \<noteq> []" by (metis list.size(3))
  have idx: "(4 * seg - 1) * 128 = ?S - 128" by (simp add: diff_mult_distrib)
  have "take 128 (drop (?S - 128) (slot_at ?S j ?m)) = last (fill_blocks seg (4 * seg - 2) B)"
    unfolding lane using block_of_concat[OF nb, of "4 * seg - 1"] lf seg idx
    by (simp add: last_conv_nth[OF ne] idx[symmetric])
  moreover have "take 128 (drop (?S - 128) (slot_at ?S j ?m)) = take 128 (drop (j * ?S + (?S - 128)) ?m)"
    using seg by (simp add: drop_take min_def add.commute)
  ultimately have last: "take 128 (drop (j * ?S + (?S - 128)) ?m) = last (fill_blocks seg (4 * seg - 2) B)" by simp
  have o: "j * (4096 * seg) + (4096 * seg - 1024) = 8 * (j * ?S + (?S - 128))" by (simp add: diff_mult_distrib2)
  have "take 1024 (drop (j * (4096 * seg) + (4096 * seg - 1024)) (bytes_of_words ?m))
      = bytes_of_words (last (fill_blocks seg (4 * seg - 2) B))"
    unfolding o using slot_bytes_of_words[of 128 "j * ?S + (?S - 128)" ?m] last by simp
  moreover have "B = [words_of_bytes (take 1024 (take 2048 (drop (j * (4096 * seg)) memory))),
      words_of_bytes (take 1024 (drop 1024 (take 2048 (drop (j * (4096 * seg)) memory))))]"
  proof -
    have room: "8 * (128 + (j * ?S + 128)) \<le> length memory" "8 * (128 + j * ?S) \<le> length memory"
      using e len seg by simp_all
    have o: "8 * (j * ?S + 128) = j * (4096 * seg) + 1024" "8 * (j * ?S) = j * (4096 * seg)" "(8::nat) * 128 = 1024"
      by simp_all
    show ?thesis using slot_words_of_bytes[OF room(1), unfolded o] slot_words_of_bytes[OF room(2), unfolded o]
      by (simp add: B_def drop_take min_def add.commute[of 1024])
  qed
  ultimately show ?thesis by (simp add: last_block_def)
qed

subsection \<open>The pool's invariant\<close>

definition shape_ok :: "argon2_shape \<Rightarrow> bool" where
  "shape_ok shape \<longleftrightarrow> sh_lanes shape = 1 \<and> 2 \<le> segment_blocks shape \<and> 4 * segment_blocks shape < 2 ^ 32"

definition runner_ok :: "kernel_runner \<Rightarrow> bool" where
  "runner_ok r \<longleftrightarrow>
     0 < r_batch_size r \<and> shape_ok (r_shape r) \<and> segment_blocks (r_shape r) \<le> r_alloc_segment_blocks r
     \<and> length (r_memory r) = r_batch_size r * (4096 * r_alloc_segment_blocks r)
     \<and> length (r_blocks_in r) = r_batch_size r * 2048 \<and> length (r_blocks_out r) = r_batch_size r * 1024"

text \<open>The two lengths a prepared launch carries are \<open>u32\<close> in the source.\<close>

definition pending_ok :: "kernel_runner \<Rightarrow> bool" where
  "pending_ok r \<longleftrightarrow> (case r_pending r of None \<Rightarrow> True
     | Some config \<Rightarrow> fc_key_length config < 2 ^ 32 \<and> fc_salt_length config < 2 ^ 32)"

definition gpu_ok :: "gpu \<Rightarrow> bool" where
  "gpu_ok g \<longleftrightarrow> (\<forall>r. g_runner g = Some r \<longrightarrow> runner_ok r \<and> pending_ok r)"

text \<open>\<open>keeps I m\<close>: whether it succeeds or fails, \<open>m\<close> preserves \<open>I\<close>.\<close>

definition keeps :: "(gpu \<Rightarrow> bool) \<Rightarrow> 'a gm \<Rightarrow> bool" where
  "keeps I m \<longleftrightarrow> (\<forall>g. I g \<longrightarrow> I (snd (m g)))"

lemma keeps_basic [simp, intro]:
  "keeps I (gret a)" "keeps I (gfail e)" "keeps I runner_mut" "keeps gpu_ok (gcall d)"
  by (auto simp: keeps_def gret_def gfail_def runner_mut_def gcall_def gpu_ok_def Let_def split: option.splits)

lemma keeps_bind [intro]: "keeps I m \<Longrightarrow> (\<And>a. keeps I (f a)) \<Longrightarrow> keeps I (gbind m f)"
  by (fastforce simp: keeps_def gbind_def split: prod.splits sum.splits)

lemma keep_calls [simp, intro]: "keeps gpu_ok (gcalls d n)"
  by (induction n) auto

lemma keeps_upd [intro]:
  "(\<And>r. runner_ok r \<Longrightarrow> pending_ok r \<Longrightarrow> runner_ok (f r) \<and> pending_ok (f r)) \<Longrightarrow> keeps gpu_ok (upd_runner f)"
  by (auto simp: keeps_def gpu_ok_def upd_runner_def)

lemma keeps_put: "runner_ok r \<Longrightarrow> pending_ok r \<Longrightarrow> keeps gpu_ok (put_runner r)"
  by (auto simp: keeps_def gpu_ok_def put_runner_def)

lemma keeps_bind_mut:
  "(\<And>r. runner_ok r \<Longrightarrow> pending_ok r \<Longrightarrow> keeps gpu_ok (f r)) \<Longrightarrow> keeps gpu_ok (gbind runner_mut f)"
proof (unfold keeps_def, intro allI impI)
  fix g assume f: "\<And>r. runner_ok r \<Longrightarrow> pending_ok r \<Longrightarrow> \<forall>g. gpu_ok g \<longrightarrow> gpu_ok (snd (f r g))" and g: "gpu_ok g"
  show "gpu_ok (snd (gbind runner_mut f g))"
  proof (cases "g_runner g")
    case (Some r)
    then have "runner_ok r" "pending_ok r" using g by (auto simp: gpu_ok_def)
    then have "gpu_ok (snd (f r g))" using f g by blast
    then show ?thesis using Some by (simp add: gbind_def runner_mut_def)
  qed (use g in \<open>simp add: gbind_def runner_mut_def\<close>)
qed

lemma keep_if: "(P \<Longrightarrow> keeps I a) \<Longrightarrow> (\<not> P \<Longrightarrow> keeps I b) \<Longrightarrow> keeps I (if P then a else b)"
  by simp

lemma keeps_case: "(x = None \<Longrightarrow> keeps I m) \<Longrightarrow> (\<And>y. x = Some y \<Longrightarrow> keeps I (f y)) \<Longrightarrow>
   keeps I (case x of None \<Rightarrow> m | Some y \<Rightarrow> f y)"
  by (cases x) simp_all

lemma gbind_Inr: "gbind m f g = (Inr b, g') \<longleftrightarrow> (\<exists>a g1. m g = (Inr a, g1) \<and> f a g1 = (Inr b, g'))"
  by (auto simp: gbind_def split: prod.splits sum.splits)

lemma gcall_runner: "gcall d g = (x, g') \<Longrightarrow> g_runner g' = g_runner g"
  by (auto simp: gcall_def Let_def split: option.splits)

lemma gcalls_runner: "gcalls d n g = (x, g') \<Longrightarrow> g_runner g' = g_runner g"
proof (induction n arbitrary: g)
  case (Suc n)
  then show ?case by (auto simp: gbind_def dest!: gcall_runner split: prod.splits sum.splits)
qed (simp add: gret_def)

lemma upd_runner_Inr: "upd_runner f g = (Inr (), g') \<longleftrightarrow> g' = g\<lparr> g_runner := map_option f (g_runner g) \<rparr>"
  by (auto simp: upd_runner_def)

lemma runner_mut_Inr: "runner_mut g = (Inr r, g') \<longleftrightarrow> g_runner g = Some r \<and> g' = g"
  by (auto simp: runner_mut_def split: option.splits)

lemma job_bytes_one_lane: "sh_lanes shape = 1 \<Longrightarrow> job_bytes shape = 4096 * segment_blocks shape"
  by (simp add: job_bytes_def lane_blocks_def ARGON2_SYNC_POINTS_def ARGON2_BLOCK_SIZE_def)

lemma shape_ok_for_difficulty: "d < 2 ^ 32 \<Longrightarrow> shape_ok (shape_for_difficulty d)"
proof -
  assume d: "d < 2 ^ 32"
  have "8 div 4 \<le> max d 8 div 4" by (intro div_le_mono) simp
  moreover have "4 * (max d 8 div 4) \<le> max d 8" by simp
  ultimately show ?thesis using d
    by (simp add: shape_ok_def shape_for_difficulty_def segment_blocks_def ARGON2_SYNC_POINTS_def Let_def)
qed

lemma runner_new_ok:
  assumes "driver_ok d" "shape_ok shape" "runner_new d shape n g = (Inr r, g')"
  shows "runner_ok r \<and> r_shape r = shape \<and> r_batch_size r = n \<and> r_pending r = None"
proof -
  have "job_bytes shape = 4096 * segment_blocks shape" using assms(2) by (intro job_bytes_one_lane) (simp add: shape_ok_def)
  then show ?thesis using assms
    by (auto simp: runner_new_def gbind_Inr gret_def gfail_def Let_def driver_ok_def runner_ok_def
        INPUT_BLOCKS_PER_JOB_def ARGON2_BLOCK_SIZE_def split: if_splits)
qed

lemma runner_new_runner: "runner_new d shape n g = (x, g') \<Longrightarrow> g_runner g' = g_runner g"
  by (auto simp: runner_new_def Let_def gfail_def gret_def gbind_def dest!: gcall_runner gcalls_runner
      split: if_splits prod.splits sum.splits)

lemma reconfigure_ok:
  "runner_ok r \<Longrightarrow> can_reuse r shape n \<Longrightarrow> shape_ok shape \<Longrightarrow> runner_ok (reconfigure shape n r)"
  by (auto simp: runner_ok_def reconfigure_def can_reuse_def)

lemma init_cases:
  assumes "driver_ok d" "shape_ok shape" "gpu_ok g"
  shows "(\<exists>r. backend_init d shape n g = (Inr (), snd (backend_init d shape n g)) \<and> g_runner (snd (backend_init d shape n g)) = Some r
      \<and> runner_ok r \<and> r_shape r = shape \<and> r_batch_size r = n \<and> r_pending r = None)
    \<or> (\<exists>e. fst (backend_init d shape n g) = Inl e \<and> g_runner (snd (backend_init d shape n g)) = None)"
proof (cases "\<exists>r. g_runner g = Some r \<and> can_reuse r shape n")
  case True
  then obtain r where r: "g_runner g = Some r" "can_reuse r shape n" by blast
  then have "runner_ok (reconfigure shape n r)" using assms by (auto simp: gpu_ok_def intro: reconfigure_ok)
  then show ?thesis using r by (simp add: backend_init_def put_runner_def) (simp add: reconfigure_def)
next
  case False
  let ?g = "g\<lparr> g_runner := None \<rparr>"
  have i: "backend_init d shape n g = gbind (runner_new d shape n) put_runner ?g"
    using False by (auto simp: backend_init_def split: option.splits)
  show ?thesis
  proof (cases "runner_new d shape n ?g")
    case (Pair x g1)
    then have "g_runner g1 = None" using runner_new_runner by fastforce
    then show ?thesis using Pair runner_new_ok[OF assms(1,2), of n ?g]
      by (cases x) (auto simp: i gbind_def put_runner_def)
  qed
qed

lemma init_keeps: "driver_ok d \<Longrightarrow> shape_ok shape \<Longrightarrow> keeps gpu_ok (backend_init d shape n)"
  using init_cases[of d shape _ n] unfolding keeps_def by (fastforce simp: gpu_ok_def pending_ok_def)

lemma init_ok:
  assumes "driver_ok d" "shape_ok shape" "gpu_ok g" "backend_init d shape n g = (Inr (), g')"
  shows "\<exists>r. g_runner g' = Some r \<and> runner_ok r \<and> r_shape r = shape \<and> r_batch_size r = n \<and> r_pending r = None"
  using init_cases[OF assms(1-3), of n] assms(4) by simp

subsection \<open>What a successful run establishes\<close>

text \<open>Partial correctness in the style of Hoare: when \<open>m\<close> succeeds from a state with \<open>P\<close>, its value and
  the new state satisfy \<open>Q\<close>.  \<open>pool R\<close>: there is a pool and it satisfies \<open>R\<close>.\<close>

definition ensures :: "(gpu \<Rightarrow> bool) \<Rightarrow> 'a gm \<Rightarrow> ('a \<Rightarrow> gpu \<Rightarrow> bool) \<Rightarrow> bool" where
  "ensures P m Q \<longleftrightarrow> (\<forall>g a g'. P g \<longrightarrow> m g = (Inr a, g') \<longrightarrow> Q a g')"

definition pool :: "(kernel_runner \<Rightarrow> bool) \<Rightarrow> gpu \<Rightarrow> bool" where
  "pool R g \<longleftrightarrow> (\<exists>r. g_runner g = Some r \<and> R r)"

lemma pool_mono: "pool R g \<Longrightarrow> (\<And>r. R r \<Longrightarrow> R' r) \<Longrightarrow> pool R' g"
  by (auto simp: pool_def)

lemma ensures_bind: "ensures P m Q \<Longrightarrow> (\<And>a. ensures (Q a) (f a) S) \<Longrightarrow> ensures P (gbind m f) S"
  unfolding ensures_def gbind_Inr by blast

lemma ensures_weaken: "ensures P m Q \<Longrightarrow> (\<And>g. P' g \<Longrightarrow> P g) \<Longrightarrow> (\<And>a g. Q a g \<Longrightarrow> Q' a g) \<Longrightarrow> ensures P' m Q'"
  unfolding ensures_def by blast

lemma keeps_ensures: "keeps I m \<Longrightarrow> ensures I m (\<lambda>_. I)"
  unfolding keeps_def ensures_def by (metis snd_conv)

lemma ensures_pre: "ensures (pool R) m Q \<Longrightarrow> (\<And>r. R' r \<Longrightarrow> R r) \<Longrightarrow> ensures (pool R') m Q"
  unfolding ensures_def pool_def by blast

lemma ensures_pure: "(b \<Longrightarrow> ensures (pool R) m Q) \<Longrightarrow> ensures (pool (\<lambda>r. b \<and> R r)) m Q"
  unfolding ensures_def pool_def by blast

lemma ensures_if: "(c \<Longrightarrow> ensures P m Q) \<Longrightarrow> (\<not> c \<Longrightarrow> ensures P m' Q) \<Longrightarrow> ensures P (if c then m else m') Q"
  by simp

lemma ensures_case:
  "(x = None \<Longrightarrow> ensures P m Q) \<Longrightarrow> (\<And>y. x = Some y \<Longrightarrow> ensures P (f y) Q) \<Longrightarrow>
   ensures P (case x of None \<Rightarrow> m | Some y \<Rightarrow> f y) Q"
  by (cases x) simp_all

lemma ensures_fail: "ensures P (gfail e) Q"
  by (simp add: ensures_def gfail_def)

lemma ensures_ret: "(\<And>g. P g \<Longrightarrow> Q a g) \<Longrightarrow> ensures P (gret a) Q"
  by (simp add: ensures_def gret_def)

lemma ensures_ret_pool: "(\<And>r. R r \<Longrightarrow> R' a r) \<Longrightarrow> ensures (pool R) (gret a) (\<lambda>x. pool (R' x))"
  by (rule ensures_ret) (rule pool_mono)

lemma ensures_call: "ensures (pool R) (gcall d) (\<lambda>_. pool R)"
  by (auto simp: ensures_def pool_def dest: gcall_runner)

lemma ensures_calls: "ensures (pool R) (gcalls d n) (\<lambda>_. pool R)"
  by (auto simp: ensures_def pool_def dest: gcalls_runner)

lemma ensures_mut: "ensures (pool R) runner_mut (\<lambda>r. pool (\<lambda>r'. r' = r \<and> R r))"
  by (auto simp: ensures_def pool_def runner_mut_Inr)

lemma ensures_put: "ensures P (put_runner r) (\<lambda>_. pool (\<lambda>r'. r' = r))"
  by (auto simp: ensures_def pool_def put_runner_def)

lemma ensures_upd: "(\<And>r. R r \<Longrightarrow> R' (f r)) \<Longrightarrow> ensures (pool R) (upd_runner f) (\<lambda>_. pool R')"
  by (auto simp: ensures_def pool_def upd_runner_Inr)

lemma ensures_upd_strongest: "ensures (pool R) (upd_runner f) (\<lambda>_. pool (\<lambda>r'. \<exists>r. R r \<and> r' = f r))"
  by (rule ensures_upd) blast

lemma ensures_grow: "driver_ok d \<Longrightarrow> ensures (pool R) (grow d n b) (\<lambda>x. pool (\<lambda>r. R r \<and> n \<le> length x))"
  by (auto simp: ensures_def pool_def grow_def gbind_Inr gret_def driver_ok_def dest: gcall_runner split: option.splits if_splits)

lemma ensures_copy: "ensures (pool R) (copy_from_host d src b) (\<lambda>x. pool (\<lambda>r. R r \<and> take (length src) x = src))"
  by (auto simp: ensures_def pool_def copy_from_host_def gbind_Inr gret_def gfail_def buf_write_def
      dest: gcall_runner split: if_splits)

definition pool_for :: "argon2_shape \<Rightarrow> nat \<Rightarrow> kernel_runner \<Rightarrow> bool" where
  "pool_for shape n r \<longleftrightarrow> runner_ok r \<and> r_shape r = shape \<and> r_batch_size r = n"

lemma pool_for_updates [simp]:
  "pool_for shape n (r\<lparr> r_keys := k \<rparr>) = pool_for shape n r"
  "pool_for shape n (r\<lparr> r_salt := k \<rparr>) = pool_for shape n r"
  "pool_for shape n (r\<lparr> r_pending := p \<rparr>) = pool_for shape n r"
  "pool_for shape n (r\<lparr> r_last_used_device := b \<rparr>) = pool_for shape n r"
  "length m = length (r_memory r) \<Longrightarrow> pool_for shape n (r\<lparr> r_memory := m \<rparr>) = pool_for shape n r"
  "length m = length (r_blocks_in r) \<Longrightarrow> pool_for shape n (r\<lparr> r_blocks_in := m \<rparr>) = pool_for shape n r"
  "length m = length (r_blocks_out r) \<Longrightarrow> pool_for shape n (r\<lparr> r_blocks_out := m \<rparr>) = pool_for shape n r"
  by (simp_all add: pool_for_def runner_ok_def)

lemma init_ensures:
  "driver_ok d \<Longrightarrow> shape_ok shape \<Longrightarrow>
   ensures gpu_ok (backend_init d shape n) (\<lambda>_. pool (\<lambda>r. pool_for shape n r \<and> r_pending r = None))"
  unfolding ensures_def pool_def pool_for_def using init_ok by (metis (full_types) old.unit.exhaust)

text \<open>The keys and the salt are on the device, back to back and whole, and the next run will use them.\<close>

definition on_device :: "bytes list \<Rightarrow> bytes \<Rightarrow> nat \<Rightarrow> kernel_runner \<Rightarrow> bool" where
  "on_device passwords salt kl r \<longleftrightarrow>
     (\<exists>keys salt_buffer.
        r_keys r = Some keys \<and> take (length (concat passwords)) keys = concat passwords
        \<and> r_salt r = Some salt_buffer \<and> take (length salt) salt_buffer = salt
        \<and> list_all (\<lambda>x. length x = kl) passwords \<and> kl < 2 ^ 32 \<and> length salt < 2 ^ 32
        \<and> length passwords = r_batch_size r)"

definition staged :: "bytes list \<Rightarrow> bytes \<Rightarrow> argon2_shape \<Rightarrow> kernel_runner \<Rightarrow> bool" where
  "staged passwords salt shape r \<longleftrightarrow>
     (\<exists>kl. on_device passwords salt kl r
        \<and> r_pending r = Some \<lparr> fc_key_length = kl, fc_salt_length = length salt, fc_shape = shape \<rparr>)"

lemma prepare_ensures:
  assumes d: "driver_ok d"
  shows "ensures (pool (pool_for shape n)) (prepare_input_blocks_on_device d passwords salt shape')
    (\<lambda>ok. pool (\<lambda>r. pool_for shape n r \<and> (ok \<longrightarrow> staged passwords salt shape' r)))"
  unfolding prepare_input_blocks_on_device_def Let_def
  by (rule ensures_bind ensures_if ensures_mut ensures_upd_strongest ensures_grow[OF d] ensures_copy ensures_ret_pool
      | (elim exE conjE, simp add: staged_def on_device_def; fail))+

text \<open>\<open>primed F\<close>: job \<open>j\<close> of the pool starts from the 2 KiB \<open>F j\<close>; \<open>solved F\<close>: its lane ends with what
  RFC 9106 chains from them.\<close>

definition primed :: "(nat \<Rightarrow> bytes) \<Rightarrow> kernel_runner \<Rightarrow> bool" where
  "primed F r \<longleftrightarrow> (\<forall>j < r_batch_size r.
     take 2048 (drop (j * (4096 * segment_blocks (r_shape r))) (r_memory r)) = F j)"

definition solved :: "(nat \<Rightarrow> bytes) \<Rightarrow> kernel_runner \<Rightarrow> bool" where
  "solved F r \<longleftrightarrow> (\<forall>j < r_batch_size r.
     take 1024 (drop (j * (4096 * segment_blocks (r_shape r)) + (4096 * segment_blocks (r_shape r) - 1024)) (r_memory r))
     = last_block (segment_blocks (r_shape r)) (F j))"

lemma slot_of_concat: "\<forall>x\<in>set xs. length x = n \<Longrightarrow> k < length xs \<Longrightarrow> slot_at n k (concat xs) = xs ! k"
proof (induction xs arbitrary: k)
  case (Cons x xs)
  then show ?case by (cases k) (simp_all add: algebra_simps)
qed simp

lemma key_of_concat:
  assumes "list_all (\<lambda>x. length x = kl) passwords" "take (length (concat passwords)) keys = concat passwords" "j < length passwords"
  shows "take kl (drop (j * kl) keys) = passwords ! j"
proof -
  have all: "\<forall>x\<in>set passwords. length x = kl" using assms(1) by (simp add: list_all_iff)
  then have l: "length (concat passwords) = length passwords * kl" using length_concat_const[of passwords id kl] by simp
  have e: "j * kl + kl \<le> length passwords * kl" by (rule slot_end[OF assms(3)])
  have "take kl (drop (j * kl) keys) = take kl (drop (j * kl) (take (length (concat passwords)) keys))"
    using e l by (simp add: drop_take min_def)
  also have "\<dots> = passwords ! j" unfolding assms(2)
    by (rule slot_of_concat[OF all assms(3)])
  finally show ?thesis .
qed

lemma grid_covers: "n \<le> (n + 127) div 128 * (128::nat)"
proof -
  have "(n + 127) mod 128 \<le> 127" using mod_less_divisor[of 128 "n + 127"] by simp
  moreover have "(n + 127) div 128 * 128 + (n + 127) mod 128 = n + 127" by (rule div_mult_mod_eq)
  ultimately show ?thesis by linarith
qed

lemma pool_room:
  assumes "pool_for shape n r"
  shows "n * (4096 * segment_blocks shape) \<le> length (r_memory r)"
  using assms by (auto simp: pool_for_def runner_ok_def)

lemma first_blocks_step:
  fixes config salt keys k
  assumes d: "driver_ok d" and r: "pool_for shape n r" and c: "fc_key_length config < 2 ^ 32" "length salt < 2 ^ 32"
  defines "m \<equiv> argon2_first_blocks_kernel (first_blocks_params config r) keys salt
    (dr_items d k (first_blocks_grid r) THREADS_PER_BLOCK) (r_memory r)"
  shows "length m = length (r_memory r)"
    and "j < n \<Longrightarrow> take 2048 (drop (j * (4096 * segment_blocks shape)) m)
      = job_first_blocks (first_blocks_params config r) keys salt j"
proof -
  let ?p = "first_blocks_params config r"
  define items where "items = dr_items d k (first_blocks_grid r) THREADS_PER_BLOCK"
  have p: "k_batch_size ?p = n" "k_segment_blocks ?p = segment_blocks shape" "k_threads_per_block ?p = 128"
    "k_key_length ?p = fc_key_length config" "first_blocks_grid r = (n + 127) div 128"
    using r by (auto simp: first_blocks_params_def first_blocks_grid_def pool_for_def THREADS_PER_BLOCK_def add.commute)
  have seg: "0 < k_segment_blocks ?p" "4 * k_segment_blocks ?p < 2 ^ 32" "k_key_length ?p < 2 ^ 32"
    using r p c by (auto simp: pool_for_def runner_ok_def shape_ok_def)
  have room: "k_batch_size ?p * (4096 * k_segment_blocks ?p) \<le> length (r_memory r)" using pool_room[OF r] p by simp
  have it: "set items = {0..<(n + 127) div 128} \<times> {0..<k_threads_per_block ?p}"
    using d p by (simp add: driver_ok_def items_def THREADS_PER_BLOCK_def)
  have cover: "k_batch_size ?p \<le> (n + 127) div 128 * k_threads_per_block ?p"
    using grid_covers[of n] p by simp
  note f = first_blocks_slots[OF seg c(2) room it cover, where keys = keys, folded m_def[folded items_def]]
  show "length m = length (r_memory r)" by (rule f(1))
  show "j < n \<Longrightarrow> take 2048 (drop (j * (4096 * segment_blocks shape)) m) = job_first_blocks ?p keys salt j"
    using f(2)[of j] p by simp
qed

lemma launch_first_ensures:
  assumes d: "driver_ok d"
  shows "ensures (pool (\<lambda>r. pool_for shape n r \<and> on_device passwords salt kl r))
    (launch_first_blocks d \<lparr> fc_key_length = kl, fc_salt_length = length salt, fc_shape = shape \<rparr>)
    (\<lambda>_. pool (\<lambda>r. pool_for shape n r \<and> primed (\<lambda>j. first_blocks (shape_h0 (passwords ! j) salt shape)) r))"
proof -
  let ?c = "\<lparr> fc_key_length = kl, fc_salt_length = length salt, fc_shape = shape \<rparr>"
  have step: "pool_for shape n r' \<and> primed (\<lambda>j. first_blocks (shape_h0 (passwords ! j) salt shape)) r'"
    if r: "pool_for shape n r" "on_device passwords salt kl r" "r_keys r = Some keys" "r_salt r = Some salt_buffer"
      and r': "r' = r\<lparr> r_memory := argon2_first_blocks_kernel (first_blocks_params ?c r) keys (take (length salt) salt_buffer)
         (dr_items d k (first_blocks_grid r) THREADS_PER_BLOCK) (r_memory r) \<rparr>"
    for r r' keys salt_buffer k
  proof -
    have salt: "take (length salt) salt_buffer = salt" "length salt < 2 ^ 32" "kl < 2 ^ 32" "length passwords = n"
      and keys: "list_all (\<lambda>x. length x = kl) passwords" "take (length (concat passwords)) keys = concat passwords"
      using r by (auto simp: on_device_def pool_for_def)
    note f = first_blocks_step[OF d r(1), of ?c salt, unfolded first_block_config.simps, OF salt(3,2)]
    have "job_first_blocks (first_blocks_params ?c r) keys salt j = first_blocks (shape_h0 (passwords ! j) salt shape)"
      if "j < n" for j
      using key_of_concat[OF keys, of j] that salt(4) by (simp add: job_first_blocks_def shape_h0_def first_blocks_params_def)
    then show ?thesis using r(1) f salt(1) by (simp add: r') (simp add: primed_def pool_for_def)
  qed
  show ?thesis
    unfolding launch_first_blocks_def first_block_config.simps
    by (rule ensures_bind ensures_mut ensures_case ensures_call ensures_if ensures_fail ensures_upd
        | (elim conjE, rule step; simp))+
qed

lemma memcpy_2d_ok:
  assumes "0 < dp" "w \<le> dp" "h * dp \<le> length dst" "\<And>j. j < h \<Longrightarrow> j * sp + w \<le> length src"
  shows "length (memcpy_2d dp sp w h src dst) = length dst"
    and "j < h \<Longrightarrow> take w (drop (j * dp) (memcpy_2d dp sp w h src dst)) = take w (drop (j * sp) src)"
proof -
  define F where "F j = (if j < h then take w (drop (j * sp) src) else replicate w 0)" for j
  have lF: "length (F j) = w" for j using assms(4)[of j] by (cases "j < h") (simp_all add: F_def)
  have m: "memcpy_2d dp sp w h src dst = fold (\<lambda>j. buf_write (j * dp) (F j)) [0..<h] dst"
    unfolding memcpy_2d_def by (intro fold_cong) (auto simp: F_def)
  show "length (memcpy_2d dp sp w h src dst) = length dst"
    unfolding m using fold_slot_writes[OF assms(1-3), of "[0..<h]" F] lF by auto
  show "j < h \<Longrightarrow> take w (drop (j * dp) (memcpy_2d dp sp w h src dst)) = take w (drop (j * sp) src)"
    unfolding m using fold_slot_at[OF assms(1-3), of "[0..<h]" F j] lF by (simp add: F_def)
qed

lemma pool_for_facts:
  assumes "pool_for shape n r"
  shows "0 < n" "sh_lanes shape = 1" "2 \<le> segment_blocks shape" "4 * segment_blocks shape < 2 ^ 32"
    "r_shape r = shape" "r_batch_size r = n" "job_bytes shape = 4096 * segment_blocks shape"
    "length (r_blocks_in r) = n * 2048" "length (r_blocks_out r) = n * 1024" "8 dvd length (r_memory r)"
  using assms job_bytes_one_lane[of shape] by (auto simp: pool_for_def runner_ok_def shape_ok_def)

lemma copy_in:
  assumes r: "pool_for shape n r"
  defines "r' \<equiv> r\<lparr> r_memory := memcpy_2d (job_bytes (r_shape r)) 2048 2048 (r_batch_size r) (r_blocks_in r) (r_memory r) \<rparr>"
  shows "pool_for shape n r'" and "primed (\<lambda>j. slot_at 2048 j (r_blocks_in r)) r'"
proof -
  note p = pool_for_facts[OF r]
  have "j * 2048 + 2048 \<le> length (r_blocks_in r)" if "j < n" for j using slot_end[OF that, of 2048] p(8) by simp
  then have "length (r_memory r') = length (r_memory r)"
    "\<And>j. j < n \<Longrightarrow> take 2048 (drop (j * (4096 * segment_blocks shape)) (r_memory r')) = slot_at 2048 j (r_blocks_in r)"
    using memcpy_2d_ok[of "4096 * segment_blocks shape" 2048 n "r_memory r" 2048 "r_blocks_in r"] p pool_room[OF r]
    by (simp_all add: r'_def)
  then show "pool_for shape n r'" "primed (\<lambda>j. slot_at 2048 j (r_blocks_in r)) r'"
    using r p by (simp_all add: r'_def primed_def)
qed

lemma copy_input_ensures:
  "ensures (pool (\<lambda>r. pool_for shape n r \<and> r_blocks_in r = B)) (copy_input_blocks d)
     (\<lambda>_. pool (\<lambda>r. pool_for shape n r \<and> primed (\<lambda>j. slot_at 2048 j B) r))"
  unfolding copy_input_blocks_def Let_def INPUT_BLOCKS_PER_JOB_def ARGON2_BLOCK_SIZE_def
  by (intro ensures_bind[OF ensures_call] ensures_upd) (elim conjE, hypsubst, simp add: copy_in)

lemma oneshot_step:
  fixes k
  assumes d: "driver_ok d" and r: "pool_for shape n r"
  defines "r' \<equiv> r\<lparr> r_memory :=
    bytes_of_words (oneshot_launch (segment_blocks (r_shape r)) (dr_jobs d k (r_batch_size r)) (words_of_bytes (r_memory r))) \<rparr>"
  shows "pool_for shape n r'" and "primed F r \<Longrightarrow> solved F r'"
proof -
  note p = pool_for_facts[OF r] and room = pool_room[OF r]
  have j: "distinct (dr_jobs d k n)" "set (dr_jobs d k n) = {..<n}" using d by (simp_all add: driver_ok_def)
  have "n * (512 * segment_blocks shape) * 8 \<le> length (r_memory r)" using room by simp
  then have "n * (512 * segment_blocks shape) \<le> length (words_of_bytes (r_memory r))"
    by (simp only: length_words less_eq_div_iff_mult_less_eq)
  then have "length (r_memory r') = length (r_memory r)" using launch_lanes(1)[OF p(3,4) _ j] p(5,6,10) by (simp add: r'_def)
  then show "pool_for shape n r'" using r by (simp add: r'_def)
  assume "primed F r"
  then have "take 1024 (drop (i * (4096 * segment_blocks shape) + (4096 * segment_blocks shape - 1024)) (r_memory r'))
      = last_block (segment_blocks shape) (F i)" if "i < n" for i
    using oneshot_last_block[OF p(3,4) room j that] p(5,6) that by (simp add: primed_def r'_def)
  then show "solved F r'" using p by (simp add: solved_def r'_def)
qed

lemma launch_oneshot_ensures:
  assumes d: "driver_ok d"
  shows "ensures (pool (\<lambda>r. pool_for shape n r \<and> primed F r)) (launch_oneshot d)
     (\<lambda>_. pool (\<lambda>r. pool_for shape n r \<and> solved F r))"
  unfolding launch_oneshot_def
  by (rule ensures_bind ensures_mut ensures_call ensures_if ensures_fail ensures_upd
      | (elim conjE, simp only:, intro conjI oneshot_step[OF d]; assumption))+

lemma length_last_block: "2 \<le> seg \<Longrightarrow> length fb = 2048 \<Longrightarrow> length (last_block seg fb) = 1024"
proof -
  assume a: "2 \<le> seg" "length fb = 2048"
  let ?B = "[words_of_bytes (take 1024 fb), words_of_bytes (take 1024 (drop 1024 fb))]"
  have B: "\<forall>b\<in>set ?B. length b = 128" using a by simp
  have "length (fill_blocks seg (4 * seg - 2) ?B) = 4 * seg" using a by simp
  then have "fill_blocks seg (4 * seg - 2) ?B \<noteq> []" using a by (metis list.size(3) mult_is_0 not_numeral_le_zero numeral_neq_zero)
  then have "last (fill_blocks seg (4 * seg - 2) ?B) \<in> set (fill_blocks seg (4 * seg - 2) ?B)" by (rule last_in_set)
  then have "length (last (fill_blocks seg (4 * seg - 2) ?B)) = 128" using fill_blocks_lengths[OF B] by simp
  then show ?thesis by (simp add: last_block_def)
qed

lemma copy_out:
  assumes r: "pool_for shape n r"
  defines "m \<equiv> memcpy_2d (sh_lanes (r_shape r) * 1024) (job_bytes (r_shape r)) (sh_lanes (r_shape r) * 1024) (r_batch_size r)
        (drop (job_bytes (r_shape r) - sh_lanes (r_shape r) * 1024) (r_memory r)) (r_blocks_out r)"
  shows "length m = length (r_blocks_out r)"
    and "solved F r \<Longrightarrow> m = concat (map (\<lambda>j. last_block (segment_blocks shape) (F j)) [0..<n])"
proof -
  let ?S = "4096 * segment_blocks shape"
  note p = pool_for_facts[OF r] and room = pool_room[OF r]
  have m: "m = memcpy_2d 1024 ?S 1024 n (drop (?S - 1024) (r_memory r)) (r_blocks_out r)" using p by (simp add: m_def)
  have "j * ?S + 1024 \<le> length (drop (?S - 1024) (r_memory r))" if "j < n" for j
    using slot_end[OF that, of ?S] room p(3) by simp
  then have l: "length m = n * 1024" and s: "\<And>j. j < n \<Longrightarrow> slot_at 1024 j m = take 1024 (drop (j * ?S) (drop (?S - 1024) (r_memory r)))"
    using memcpy_2d_ok[of 1024 1024 n "r_blocks_out r" ?S] p m by simp_all
  show "length m = length (r_blocks_out r)" using l p(9) by simp
  assume "solved F r"
  then have "slot_at 1024 j m = last_block (segment_blocks shape) (F j)" if "j < n" for j
    using s[OF that] p(5,6) that by (simp add: solved_def add.commute)
  then show "m = concat (map (\<lambda>j. last_block (segment_blocks shape) (F j)) [0..<n])" by (rule slots_determine[OF l])
qed

lemma copy_output_ensures:
  "ensures (pool (\<lambda>r. pool_for shape n r \<and> solved F r)) (copy_output_blocks d)
     (\<lambda>_. pool (\<lambda>r. pool_for shape n r \<and> r_blocks_out r = concat (map (\<lambda>j. last_block (segment_blocks shape) (F j)) [0..<n])))"
  unfolding copy_output_blocks_def Let_def ARGON2_BLOCK_SIZE_def
  by (intro ensures_bind[OF ensures_call] ensures_upd) (auto simp: copy_out(1) dest: copy_out(2))

text \<open>One queued batch, either way its first blocks were staged.\<close>

lemma ensures_each: "(\<And>r0. R r0 \<Longrightarrow> ensures (pool (\<lambda>r. r = r0)) m Q) \<Longrightarrow> ensures (pool R) m Q"
  unfolding ensures_def pool_def by blast

lemma ensures_bind_mut: "ensures (pool (\<lambda>r. r = r0)) (f r0) Q \<Longrightarrow> ensures (pool (\<lambda>r. r = r0)) (gbind runner_mut f) Q"
  unfolding ensures_def pool_def gbind_Inr runner_mut_Inr by force

lemma run_tail_ensures:
  assumes d: "driver_ok d"
  shows "ensures (pool (\<lambda>r. pool_for shape n r \<and> primed F r))
    (gbind (gcalls d 1) (\<lambda>_. gbind (launch_oneshot d) (\<lambda>_. gbind (gcalls d 1) (\<lambda>_. gbind (copy_output_blocks d) (\<lambda>_. gcalls d 1)))))
    (\<lambda>_. pool (\<lambda>r. pool_for shape n r \<and> r_blocks_out r = concat (map (\<lambda>j. last_block (segment_blocks shape) (F j)) [0..<n])))"
  by (rule ensures_bind[OF ensures_calls] ensures_bind[OF launch_oneshot_ensures[OF d]] ensures_bind[OF copy_output_ensures] ensures_calls)+

lemma take_pending_ensures:
  "ensures (pool (\<lambda>r. r = r0)) (upd_runner (\<lambda>r. r\<lparr> r_pending := None, r_last_used_device := b \<rparr>))
     (\<lambda>_. pool (\<lambda>r. r = r0\<lparr> r_pending := None, r_last_used_device := b \<rparr>))"
  by (rule ensures_upd) simp

lemma first_blocks_stage:
  assumes d: "driver_ok d"
  shows "ensures (pool (\<lambda>r. pool_for shape n r \<and> on_device passwords salt kl r))
      (gbind (gcalls d 2) (\<lambda>_. gbind (launch_first_blocks d \<lparr> fc_key_length = kl, fc_salt_length = length salt, fc_shape = shape \<rparr>)
        (\<lambda>_. gcalls d 1)))
      (\<lambda>_. pool (\<lambda>r. pool_for shape n r \<and> primed (\<lambda>j. first_blocks (shape_h0 (passwords ! j) salt shape)) r))"
  by (rule ensures_bind[OF ensures_calls] ensures_bind[OF launch_first_ensures[OF d]] ensures_calls)+

lemma host_stage:
  "ensures (pool (\<lambda>r. pool_for shape n r \<and> r_blocks_in r = B)) (gbind (copy_input_blocks d) (\<lambda>_. gcalls d 3))
      (\<lambda>_. pool (\<lambda>r. pool_for shape n r \<and> primed (\<lambda>j. slot_at 2048 j B) r))"
  by (rule ensures_bind[OF copy_input_ensures] ensures_calls)+

lemma run_device_ensures:
  assumes d: "driver_ok d"
  shows "ensures (pool (\<lambda>r. pool_for shape n r \<and> staged passwords salt shape r)) (runner_run d)
    (\<lambda>_. pool (\<lambda>r. pool_for shape n r \<and> r_blocks_out r
       = concat (map (\<lambda>j. last_block (segment_blocks shape) (first_blocks (shape_h0 (passwords ! j) salt shape))) [0..<n])))"
proof (rule ensures_each)
  fix r0 assume "pool_for shape n r0 \<and> staged passwords salt shape r0"
  then obtain kl where r0: "pool_for shape n r0" "on_device passwords salt kl r0"
    "r_pending r0 = Some \<lparr> fc_key_length = kl, fc_salt_length = length salt, fc_shape = shape \<rparr>"
    by (auto simp: staged_def)
  have dev: "on_device passwords salt kl (r0\<lparr> r_pending := None, r_last_used_device := b \<rparr>)" for b
    using r0(2) by (simp add: on_device_def)
  show "ensures (pool (\<lambda>r. r = r0)) (runner_run d) (\<lambda>_. pool (\<lambda>r. pool_for shape n r \<and> r_blocks_out r
       = concat (map (\<lambda>j. last_block (segment_blocks shape) (first_blocks (shape_h0 (passwords ! j) salt shape))) [0..<n])))"
    unfolding runner_run_def Let_def
    apply (rule ensures_bind[OF ensures_calls], rule ensures_bind_mut, rule ensures_bind[OF take_pending_ensures])
    apply (unfold r0(3) option.case)
    by (rule ensures_bind[OF ensures_pre[OF first_blocks_stage[OF d, of shape n passwords salt kl]]], use r0(1) dev in simp, rule run_tail_ensures[OF d])
qed

lemma run_host_ensures:
  assumes d: "driver_ok d"
  shows "ensures (pool (\<lambda>r. pool_for shape n r \<and> r_pending r = None \<and> r_blocks_in r = B)) (runner_run d)
    (\<lambda>_. pool (\<lambda>r. pool_for shape n r \<and> r_blocks_out r
       = concat (map (\<lambda>j. last_block (segment_blocks shape) (slot_at 2048 j B)) [0..<n])))"
proof (rule ensures_each)
  fix r0 assume r0: "pool_for shape n r0 \<and> r_pending r0 = None \<and> r_blocks_in r0 = B"
  then have pend: "r_pending r0 = None" by simp
  show "ensures (pool (\<lambda>r. r = r0)) (runner_run d) (\<lambda>_. pool (\<lambda>r. pool_for shape n r \<and> r_blocks_out r
       = concat (map (\<lambda>j. last_block (segment_blocks shape) (slot_at 2048 j B)) [0..<n])))"
    unfolding runner_run_def Let_def
    apply (rule ensures_bind[OF ensures_calls], rule ensures_bind_mut, rule ensures_bind[OF take_pending_ensures])
    apply (unfold pend option.case)
    by (rule ensures_bind[OF ensures_pre[OF host_stage[of shape n B]]], use r0 in simp, rule run_tail_ensures[OF d])
qed

lemma finish_ensures: "ensures (pool R) (runner_finish d) (\<lambda>_. pool R)"
  unfolding runner_finish_def
  by (rule ensures_bind[OF ensures_calls], rule ensures_each, rule ensures_bind_mut, rule ensures_weaken[OF ensures_calls],
      assumption, erule pool_mono) simp

text \<open>The invariant of the pool survives every operation, a failed one included.\<close>

lemma grow_keeps: "keeps gpu_ok (grow d n b)" "keeps gpu_ok (copy_from_host d src b')"
  by (auto simp: grow_def copy_from_host_def split: option.splits)

lemma runner_ok_updates [simp]:
  "runner_ok (r\<lparr> r_keys := k \<rparr>) = runner_ok r" "pending_ok (r\<lparr> r_keys := k \<rparr>) = pending_ok r"
  "runner_ok (r\<lparr> r_salt := k \<rparr>) = runner_ok r" "pending_ok (r\<lparr> r_salt := k \<rparr>) = pending_ok r"
  "runner_ok (r\<lparr> r_pending := p \<rparr>) = runner_ok r"
  "runner_ok (r\<lparr> r_last_used_device := b \<rparr>) = runner_ok r" "pending_ok (r\<lparr> r_last_used_device := b \<rparr>) = pending_ok r"
  "length m = length (r_memory r) \<Longrightarrow> runner_ok (r\<lparr> r_memory := m \<rparr>) = runner_ok r"
  "pending_ok (r\<lparr> r_memory := m \<rparr>) = pending_ok r"
  "length m = length (r_blocks_out r) \<Longrightarrow> runner_ok (r\<lparr> r_blocks_out := m \<rparr>) = runner_ok r"
  "pending_ok (r\<lparr> r_blocks_out := m \<rparr>) = pending_ok r"
  "length m = length (r_blocks_in r) \<Longrightarrow> runner_ok (r\<lparr> r_blocks_in := m \<rparr>) = runner_ok r"
  "pending_ok (r\<lparr> r_blocks_in := m \<rparr>) = pending_ok r"
  "pending_ok (r\<lparr> r_pending := None \<rparr>)"
  by (simp_all add: runner_ok_def pending_ok_def)

lemma prepare_keeps: "keeps gpu_ok (prepare_input_blocks_on_device d passwords salt shape)"
  unfolding prepare_input_blocks_on_device_def Let_def
  by (rule keeps_bind_mut keeps_bind keep_if keeps_basic keeps_upd grow_keeps | simp add: pending_ok_def; fail)+

lemma ok_pool_for: "runner_ok r \<Longrightarrow> pool_for (r_shape r) (r_batch_size r) r"
  by (simp add: pool_for_def)

lemma copies_keep: "keeps gpu_ok (copy_input_blocks d)" "keeps gpu_ok (copy_output_blocks d)"
  unfolding copy_input_blocks_def copy_output_blocks_def Let_def INPUT_BLOCKS_PER_JOB_def ARGON2_BLOCK_SIZE_def
  by (rule keeps_bind keeps_basic keeps_upd
      | (use copy_in(1)[OF ok_pool_for] in \<open>simp add: pool_for_def copy_out(1)[OF ok_pool_for]; fail\<close>))+

lemma oneshot_ok:
  "driver_ok d \<Longrightarrow> runner_ok r \<Longrightarrow> runner_ok (r\<lparr> r_memory := bytes_of_words (oneshot_launch (segment_blocks (r_shape r))
     (dr_jobs d k (r_batch_size r)) (words_of_bytes (r_memory r))) \<rparr>)"
  using oneshot_step(1)[of d, OF _ ok_pool_for] by (simp only: pool_for_def)

lemma first_blocks_ok:
  "driver_ok d \<Longrightarrow> runner_ok r \<Longrightarrow> fc_key_length config < 2 ^ 32 \<Longrightarrow> length salt < 2 ^ 32 \<Longrightarrow>
   runner_ok (r\<lparr> r_memory := argon2_first_blocks_kernel (first_blocks_params config r) keys salt
     (dr_items d k (first_blocks_grid r) THREADS_PER_BLOCK) (r_memory r) \<rparr>)"
  using first_blocks_step(1)[of d, OF _ ok_pool_for] by simp

lemma launches_keep:
  assumes d: "driver_ok d"
  shows "keeps gpu_ok (launch_oneshot d)"
    and "fc_key_length config < 2 ^ 32 \<Longrightarrow> fc_salt_length config < 2 ^ 32 \<Longrightarrow> keeps gpu_ok (launch_first_blocks d config)"
  unfolding launch_oneshot_def launch_first_blocks_def Let_def
  by (rule keeps_bind_mut keeps_bind keeps_basic keep_if keeps_case keeps_upd
      | (intro conjI oneshot_ok[OF d] first_blocks_ok[OF d]; simp))+

lemma run_keeps: "driver_ok d \<Longrightarrow> keeps gpu_ok (runner_run d)"
  unfolding runner_run_def Let_def
  by (rule keeps_bind_mut keeps_bind keep_calls keeps_case copies_keep launches_keep keeps_upd | simp add: pending_ok_def; fail)+

lemma finish_keeps: "keeps gpu_ok (runner_finish d)"
  unfolding runner_finish_def by (rule keeps_bind keep_calls keeps_basic)+

subsection \<open>When the driver does not fail\<close>

text \<open>\<open>succeeds P m\<close>: from a state with \<open>P\<close>, \<open>m\<close> returns a value and no error.\<close>

definition succeeds :: "(gpu \<Rightarrow> bool) \<Rightarrow> 'a gm \<Rightarrow> bool" where
  "succeeds P m \<longleftrightarrow> (\<forall>g. P g \<longrightarrow> (\<exists>a g'. m g = (Inr a, g')))"

definition no_failure :: "driver \<Rightarrow> bool" where
  "no_failure d \<longleftrightarrow> (\<forall>k. dr_fail d k = None)"

lemma succ_bind: "succeeds P m \<Longrightarrow> ensures P m Q \<Longrightarrow> (\<And>a. succeeds (Q a) (f a)) \<Longrightarrow> succeeds P (gbind m f)"
  unfolding succeeds_def ensures_def gbind_Inr by meson

lemma succ_basic:
  "succeeds P (gret a)" "succeeds (pool R) runner_mut" "succeeds P (upd_runner f)" "succeeds P (put_runner r)"
  "no_failure d \<Longrightarrow> succeeds P (gcall d)"
  by (auto simp: succeeds_def gret_def runner_mut_def pool_def upd_runner_def put_runner_def gcall_def no_failure_def Let_def)

lemma succ_calls: "no_failure d \<Longrightarrow> succeeds P (gcalls d n)"
proof (induction n arbitrary: P)
  case (Suc n)
  have "ensures P (gcall d) (\<lambda>_ _. True)" by (simp add: ensures_def)
  then show ?case using Suc by (auto intro!: succ_bind succ_basic)
qed (simp add: succ_basic)

lemma succ_if: "(c \<Longrightarrow> succeeds P m) \<Longrightarrow> (\<not> c \<Longrightarrow> succeeds P m') \<Longrightarrow> succeeds P (if c then m else m')"
  by simp

lemma succ_case:
  "(x = None \<Longrightarrow> succeeds P m) \<Longrightarrow> (\<And>y. x = Some y \<Longrightarrow> succeeds P (f y)) \<Longrightarrow>
   succeeds P (case x of None \<Rightarrow> m | Some y \<Rightarrow> f y)"
  by (cases x) simp_all

lemma succ_each: "(\<And>r0. R r0 \<Longrightarrow> succeeds (pool (\<lambda>r. r = r0)) m) \<Longrightarrow> succeeds (pool R) m"
  unfolding succeeds_def pool_def by blast

lemma succ_bind_mut: "succeeds (pool (\<lambda>r. r = r0)) (f r0) \<Longrightarrow> succeeds (pool (\<lambda>r. r = r0)) (gbind runner_mut f)"
  unfolding succeeds_def pool_def gbind_Inr runner_mut_Inr by force

lemma succ_pure: "(b \<Longrightarrow> succeeds (pool R) m) \<Longrightarrow> succeeds (pool (\<lambda>r. b \<and> R r)) m"
  unfolding succeeds_def pool_def by blast

lemma succ_init:
  assumes nf: "no_failure d" and n: "n \<noteq> 0" "n * job_bytes shape < 2 ^ 64"
  shows "succeeds P (backend_init d shape n)"
proof -
  have new: "\<exists>r g'. runner_new d shape n g = (Inr r, g')" for g
  proof -
    have "ensures (\<lambda>_. True) (gcalls d 9) (\<lambda>_ _. True)" "ensures (\<lambda>_. True) (gcall d) (\<lambda>_ _. True)" by (simp_all add: ensures_def)
    then have "succeeds (\<lambda>_. True) (runner_new d shape n)" unfolding runner_new_def Let_def
      using n by (auto intro!: succ_bind succ_basic succ_calls nf)
    then show ?thesis by (simp add: succeeds_def)
  qed
  show ?thesis unfolding succeeds_def
  proof (intro allI impI)
    fix g assume "P g"
    show "\<exists>a g'. backend_init d shape n g = (Inr a, g')"
      using new[of "g\<lparr> g_runner := None \<rparr>"] by (auto simp: backend_init_def gbind_def put_runner_def split: option.splits)
  qed
qed

lemma succ_grow: "no_failure d \<Longrightarrow> succeeds P (grow d n b)"
  by (auto simp: succeeds_def grow_def gbind_def gret_def gcall_def no_failure_def Let_def split: option.splits)

lemma succ_copy: "no_failure d \<Longrightarrow> (\<And>r. R r \<Longrightarrow> length src \<le> length b) \<Longrightarrow> succeeds (pool R) (copy_from_host d src b)"
  by (fastforce simp: succeeds_def pool_def copy_from_host_def gbind_def gret_def gcall_def no_failure_def Let_def)

lemma prepare_succ:
  assumes d: "driver_ok d" and nf: "no_failure d"
  shows "succeeds (pool R) (prepare_input_blocks_on_device d passwords salt shape)"
  unfolding prepare_input_blocks_on_device_def Let_def
  by (rule succ_bind[OF succ_basic(2) ensures_mut] succ_bind[OF succ_basic(3) ensures_upd_strongest] succ_if succ_basic(1)
      succ_bind[OF succ_grow[OF nf] ensures_grow[OF d]] succ_bind[OF succ_copy[OF nf] ensures_copy] | (elim exE conjE, simp; fail))+

lemma prepare_true:
  assumes "passwords \<noteq> []" "sh_output_length shape = DEFAULT_HASH_LENGTH" "sh_passes shape = 1" "sh_lanes shape = 1"
    "salt \<noteq> []" "length salt < 2 ^ 32" "\<forall>x\<in>set passwords. length x = kl" "0 < kl" "kl < 2 ^ 32"
  shows "ensures (pool (\<lambda>r. r_batch_size r = length passwords)) (prepare_input_blocks_on_device d passwords salt shape) (\<lambda>ok _. ok)"
proof -
  have "length (hd passwords) = kl" "list_all (\<lambda>p. length p = kl) passwords" using assms by (auto simp: list_all_iff)
  then show ?thesis unfolding prepare_input_blocks_on_device_def Let_def ensures_def using assms
    by (auto simp: gbind_Inr runner_mut_Inr upd_runner_Inr pool_def gret_def)
qed

lemma launch_first_succ:
  assumes nf: "no_failure d"
  shows "succeeds (pool (\<lambda>r. r_batch_size r < 2 ^ 32 \<and> on_device passwords salt kl r)) (launch_first_blocks d config)"
proof (rule succ_each)
  fix r0 assume r0: "r_batch_size r0 < 2 ^ 32 \<and> on_device passwords salt kl r0"
  have "first_blocks_grid r0 < 2 ^ 32"
    using r0 div_le_dividend[of "r_batch_size r0 + 127" 128] by (simp add: first_blocks_grid_def THREADS_PER_BLOCK_def div_less_iff_less_mult)
  then show "succeeds (pool (\<lambda>r. r = r0)) (launch_first_blocks d config)"
    using r0 unfolding launch_first_blocks_def
    by (intro succ_bind_mut) (auto simp: on_device_def intro!: succ_bind[OF succ_basic(5)[OF nf] ensures_call] succ_basic)
qed

lemma launch_oneshot_succ:
  assumes nf: "no_failure d"
  shows "succeeds (pool (\<lambda>r. r_batch_size r < 2 ^ 32)) (launch_oneshot d)"
  unfolding launch_oneshot_def
  by (rule succ_each, rule succ_bind_mut) (auto intro!: succ_bind[OF succ_basic(5)[OF nf] ensures_call] succ_basic)

lemma copies_succ:
  assumes nf: "no_failure d"
  shows "succeeds (pool R) (copy_input_blocks d)" "succeeds (pool R) (copy_output_blocks d)"
  unfolding copy_input_blocks_def copy_output_blocks_def Let_def
  by (auto intro!: succ_bind[OF succ_basic(5)[OF nf] ensures_call] succ_basic)

lemma succ_pre: "succeeds (pool R) m \<Longrightarrow> (\<And>r. R' r \<Longrightarrow> R r) \<Longrightarrow> succeeds (pool R') m"
  unfolding succeeds_def pool_def by blast

lemma run_tail_succ:
  assumes d: "driver_ok d" and nf: "no_failure d" and n: "n < 2 ^ 32"
  shows "succeeds (pool (\<lambda>r. pool_for shape n r \<and> primed F r))
    (gbind (gcalls d 1) (\<lambda>_. gbind (launch_oneshot d) (\<lambda>_. gbind (gcalls d 1) (\<lambda>_. gbind (copy_output_blocks d) (\<lambda>_. gcalls d 1)))))"
proof -
  have o: "succeeds (pool (\<lambda>r. pool_for shape n r \<and> primed F r)) (launch_oneshot d)"
    using n by (intro succ_pre[OF launch_oneshot_succ[OF nf]]) (simp add: pool_for_def)
  show ?thesis
    by (rule succ_bind[OF succ_calls[OF nf] ensures_calls] succ_bind[OF o launch_oneshot_ensures[OF d]]
        succ_bind[OF copies_succ(2)[OF nf] copy_output_ensures] succ_calls[OF nf])+
qed

lemma run_device_succ:
  assumes d: "driver_ok d" and nf: "no_failure d" and n: "n < 2 ^ 32"
  shows "succeeds (pool (\<lambda>r. pool_for shape n r \<and> staged passwords salt shape r)) (runner_run d)"
proof (rule succ_each)
  fix r0 assume "pool_for shape n r0 \<and> staged passwords salt shape r0"
  then obtain kl where r0: "pool_for shape n r0" "on_device passwords salt kl r0"
    "r_pending r0 = Some \<lparr> fc_key_length = kl, fc_salt_length = length salt, fc_shape = shape \<rparr>"
    by (auto simp: staged_def)
  have dev: "on_device passwords salt kl (r0\<lparr> r_pending := None, r_last_used_device := b \<rparr>)" for b
    using r0(2) by (simp add: on_device_def)
  have l: "succeeds (pool (\<lambda>r. pool_for shape n r \<and> on_device passwords salt kl r)) (launch_first_blocks d config)" for config
    using n by (intro succ_pre[OF launch_first_succ[OF nf, of passwords salt kl]]) (simp add: pool_for_def)
  have stage: "succeeds (pool (\<lambda>r. pool_for shape n r \<and> on_device passwords salt kl r))
      (gbind (gcalls d 2) (\<lambda>_. gbind (launch_first_blocks d \<lparr> fc_key_length = kl, fc_salt_length = length salt, fc_shape = shape \<rparr>)
        (\<lambda>_. gcalls d 1)))"
    by (rule succ_bind[OF succ_calls[OF nf] ensures_calls] succ_bind[OF l launch_first_ensures[OF d]] succ_calls[OF nf])+
  show "succeeds (pool (\<lambda>r. r = r0)) (runner_run d)"
    unfolding runner_run_def Let_def
    apply (rule succ_bind[OF succ_calls[OF nf] ensures_calls], rule succ_bind_mut, rule succ_bind[OF succ_basic(3) take_pending_ensures])
    apply (unfold r0(3) option.case)
    by (rule succ_bind[OF succ_pre[OF stage] ensures_pre[OF first_blocks_stage[OF d, of shape n passwords salt kl]]], use r0(1) dev in simp, use r0(1) dev in simp,
        rule run_tail_succ[OF d nf n])
qed

lemma run_host_succ:
  assumes d: "driver_ok d" and nf: "no_failure d" and n: "n < 2 ^ 32"
  shows "succeeds (pool (\<lambda>r. pool_for shape n r \<and> r_pending r = None \<and> r_blocks_in r = B)) (runner_run d)"
proof (rule succ_each)
  fix r0 assume r0: "pool_for shape n r0 \<and> r_pending r0 = None \<and> r_blocks_in r0 = B"
  then have pend: "r_pending r0 = None" by simp
  have stage: "succeeds (pool (\<lambda>r. pool_for shape n r \<and> r_blocks_in r = B)) (gbind (copy_input_blocks d) (\<lambda>_. gcalls d 3))"
    by (rule succ_bind[OF copies_succ(1)[OF nf] copy_input_ensures] succ_calls[OF nf])+
  show "succeeds (pool (\<lambda>r. r = r0)) (runner_run d)"
    unfolding runner_run_def Let_def
    apply (rule succ_bind[OF succ_calls[OF nf] ensures_calls], rule succ_bind_mut, rule succ_bind[OF succ_basic(3) take_pending_ensures])
    apply (unfold pend option.case)
    by (rule succ_bind[OF succ_pre[OF stage] ensures_pre[OF host_stage[of shape n B]]], use r0 in simp, use r0 in simp, rule run_tail_succ[OF d nf n])
qed

lemma finish_succ: "no_failure d \<Longrightarrow> succeeds (pool R) (runner_finish d)"
  unfolding runner_finish_def
  by (rule succ_bind[OF succ_calls ensures_calls], assumption, rule succ_bind[OF succ_basic(2) ensures_mut], rule succ_calls)

end
