(* ===== verification/Gpu_Hash.thy ===== *)
theory Gpu_Hash
  imports Gpu_Runner
begin

text \<open>
  The GPU hash backend (\<^verbatim>\<open>tm-gpu/src/hash.rs\<close>): one batch from the request to the digests and
  the matches.  The host half of Argon2 is the interface \<open>argon2_host\<close>
  (\<^verbatim>\<open>tm-core/src/argon2host.rs\<close>, trait \<^verbatim>\<open>Argon2Host\<close>), which \<^verbatim>\<open>CpuArgon2Host\<close> implements.  Wall-clock
  timings are left out: nothing reads them back.
\<close>

subsection \<open>Requests and outcomes\<close>

record batch_request =
  br_passwords :: "string list"
  br_salt_hex :: string
  br_difficulty :: nat
  br_target_pattern :: string
  br_allow_xuni :: bool
  br_gpu_first_blocks :: bool
  br_collect_digests :: bool

definition batch_request_new :: "string list \<Rightarrow> string \<Rightarrow> nat \<Rightarrow> batch_request" where
  "batch_request_new passwords salt_hex difficulty =
     \<lparr> br_passwords = passwords, br_salt_hex = salt_hex, br_difficulty = difficulty, br_target_pattern = ''XEN11'',
       br_allow_xuni = True, br_gpu_first_blocks = False, br_collect_digests = False \<rparr>"

record gpu_match =
  gm_key :: string
  gm_hash :: string
  gm_matched_pattern :: string
  gm_attempt_index :: nat
  gm_is_superblock :: bool

record finalized =
  fz_matches :: "gpu_match list"
  fz_digests :: "string list"
  fz_hash :: "string option"

record batch_outcome =
  bo_attempts :: nat
  bo_gpu_first_blocks :: bool
  bo_matches :: "gpu_match list"
  bo_digests :: "string list"
  bo_hash :: "string option"

definition as_bytes :: "string \<Rightarrow> bytes" where
  "as_bytes s = map (\<lambda>c. of_nat (byte_of c)) s"

fun hex_error_text :: "hex_error \<Rightarrow> string" where
  "hex_error_text OddLength = ''odd-length hex string''"
| "hex_error_text NonHexCharacter = ''non-hex character''"

subsection \<open>Finalizing\<close>

definition append_matches ::
  "batch_request \<Rightarrow> gpu_match list \<Rightarrow> string \<Rightarrow> string \<Rightarrow> nat \<Rightarrow> gpu_match list" where
  "append_matches request matches key hash attempt_index =
     (let matches =
        (if br_target_pattern request \<noteq> [] \<and> str_contains hash (br_target_pattern request) then
           matches @ [\<lparr> gm_key = key, gm_hash = hash, gm_matched_pattern = br_target_pattern request,
             gm_attempt_index = attempt_index, gm_is_superblock = is_superblock_hash hash \<rparr>]
         else matches)
      in if br_allow_xuni request \<and> has_xuni_match hash then
           matches @ [\<lparr> gm_key = key, gm_hash = hash, gm_matched_pattern = ''XUNI'',
             gm_attempt_index = attempt_index, gm_is_superblock = False \<rparr>]
         else matches)"

text \<open>A failure of the host comes back as an error value or as a panic.\<close>

datatype finalize_failure = Fin_Err gpu_error | Fin_Panic string

type_synonym host_fill_fn = "bytes \<Rightarrow> bytes list \<Rightarrow> bytes \<Rightarrow> argon2_shape \<Rightarrow> bytes \<times> string option"
type_synonym host_finalize_fn = "bytes \<Rightarrow> nat \<Rightarrow> host_error + bytes"

fun finalize_jobs ::
  "batch_request \<Rightarrow> host_finalize_fn \<Rightarrow> bool \<Rightarrow> nat \<Rightarrow> bytes list \<Rightarrow> finalized \<Rightarrow> finalize_failure + finalized" where
  "finalize_jobs request host keep_digests index [] out = Inr out"
| "finalize_jobs request host keep_digests index (block # blocks) out =
     (case host block DEFAULT_HASH_LENGTH of
        Inl (Host_Err e) \<Rightarrow> Inl (Fin_Err (Gpu_Host e))
      | Inl (Host_Panic e) \<Rightarrow> Inl (Fin_Panic e)
      | Inr digest \<Rightarrow>
          (let hash = base64_encode digest
           in finalize_jobs request host keep_digests (Suc index) blocks
                (out\<lparr> fz_matches := append_matches request (fz_matches out) (br_passwords request ! index) hash index,
                      fz_digests := (if keep_digests then fz_digests out @ [hash] else fz_digests out) \<rparr>)))"

definition finalize_range ::
  "batch_request \<Rightarrow> host_finalize_fn \<Rightarrow> bytes \<Rightarrow> nat \<Rightarrow> bool \<Rightarrow> finalized \<Rightarrow> finalize_failure + finalized" where
  "finalize_range request host blocks first_job keep_digests out =
     finalize_jobs request host keep_digests first_job (chunks ARGON2_BLOCK_SIZE blocks) out"

definition collect_finalized :: "finalized \<Rightarrow> batch_request \<Rightarrow> nat \<Rightarrow> finalized" where
  "collect_finalized fin request attempts =
     (let fin = (if attempts = 1 then fin\<lparr> fz_hash := (case fz_digests fin of [] \<Rightarrow> None | h # _ \<Rightarrow> Some h) \<rparr> else fin)
      in if br_collect_digests request then fin else fin\<lparr> fz_digests := [] \<rparr>)"

definition empty_finalized :: finalized where
  "empty_finalized = \<lparr> fz_matches = [], fz_digests = [], fz_hash = None \<rparr>"

text \<open>\<^verbatim>\<open>handle.join()\<close>: a worker's panic becomes an error.\<close>

fun join_part :: "finalize_failure + finalized \<Rightarrow> gpu_error + finalized" where
  "join_part (Inl (Fin_Err e)) = Inl e"
| "join_part (Inl (Fin_Panic _)) = Inl (Gpu_Host ''a finalize worker panicked'')"
| "join_part (Inr part) = Inr part"

fun concat_parts :: "(gpu_error + finalized) list \<Rightarrow> finalized \<Rightarrow> gpu_error + finalized" where
  "concat_parts [] fin = Inr fin"
| "concat_parts (Inl e # parts) fin = Inl e"
| "concat_parts (Inr part # parts) fin =
     concat_parts parts (fin\<lparr> fz_matches := fz_matches fin @ fz_matches part, fz_digests := fz_digests fin @ fz_digests part \<rparr>)"

definition finalize_batch ::
  "batch_request \<Rightarrow> host_finalize_fn \<Rightarrow> bytes \<Rightarrow> nat \<Rightarrow> finalize_failure + finalized" where
  "finalize_batch request host blocks workers =
     (let attempts = length (br_passwords request)
      in if length blocks \<noteq> attempts * ARGON2_BLOCK_SIZE then
           Inl (Fin_Err (Gpu_Invalid (''output buffer is '' @ show_nat (length blocks) @ '' bytes, want ''
             @ show_nat (attempts * ARGON2_BLOCK_SIZE))))
         else
           (let keep_digests = (br_collect_digests request \<or> attempts = 1)
            in if workers \<le> 1 \<or> attempts \<le> 1 then
                 rbind (finalize_range request host blocks 0 keep_digests empty_finalized)
                   (\<lambda>fin. Inr (collect_finalized fin request attempts))
               else
                 (let chunk_jobs = max ((attempts + workers - 1) div workers) 1;
                      parts = map (\<lambda>(chunk_index, chunk).
                          join_part (finalize_range request host chunk (chunk_index * chunk_jobs) keep_digests empty_finalized))
                        (enumerate 0 (chunks (chunk_jobs * ARGON2_BLOCK_SIZE) blocks))
                  in case concat_parts parts empty_finalized of
                       Inl e \<Rightarrow> Inl (Fin_Err e)
                     | Inr fin \<Rightarrow> Inr (collect_finalized fin request attempts))))"

definition MIN_PARALLEL_FINALIZE_ATTEMPTS :: nat where
  "MIN_PARALLEL_FINALIZE_ATTEMPTS = 64"

definition finalize_worker_count :: "nat \<Rightarrow> nat \<Rightarrow> nat" where
  "finalize_worker_count hardware_threads attempts =
     (if attempts < MIN_PARALLEL_FINALIZE_ATTEMPTS then 1
      else if hardware_threads < 2 then 1
      else max (min attempts hardware_threads) 1)"

subsection \<open>One batch\<close>

text \<open>The staging half of a batch.  The host writes its buffer even when it fails.\<close>

definition stage_first_blocks ::
  "driver \<Rightarrow> host_fill_fn \<Rightarrow> bool \<Rightarrow> bytes list \<Rightarrow> bytes \<Rightarrow> argon2_shape \<Rightarrow> bool gm" where
  "stage_first_blocks d fill gpu_first_blocks passwords salt shape =
     (if gpu_first_blocks then
        gbind (prepare_input_blocks_on_device d passwords salt shape) (\<lambda>ok.
          if \<not> ok then gfail (Gpu_Invalid ''the device first-blocks kernel does not support this batch shape'')
          else gret True)
      else
        gbind runner_mut (\<lambda>r.
          case input_blocks_batch_mut r (length passwords) of
            Inl e \<Rightarrow> gfail e
          | Inr slots \<Rightarrow>
              (case fill slots passwords salt shape of (slots', failure) \<Rightarrow>
                 gbind (put_runner (r\<lparr> r_blocks_in := buf_write 0 slots' (r_blocks_in r) \<rparr>)) (\<lambda>_.
                   case failure of None \<Rightarrow> gret False | Some e \<Rightarrow> gfail (Gpu_Host e)))))"

text \<open>\<^verbatim>\<open>run_batch\<close> and its last part; an inner \<open>Inl\<close> is a panic on the calling thread.\<close>

definition finalize_outcome ::
  "nat \<Rightarrow> host_finalize_fn \<Rightarrow> batch_request \<Rightarrow> bool \<Rightarrow> (string + batch_outcome) gm" where
  "finalize_outcome hardware_threads host request gpu_first_blocks =
     (let attempts = length (br_passwords request)
      in gbind runner_mut (\<lambda>r.
           case output_blocks r attempts of
             Inl e \<Rightarrow> gfail e
           | Inr blocks \<Rightarrow>
               (case finalize_batch request host blocks (finalize_worker_count hardware_threads attempts) of
                  Inl (Fin_Err e) \<Rightarrow> gfail e
                | Inl (Fin_Panic e) \<Rightarrow> gret (Inl e)
                | Inr fin \<Rightarrow>
                    gret (Inr \<lparr> bo_attempts = attempts, bo_gpu_first_blocks = gpu_first_blocks,
                      bo_matches = fz_matches fin, bo_digests = fz_digests fin, bo_hash = fz_hash fin \<rparr>))))"

definition run_batch ::
  "driver \<Rightarrow> (string \<Rightarrow> bytes option) \<Rightarrow> nat \<Rightarrow> host_fill_fn \<Rightarrow> host_finalize_fn \<Rightarrow> batch_request
   \<Rightarrow> (string + batch_outcome) gm" where
  "run_batch d decode hardware_threads fill host request =
     (if br_passwords request = [] then gfail (Gpu_Invalid ''batch has no passwords'')
      else if br_difficulty request = 0 then gfail (Gpu_Invalid ''difficulty must be non-zero'')
      else case hex_to_bytes decode (br_salt_hex request) of
        Inl e \<Rightarrow> gfail (Gpu_Invalid (''salt: '' @ hex_error_text e))
      | Inr salt \<Rightarrow>
          if salt = [] then gfail (Gpu_Invalid ''salt is empty'')
          else
            (let shape = shape_for_difficulty (br_difficulty request)
             in gbind (gcall d) (\<lambda>_.
                gbind (backend_init d shape (length (br_passwords request))) (\<lambda>_.
                gbind (stage_first_blocks d fill (br_gpu_first_blocks request) (map as_bytes (br_passwords request)) salt shape)
                  (\<lambda>gpu_first_blocks.
                gbind (runner_run d) (\<lambda>_.
                gbind (runner_finish d) (\<lambda>_.
                finalize_outcome hardware_threads host request gpu_first_blocks)))))))"

subsection \<open>Splitting the finalize pass\<close>

lemma append_matches_acc: "append_matches request ms key hash i = ms @ append_matches request [] key hash i"
  by (simp add: append_matches_def Let_def)

definition merge :: "finalized \<Rightarrow> finalized \<Rightarrow> finalized" where
  "merge fin part = fin\<lparr> fz_matches := fz_matches fin @ fz_matches part, fz_digests := fz_digests fin @ fz_digests part \<rparr>"

lemma merge_simps [simp]:
  "fz_matches (merge a b) = fz_matches a @ fz_matches b" "fz_digests (merge a b) = fz_digests a @ fz_digests b"
  "fz_hash (merge a b) = fz_hash a" "merge a empty_finalized = a" "merge (merge a b) c = merge a (merge b c)"
  by (simp_all add: merge_def empty_finalized_def)

lemma jobs_append:
  "finalize_jobs request host k i (xs @ ys) out
   = rbind (finalize_jobs request host k i xs out) (finalize_jobs request host k (i + length xs) ys)"
  by (induction xs arbitrary: i out) (auto simp: Let_def split: sum.splits host_error.splits)

lemma jobs_acc:
  "finalize_jobs request host k i xs (merge out part)
   = rbind (finalize_jobs request host k i xs part) (\<lambda>p. Inr (merge out p))"
proof (induction xs arbitrary: i part)
  case (Cons x xs)
  have "(merge out part)\<lparr> fz_matches := append_matches request (fz_matches (merge out part)) key hash i,
      fz_digests := (if k then fz_digests (merge out part) @ [hash] else fz_digests (merge out part)) \<rparr>
    = merge out (part\<lparr> fz_matches := append_matches request (fz_matches part) key hash i,
      fz_digests := (if k then fz_digests part @ [hash] else fz_digests part) \<rparr>)" for key hash
    using append_matches_acc[of request "fz_matches out @ fz_matches part" key hash i] append_matches_acc[of request "fz_matches part" key hash i]
    by (intro finalized.equality) simp_all
  then show ?case by (simp add: Cons.IH Let_def split: sum.splits host_error.splits)
qed simp

lemma chunks_Nil [simp]: "chunks n [] = []"
  by (simp add: chunks.simps)

lemma chunks_split: "0 < n \<Longrightarrow> chunks n (take (c * n) xs) @ chunks n (drop (c * n) xs) = chunks n xs"
proof (induction c arbitrary: xs)
  case (Suc c)
  show ?case
  proof (cases "xs = []")
    case False
    have "chunks n (take (Suc c * n) xs) = take n xs # chunks n (take (c * n) (drop n xs))"
      using False Suc.prems by (simp add: chunks.simps[of n "take (n + c * n) xs"] drop_take)
    then show ?thesis using Suc.IH[OF Suc.prems, of "drop n xs"] False Suc.prems
      by (simp add: chunks.simps[of n xs] add.commute)
  qed simp
qed simp

text \<open>Whatever the split, joining the parts in order is the single pass, except that a panic arrives as
  an error.\<close>

lemma parts_are_serial:
  assumes "0 < c"
  shows "concat_parts (map (\<lambda>(ci, chunk). join_part (finalize_jobs request host k (ci * c) (chunks 1024 chunk) empty_finalized))
      (enumerate n (chunks (c * 1024) blocks))) fin
    = join_part (finalize_jobs request host k (n * c) (chunks 1024 blocks) fin)"
proof (induction "length blocks" arbitrary: blocks n fin rule: less_induct)
  case less
  show ?case
  proof (cases "blocks = []")
    case False
    let ?w = "take (c * 1024) blocks" and ?rest = "drop (c * 1024) blocks"
    let ?J = "\<lambda>i bs. finalize_jobs request host k i bs"
    have un: "chunks (c * 1024) blocks = ?w # chunks (c * 1024) ?rest" using False assms by (simp add: chunks.simps[of _ blocks])
    have split: "chunks 1024 blocks = chunks 1024 ?w @ chunks 1024 ?rest" by (simp add: chunks_split)
    have shift: "?J (n * c + length (chunks 1024 ?w)) (chunks 1024 ?rest) = ?J (Suc n * c) (chunks 1024 ?rest)"
    proof (cases "?rest = []")
      case False
      then have "length (chunks 1024 ?w) = c" by (intro length_chunks) simp_all
      then show ?thesis by (simp add: add.commute)
    qed (simp add: fun_eq_iff)
    have IH: "concat_parts (map (\<lambda>(ci, chunk). join_part (?J (ci * c) (chunks 1024 chunk) empty_finalized))
        (enumerate (Suc n) (chunks (c * 1024) ?rest))) fin' = join_part (?J (Suc n * c) (chunks 1024 ?rest) fin')" for fin'
      using less[of ?rest "Suc n" fin'] False assms by simp
    have acc: "?J (n * c) (chunks 1024 ?w) fin = rbind (?J (n * c) (chunks 1024 ?w) empty_finalized) (\<lambda>p. Inr (merge fin p))"
      using jobs_acc[of request host k "n * c" "chunks 1024 ?w" fin empty_finalized] by simp
    show ?thesis
    proof (cases "?J (n * c) (chunks 1024 ?w) empty_finalized")
      case (Inl e)
      then show ?thesis unfolding un split jobs_append acc by (cases e) simp_all
    next
      case (Inr part)
      then show ?thesis unfolding un split jobs_append acc using IH[of "merge fin part"] shift by (simp add: merge_def)
    qed
  qed simp
qed

fun panic_to_error :: "finalize_failure \<Rightarrow> finalize_failure" where
  "panic_to_error (Fin_Err e) = Fin_Err e"
| "panic_to_error (Fin_Panic _) = Fin_Err (Gpu_Host ''a finalize worker panicked'')"

lemma finalize_split:
  assumes "1 < workers" "1 < length (br_passwords request)"
  shows "finalize_batch request host blocks workers = map_err panic_to_error (finalize_batch request host blocks 1)"
proof -
  define c where "c = max ((length (br_passwords request) + workers - 1) div workers) 1"
  define k where "k = (br_collect_digests request \<or> length (br_passwords request) = 1)"
  have c: "0 < c" by (simp add: c_def)
  have p: "concat_parts (map (\<lambda>(ci, chunk). join_part (finalize_range request host chunk (ci * c) k empty_finalized))
      (enumerate 0 (chunks (c * ARGON2_BLOCK_SIZE) blocks))) empty_finalized
    = join_part (finalize_range request host blocks 0 k empty_finalized)"
    using parts_are_serial[OF c, of request host k 0 blocks empty_finalized]
    by (simp add: finalize_range_def ARGON2_BLOCK_SIZE_def)
  let ?s = "finalize_range request host blocks 0 k empty_finalized"
  have "(case join_part ?s of Inl e \<Rightarrow> Inl (Fin_Err e) | Inr fin \<Rightarrow> Inr (f fin)) = map_err panic_to_error (rbind ?s (\<lambda>fin. Inr (f fin)))"
    for f :: "finalized \<Rightarrow> finalized"
  proof (cases ?s)
    case (Inl e)
    then show ?thesis by (cases e) simp_all
  qed simp
  note eq = this
  have e: "finalize_batch request host blocks workers =
     (if length blocks \<noteq> length (br_passwords request) * ARGON2_BLOCK_SIZE then
        Inl (Fin_Err (Gpu_Invalid (''output buffer is '' @ show_nat (length blocks) @ '' bytes, want ''
          @ show_nat (length (br_passwords request) * ARGON2_BLOCK_SIZE))))
      else case concat_parts (map (\<lambda>(ci, chunk). join_part (finalize_range request host chunk (ci * c) k empty_finalized))
          (enumerate 0 (chunks (c * ARGON2_BLOCK_SIZE) blocks))) empty_finalized of
        Inl e \<Rightarrow> Inl (Fin_Err e) | Inr fin \<Rightarrow> Inr (collect_finalized fin request (length (br_passwords request))))"
    using assms by (simp add: finalize_batch_def Let_def c_def k_def)
  show ?thesis unfolding e p eq by (simp add: finalize_batch_def Let_def k_def)
qed

subsection \<open>The host half and the digest\<close>

text \<open>What the trait documents: a buffer keeps its length, the slots of a batch are the first blocks of
  RFC 9106 in job order, the reduction of the last block is the variable-length hash.\<close>

locale argon2_host =
  fixes fill :: host_fill_fn and host :: host_finalize_fn
  assumes fill_length: "length (fst (fill out passwords salt shape)) = length out"
    and fill_blocks: "sh_lanes shape = 1 \<Longrightarrow> length salt < 2 ^ 32 \<Longrightarrow> \<forall>x\<in>set passwords. length x < 2 ^ 32 \<Longrightarrow>
      length out = length passwords * 2048 \<Longrightarrow>
      fill out passwords salt shape = (concat (map (\<lambda>x. first_blocks (shape_h0 x salt shape)) passwords), None)"
    and reduce: "length block = 1024 \<Longrightarrow> host block 64 = Inr (hprime 64 block)"

text \<open>Argon2id with one lane and one pass, and what a batch answers.\<close>

definition argon2id :: "bytes \<Rightarrow> bytes \<Rightarrow> argon2_shape \<Rightarrow> bytes" where
  "argon2id password salt shape =
     hprime 64 (last_block (segment_blocks shape) (first_blocks (shape_h0 password salt shape)))"

definition job_hash :: "batch_request \<Rightarrow> bytes \<Rightarrow> nat \<Rightarrow> string" where
  "job_hash request salt i =
     base64_encode (argon2id (as_bytes (br_passwords request ! i)) salt (shape_for_difficulty (br_difficulty request)))"

definition batch_spec :: "batch_request \<Rightarrow> bytes \<Rightarrow> batch_outcome" where
  "batch_spec request salt =
     (let n = length (br_passwords request)
      in \<lparr> bo_attempts = n, bo_gpu_first_blocks = br_gpu_first_blocks request,
           bo_matches = concat (map (\<lambda>i. append_matches request [] (br_passwords request ! i) (job_hash request salt i) i) [0..<n]),
           bo_digests = (if br_collect_digests request then map (job_hash request salt) [0..<n] else []),
           bo_hash = (if n = 1 then Some (job_hash request salt 0) else None) \<rparr>)"

lemma jobs_all_ok:
  assumes "\<And>i. i < length blocks \<Longrightarrow> host (blocks ! i) DEFAULT_HASH_LENGTH = Inr (D (index + i))"
  shows "finalize_jobs request host k index blocks out = Inr (merge out \<lparr>
      fz_matches = concat (map (\<lambda>i. append_matches request [] (br_passwords request ! i) (base64_encode (D i)) i) [index..<index + length blocks]),
      fz_digests = (if k then map (\<lambda>i. base64_encode (D i)) [index..<index + length blocks] else []), fz_hash = None \<rparr>)"
  using assms
proof (induction blocks arbitrary: index out)
  case (Cons b blocks)
  have b: "host b DEFAULT_HASH_LENGTH = Inr (D index)" using Cons.prems[of 0] by simp
  have "host (blocks ! i) DEFAULT_HASH_LENGTH = Inr (D (Suc index + i))" if "i < length blocks" for i
    using Cons.prems[of "Suc i"] that by simp
  note IH = Cons.IH[OF this]
  have u: "[index..<index + length (b # blocks)] = index # [Suc index..<Suc index + length blocks]"
    by (simp add: upt_conv_Cons del: upt_Suc)
  show ?case unfolding u using append_matches_acc[of request "fz_matches out"]
    by (auto simp: b IH Let_def merge_def intro!: finalized.equality)
qed (simp add: merge_def)

lemma finalize_batch_ok:
  assumes len: "length blocks = length (br_passwords request) * 1024"
    and D: "\<And>i. i < length (br_passwords request) \<Longrightarrow> host (slot_at 1024 i blocks) 64 = Inr (D i)"
  shows "\<exists>fin. finalize_batch request host blocks workers = Inr fin
    \<and> fz_matches fin = concat (map (\<lambda>i. append_matches request [] (br_passwords request ! i) (base64_encode (D i)) i)
        [0..<length (br_passwords request)])
    \<and> fz_digests fin = (if br_collect_digests request then map (\<lambda>i. base64_encode (D i)) [0..<length (br_passwords request)] else [])
    \<and> fz_hash fin = (if length (br_passwords request) = 1 then Some (base64_encode (D 0)) else None)"
proof -
  let ?n = "length (br_passwords request)"
  have lc: "length (chunks 1024 blocks) = ?n" using length_chunks[OF _ len] by simp
  have "host (chunks 1024 blocks ! i) DEFAULT_HASH_LENGTH = Inr (D (0 + i))" if "i < length (chunks 1024 blocks)" for i
    using D[of i] that lc len chunks_index(2)[of 1024 i blocks] by (simp add: DEFAULT_HASH_LENGTH_def)
  note jobs = jobs_all_ok[of "chunks 1024 blocks" host D 0, OF this, of request _ empty_finalized, unfolded lc]
  have one: "finalize_batch request host blocks 1 = Inr (collect_finalized (merge empty_finalized \<lparr>
      fz_matches = concat (map (\<lambda>i. append_matches request [] (br_passwords request ! i) (base64_encode (D i)) i) [0..<?n]),
      fz_digests = (if br_collect_digests request \<or> ?n = 1 then map (\<lambda>i. base64_encode (D i)) [0..<?n] else []),
      fz_hash = None \<rparr>) request ?n)"
    using len by (simp add: finalize_batch_def Let_def finalize_range_def ARGON2_BLOCK_SIZE_def jobs)
  have serial: "\<exists>fin. finalize_batch request host blocks 1 = Inr fin
    \<and> fz_matches fin = concat (map (\<lambda>i. append_matches request [] (br_passwords request ! i) (base64_encode (D i)) i) [0..<?n])
    \<and> fz_digests fin = (if br_collect_digests request then map (\<lambda>i. base64_encode (D i)) [0..<?n] else [])
    \<and> fz_hash fin = (if ?n = 1 then Some (base64_encode (D 0)) else None)"
    unfolding one by (simp add: collect_finalized_def empty_finalized_def)
  show ?thesis
  proof (cases "1 < workers \<and> 1 < ?n")
    case True
    then show ?thesis using serial by (simp add: finalize_split)
  next
    case False
    then have "workers \<le> 1 \<or> ?n \<le> 1" by auto
    then have "finalize_batch request host blocks workers = finalize_batch request host blocks 1"
      by (simp add: finalize_batch_def Let_def)
    then show ?thesis using serial by simp
  qed
qed

context argon2_host
begin

abbreviation lane_end :: "bytes list \<Rightarrow> bytes \<Rightarrow> argon2_shape \<Rightarrow> nat \<Rightarrow> bytes" where
  "lane_end passwords salt shape j \<equiv> last_block (segment_blocks shape) (first_blocks (shape_h0 (passwords ! j) salt shape))"

lemma stage_host_run:
  assumes l: "length salt < 2 ^ 32" "\<forall>x\<in>set passwords. length x < 2 ^ 32"
    and r0: "g_runner g = Some r0" "pool_for shape (length passwords) r0"
  shows "stage_first_blocks d fill False passwords salt shape g = (Inr False, g\<lparr> g_runner :=
    Some (r0\<lparr> r_blocks_in := concat (map (\<lambda>x. first_blocks (shape_h0 x salt shape)) passwords) \<rparr>) \<rparr>)"
proof -
  note p = pool_for_facts[OF r0(2)]
  let ?B = "concat (map (\<lambda>x. first_blocks (shape_h0 x salt shape)) passwords)"
  have lB: "length ?B = length passwords * 2048" by (rule length_concat_const) simp
  have inp: "input_blocks_batch_mut r0 (length passwords) = Inr (r_blocks_in r0)"
    using p(8) by (simp add: input_blocks_batch_mut_def Let_def INPUT_BLOCKS_PER_JOB_def ARGON2_BLOCK_SIZE_def)
  have f: "fill (r_blocks_in r0) passwords salt shape = (?B, None)" using l p(2,8) by (intro fill_blocks) simp_all
  have "buf_write 0 ?B (r_blocks_in r0) = ?B" using lB p(8) by (simp add: buf_write_def)
  then show ?thesis using r0(1) inp f
    by (simp add: stage_first_blocks_def gbind_def runner_mut_def put_runner_def gret_def)
qed

lemma stage_host_ensures:
  assumes l: "length salt < 2 ^ 32" "\<forall>x\<in>set passwords. length x < 2 ^ 32"
  shows "ensures (pool (\<lambda>r. pool_for shape (length passwords) r \<and> r_pending r = None))
      (stage_first_blocks d fill False passwords salt shape)
      (\<lambda>b. pool (\<lambda>r. \<not> b \<and> pool_for shape (length passwords) r \<and> r_pending r = None
         \<and> r_blocks_in r = concat (map (\<lambda>x. first_blocks (shape_h0 x salt shape)) passwords)))"
    and "succeeds (pool (\<lambda>r. pool_for shape (length passwords) r \<and> r_pending r = None))
      (stage_first_blocks d fill False passwords salt shape)"
proof -
  have "length (concat (map (\<lambda>x. first_blocks (shape_h0 x salt shape)) passwords)) = length passwords * 2048"
    by (rule length_concat_const) simp
  then show "ensures (pool (\<lambda>r. pool_for shape (length passwords) r \<and> r_pending r = None))
      (stage_first_blocks d fill False passwords salt shape)
      (\<lambda>b. pool (\<lambda>r. \<not> b \<and> pool_for shape (length passwords) r \<and> r_pending r = None
         \<and> r_blocks_in r = concat (map (\<lambda>x. first_blocks (shape_h0 x salt shape)) passwords)))"
    by (auto simp: ensures_def pool_def stage_host_run[OF l] pool_for_facts(8))
  show "succeeds (pool (\<lambda>r. pool_for shape (length passwords) r \<and> r_pending r = None))
      (stage_first_blocks d fill False passwords salt shape)"
    by (auto simp: succeeds_def pool_def stage_host_run[OF l])
qed

lemma host_lane_ends:
  "map (\<lambda>j. last_block (segment_blocks shape) (slot_at 2048 j (concat (map (\<lambda>x. first_blocks (shape_h0 x salt shape)) passwords))))
     [0..<length passwords] = map (lane_end passwords salt shape) [0..<length passwords]"
proof -
  have "slot_at 2048 j (concat (map (\<lambda>x. first_blocks (shape_h0 x salt shape)) passwords))
      = first_blocks (shape_h0 (passwords ! j) salt shape)" if "j < length passwords" for j
    using slot_of_concat[of "map (\<lambda>x. first_blocks (shape_h0 x salt shape)) passwords" 2048 j] that by simp
  then show ?thesis by simp
qed

lemma stage_device_ensures:
  assumes "driver_ok d"
  shows "ensures (pool (\<lambda>r. pool_for shape n r \<and> r_pending r = None)) (stage_first_blocks d fill True passwords salt shape)
      (\<lambda>b. pool (\<lambda>r. b \<and> pool_for shape n r \<and> staged passwords salt shape r))"
  unfolding stage_first_blocks_def if_True
  by (rule ensures_bind[OF ensures_pre[OF prepare_ensures[OF assms, of shape n]]] ensures_if ensures_fail ensures_ret_pool | simp)+

lemma stage_run_ensures:
  assumes d: "driver_ok d" and l: "length salt < 2 ^ 32" "\<forall>x\<in>set passwords. length x < 2 ^ 32"
    and K: "ensures (pool (\<lambda>r. pool_for shape (length passwords) r
         \<and> r_blocks_out r = concat (map (lane_end passwords salt shape) [0..<length passwords]))) (K on_gpu) Q"
  shows "ensures (pool (\<lambda>r. pool_for shape (length passwords) r \<and> r_pending r = None))
      (gbind (stage_first_blocks d fill on_gpu passwords salt shape) (\<lambda>b. gbind (runner_run d) (\<lambda>_. gbind (runner_finish d) (\<lambda>_. K b)))) Q"
proof (cases on_gpu)
  case True
  then show ?thesis
    using K by (auto intro!: ensures_bind[OF stage_device_ensures[OF d]] ensures_pure ensures_bind[OF run_device_ensures[OF d]]
        ensures_bind[OF finish_ensures])
next
  case False
  note run = run_host_ensures[OF d, of shape "length passwords"
      "concat (map (\<lambda>x. first_blocks (shape_h0 x salt shape)) passwords)", unfolded host_lane_ends]
  show ?thesis
    using K False by (auto intro!: ensures_bind[OF stage_host_ensures(1)[OF l]] ensures_pure ensures_bind[OF run] ensures_bind[OF finish_ensures])
qed

lemma finalize_ensures:
  fixes request salt hw
  defines "shape \<equiv> shape_for_difficulty (br_difficulty request)" and "n \<equiv> length (br_passwords request)"
  assumes out: "pool_for shape n r"
      "r_blocks_out r = concat (map (lane_end (map as_bytes (br_passwords request)) salt shape) [0..<n])"
  shows "\<exists>fin. output_blocks r n = Inr (r_blocks_out r) \<and> finalize_batch request host (r_blocks_out r) w = Inr fin
    \<and> \<lparr> bo_attempts = n, bo_gpu_first_blocks = br_gpu_first_blocks request,
      bo_matches = fz_matches fin, bo_digests = fz_digests fin, bo_hash = fz_hash fin \<rparr> = batch_spec request salt"
proof -
  note p = pool_for_facts[OF out(1)]
  let ?L = "map (lane_end (map as_bytes (br_passwords request)) salt shape) [0..<n]"
  have L: "\<forall>b\<in>set ?L. length b = 1024" using p(3) by (auto simp: length_last_block)
  have o: "output_blocks r n = Inr (r_blocks_out r)" using p(9) by (simp add: output_blocks_def ARGON2_BLOCK_SIZE_def)
  have "host (slot_at 1024 i (r_blocks_out r)) 64 = Inr (argon2id (as_bytes (br_passwords request ! i)) salt shape)" if "i < n" for i
    using slot_of_concat[OF L, of i] that out(2) p(3) by (simp add: reduce length_last_block argon2id_def n_def)
  then obtain fin where fin: "finalize_batch request host (r_blocks_out r) w = Inr fin"
    "fz_matches fin = concat (map (\<lambda>i. append_matches request [] (br_passwords request ! i) (job_hash request salt i) i) [0..<n])"
    "fz_digests fin = (if br_collect_digests request then map (job_hash request salt) [0..<n] else [])"
    "fz_hash fin = (if n = 1 then Some (job_hash request salt 0) else None)"
    using finalize_batch_ok[of "r_blocks_out r" request host "\<lambda>i. argon2id (as_bytes (br_passwords request ! i)) salt shape" w] p(9)
    unfolding n_def shape_def job_hash_def by blast
  then show ?thesis using o by (auto simp: batch_spec_def Let_def n_def)
qed

lemma outcome_ensures:
  fixes request salt
  defines "pw \<equiv> map as_bytes (br_passwords request)" and "shape \<equiv> shape_for_difficulty (br_difficulty request)"
  shows "ensures (pool (\<lambda>r. pool_for shape (length pw) r \<and> r_blocks_out r = concat (map (lane_end pw salt shape) [0..<length pw])))
    (finalize_outcome hw host request (br_gpu_first_blocks request)) (\<lambda>v g. v = Inr (batch_spec request salt))"
    and "succeeds (pool (\<lambda>r. pool_for shape (length pw) r \<and> r_blocks_out r = concat (map (lane_end pw salt shape) [0..<length pw])))
    (finalize_outcome hw host request (br_gpu_first_blocks request))"
proof -
  let ?n = "length (br_passwords request)"
  have run: "finalize_outcome hw host request (br_gpu_first_blocks request) g = (Inr (Inr (batch_spec request salt)), g)"
    if r0: "g_runner g = Some r0" "pool_for shape (length pw) r0" "r_blocks_out r0 = concat (map (lane_end pw salt shape) [0..<length pw])" for g r0
  proof -
    obtain fin where "output_blocks r0 ?n = Inr (r_blocks_out r0)"
      "finalize_batch request host (r_blocks_out r0) (finalize_worker_count hw ?n) = Inr fin"
      "\<lparr> bo_attempts = ?n, bo_gpu_first_blocks = br_gpu_first_blocks request,
         bo_matches = fz_matches fin, bo_digests = fz_digests fin, bo_hash = fz_hash fin \<rparr> = batch_spec request salt"
      using finalize_ensures[of request r0 salt "finalize_worker_count hw ?n"] r0 by (auto simp: pw_def shape_def)
    then show ?thesis using r0(1) by (simp add: finalize_outcome_def Let_def gbind_def runner_mut_def gret_def)
  qed
  then show "ensures (pool (\<lambda>r. pool_for shape (length pw) r \<and> r_blocks_out r = concat (map (lane_end pw salt shape) [0..<length pw])))
    (finalize_outcome hw host request (br_gpu_first_blocks request)) (\<lambda>v g. v = Inr (batch_spec request salt))"
    "succeeds (pool (\<lambda>r. pool_for shape (length pw) r \<and> r_blocks_out r = concat (map (lane_end pw salt shape) [0..<length pw])))
    (finalize_outcome hw host request (br_gpu_first_blocks request))"
    unfolding ensures_def succeeds_def pool_def by fastforce+
qed

lemma batch_ensures:
  assumes d: "driver_ok d" and salt: "hex_to_bytes decode (br_salt_hex request) = Inr salt" "length salt < 2 ^ 32"
    and pw: "\<forall>x\<in>set (br_passwords request). length x < 2 ^ 32" and diff: "br_difficulty request < 2 ^ 32"
  shows "ensures gpu_ok (run_batch d decode hw fill host request) (\<lambda>v g. v = Inr (batch_spec request salt))"
proof -
  have l: "\<forall>x\<in>set (map as_bytes (br_passwords request)). length x < 2 ^ 32" using pw by (simp add: as_bytes_def)
  show ?thesis
    unfolding run_batch_def Let_def salt(1) sum.case
    using outcome_ensures(1)[of request salt hw]
    by (intro ensures_if ensures_fail ensures_bind[OF keeps_ensures[OF keeps_basic(4)]]
        ensures_bind[OF init_ensures[OF d shape_ok_for_difficulty[OF diff]]]
        stage_run_ensures[OF d salt(2) l, unfolded length_map]) simp
qed

lemma stage_keeps: "keeps gpu_ok (stage_first_blocks d fill on_gpu passwords salt shape)"
proof -
  have "runner_ok (r\<lparr> r_blocks_in := buf_write 0 slots' (r_blocks_in r) \<rparr>)"
    if "runner_ok r" "input_blocks_batch_mut r n = Inr slots" "fill slots passwords salt shape = (slots', e)" for r n slots slots' e
    using that fill_length[of slots passwords salt shape]
    by (auto simp: input_blocks_batch_mut_def Let_def buf_write_def split: if_splits)
  then show ?thesis
    unfolding stage_first_blocks_def
    by (auto intro!: keeps_bind_mut keeps_bind prepare_keeps keeps_put split: sum.split option.split prod.split)
qed

lemma outcome_keeps: "keeps gpu_ok (finalize_outcome hw host request b)"
  unfolding finalize_outcome_def Let_def
  by (rule keeps_bind_mut) (auto split: sum.split finalize_failure.split)

lemma batch_keeps:
  assumes "driver_ok d" "br_difficulty request < 2 ^ 32"
  shows "keeps gpu_ok (run_batch d decode hw fill host request)"
  unfolding run_batch_def Let_def
  using assms by (auto intro!: keeps_bind stage_keeps outcome_keeps init_keeps run_keeps finish_keeps shape_ok_for_difficulty split: sum.split)

lemma stage_run_succ:
  assumes d: "driver_ok d" and nf: "no_failure d" and n: "length passwords < 2 ^ 32"
    and l: "length salt < 2 ^ 32" "\<forall>x\<in>set passwords. length x < 2 ^ 32"
    and dev: "on_gpu \<Longrightarrow> passwords \<noteq> [] \<and> sh_output_length shape = DEFAULT_HASH_LENGTH \<and> sh_passes shape = 1
      \<and> sh_lanes shape = 1 \<and> salt \<noteq> [] \<and> (\<forall>x\<in>set passwords. length x = kl) \<and> 0 < kl"
    and K: "succeeds (pool (\<lambda>r. pool_for shape (length passwords) r
         \<and> r_blocks_out r = concat (map (lane_end passwords salt shape) [0..<length passwords]))) (K on_gpu)"
  shows "succeeds (pool (\<lambda>r. pool_for shape (length passwords) r \<and> r_pending r = None))
      (gbind (stage_first_blocks d fill on_gpu passwords salt shape) (\<lambda>b. gbind (runner_run d) (\<lambda>_. gbind (runner_finish d) (\<lambda>_. K b))))"
proof (cases on_gpu)
  case True
  then have "kl < 2 ^ 32" using dev l(2) by (cases passwords) auto
  have "ensures (pool (\<lambda>r. pool_for shape (length passwords) r \<and> r_pending r = None))
      (prepare_input_blocks_on_device d passwords salt shape) (\<lambda>ok g. ok)"
    using dev[OF True] l \<open>kl < 2 ^ 32\<close>
    by (intro ensures_pre[OF prepare_true[of passwords shape salt kl]]) (auto simp: pool_for_def)
  then have "succeeds (pool (\<lambda>r. pool_for shape (length passwords) r \<and> r_pending r = None))
      (stage_first_blocks d fill True passwords salt shape)"
    unfolding stage_first_blocks_def if_True
    by (intro succ_bind[OF prepare_succ[OF d nf]]) (auto simp: succeeds_def gret_def)
  then show ?thesis using True K
    by (auto intro!: succ_bind[OF _ stage_device_ensures[OF d]] succ_pure succ_bind[OF run_device_succ[OF d nf n] run_device_ensures[OF d]]
        succ_bind[OF finish_succ[OF nf] finish_ensures])
next
  case False
  note run = run_host_ensures[OF d, of shape "length passwords"
      "concat (map (\<lambda>x. first_blocks (shape_h0 x salt shape)) passwords)", unfolded host_lane_ends]
  show ?thesis
    using K False by (auto intro!: succ_bind[OF stage_host_ensures(2,1)[OF l]] succ_pure succ_bind[OF run_host_succ[OF d nf n] run]
      succ_bind[OF finish_succ[OF nf] finish_ensures])
qed

lemma batch_succeeds:
  assumes d: "driver_ok d" "no_failure d" and salt: "hex_to_bytes decode (br_salt_hex request) = Inr salt" "salt \<noteq> []" "length salt < 2 ^ 32"
    and pw: "br_passwords request \<noteq> []" "length (br_passwords request) < 2 ^ 32" "\<forall>x\<in>set (br_passwords request). length x < 2 ^ 32"
    and diff: "0 < br_difficulty request" "br_difficulty request < 2 ^ 32"
    and room: "length (br_passwords request) * job_bytes (shape_for_difficulty (br_difficulty request)) < 2 ^ 64"
    and dev: "br_gpu_first_blocks request \<Longrightarrow> (\<forall>x\<in>set (br_passwords request). length x = kl) \<and> 0 < kl"
  shows "succeeds gpu_ok (run_batch d decode hw fill host request)"
proof -
  have l: "\<forall>x\<in>set (map as_bytes (br_passwords request)). length x < 2 ^ 32" using pw by (simp add: as_bytes_def)
  have K: "succeeds (pool (\<lambda>r. pool_for (shape_for_difficulty (br_difficulty request)) (length (br_passwords request)) r \<and> r_pending r = None))
     (gbind (stage_first_blocks d fill (br_gpu_first_blocks request) (map as_bytes (br_passwords request)) salt
         (shape_for_difficulty (br_difficulty request)))
        (\<lambda>b. gbind (runner_run d) (\<lambda>_. gbind (runner_finish d) (\<lambda>_. finalize_outcome hw host request b))))"
    using outcome_ensures(2)[of request salt hw] pw dev salt(2)
    by (intro stage_run_succ[OF d _ salt(3) l, where kl = kl, unfolded length_map])
      (auto simp: shape_for_difficulty_def as_bytes_def)
  show ?thesis
    unfolding run_batch_def Let_def salt(1) sum.case
    using pw(1) diff(1) salt(2) room
    by (auto intro!: succ_bind[OF succ_basic(5)[OF d(2)] keeps_ensures[OF keeps_basic(4)]]
        succ_bind[OF succ_init[OF d(2)] init_ensures[OF d(1) shape_ok_for_difficulty[OF diff(2)]]] K)
qed

end

subsection \<open>The CPU host\<close>

text \<open>\<^verbatim>\<open>CpuArgon2Host\<close> behind the trait.  The schedule of its workers is any prefix followed by
  enough rounds in which every worker moves; what is left in the slice is the filled batch.\<close>

definition fair_schedule :: "nat \<Rightarrow> cpu_argon2_host \<Rightarrow> nat list \<Rightarrow> nat \<Rightarrow> nat list" where
  "fair_schedule hw h prefix n =
     prefix @ concat (replicate (n * (n + 2) + worker_count hw h n) [0..<worker_count hw h n])"

definition cpu_fill :: "blake2_fn \<Rightarrow> nat \<Rightarrow> cpu_argon2_host \<Rightarrow> nat list \<Rightarrow> host_fill_fn" where
  "cpu_fill blake2 hw h prefix out passwords salt shape =
     (case fill_first_blocks_batch blake2 hw h (fair_schedule hw h prefix (length passwords)) out passwords salt shape of
        Some (Inr filled) \<Rightarrow> (buf_write 0 (take (length out) filled) out, None)
      | Some (Inl (Host_Err e)) \<Rightarrow> (out, Some e)
      | Some (Inl (Host_Panic e)) \<Rightarrow> (out, Some e)
      | None \<Rightarrow> (out, Some ''still running''))"

sublocale blake2_crate < cpu: argon2_host "cpu_fill blake2 hw h prefix" "host_finalize blake2" for hw h prefix
proof unfold_locales
  show "length (fst (cpu_fill blake2 hw h prefix out passwords salt shape)) = length out" for out passwords salt shape
    by (auto simp: cpu_fill_def buf_write_def split: option.split sum.split host_error.split)
  show "cpu_fill blake2 hw h prefix out passwords salt shape
      = (concat (map (\<lambda>x. first_blocks (shape_h0 x salt shape)) passwords), None)"
    if "sh_lanes shape = 1" "length salt < 2 ^ 32" "\<forall>x\<in>set passwords. length x < 2 ^ 32" "length out = length passwords * 2048"
    for out passwords salt shape
  proof -
    have s: "slot_spec salt shape = (\<lambda>x. first_blocks (shape_h0 x salt shape))"
      using that(1) one_lane by (simp add: slot_spec_def fun_eq_iff)
    have sb: "slot_bytes shape = 2048" using that(1) by (simp add: slot_bytes_def INPUT_BLOCKS_PER_JOB_def ARGON2_BLOCK_SIZE_def)
    have p: "0 < sh_lanes shape" "length out = length passwords * slot_bytes shape" using that sb by simp_all
    note ok = batch_ok[OF p(1) that(2,3) p(2), where hw = hw and h = h]
    have "fill_first_blocks_batch blake2 hw h (fair_schedule hw h prefix (length passwords)) out passwords salt shape
      = Some (Inr (concat (map (slot_spec salt shape) passwords)))"
      using ok(2)[OF refl, where prefix = prefix] ok(1)[where schedule = "fair_schedule hw h prefix (length passwords)"]
      unfolding fair_schedule_def by (elim disjE) (simp, assumption)
    moreover have "length (concat (map (slot_spec salt shape) passwords)) = length out"
      unfolding that(4) by (rule length_concat_const) (simp add: sb)
    ultimately show ?thesis unfolding s by (simp add: cpu_fill_def buf_write_def)
  qed
  show "host_finalize blake2 block 64 = Inr (hprime 64 block)" if "length block = 1024" for block
    using finalize_ok[of block 1 64] that by simp
qed

subsection \<open>Properties\<close>

text \<open>C3.  A batch on the GPU is exact.  Whatever the pool was used for before, whichever side derives the
  first blocks, in whichever order the driver runs the work-items and however many threads finalize:
  when the batch comes back without an error, the digests are Argon2id of RFC 9106 (one lane, one pass)
  of every password, in job order, and the matches are exactly those these digests contain.\<close>

theorem gpu_batch_exact:
  assumes "driver_ok d" "argon2_host fill host" "gpu_ok g"
    and "hex_to_bytes decode (br_salt_hex request) = Inr salt" "length salt < 2 ^ 32"
    and "\<forall>x\<in>set (br_passwords request). length x < 2 ^ 32" "br_difficulty request < 2 ^ 32"
    and "run_batch d decode hw fill host request g = (Inr v, g')"
  shows "v = Inr (batch_spec request salt)"
  using argon2_host.batch_ensures[OF assms(2,1,4-7)] assms(3,8) unfolding ensures_def by blast

text \<open>A driver that never fails, fills its allocations with rubbish and runs the workgroups backwards; a
  request with passwords of different lengths.\<close>

definition demo_driver :: driver where
  "demo_driver = \<lparr> dr_fail = (\<lambda>_. None), dr_fresh = (\<lambda>k n. replicate n 170), dr_items = (\<lambda>k g t. List.product [0..<g] [0..<t]),
     dr_jobs = (\<lambda>k n. rev [0..<n]) \<rparr>"

definition demo_request :: batch_request where
  "demo_request = (batch_request_new [''first key'', ''second'', ''third''] ''0a0b'' 8)\<lparr> br_collect_digests := True \<rparr>"

definition demo_decode :: "string \<Rightarrow> bytes option" where
  "demo_decode text = (if text = ''0a0b'' then Some [10, 11] else None)"

lemmas demo_host = dev.cpu.argon2_host_axioms

lemma demo_driver_ok: "driver_ok demo_driver" "no_failure demo_driver"
  by (auto simp: driver_ok_def no_failure_def demo_driver_def)

lemma demo_salt: "hex_to_bytes demo_decode ''0a0b'' = Inr [10, 11]"
  by (simp add: hex_to_bytes_def demo_decode_def)

lemma idle_ok: "gpu_ok \<lparr> g_calls = 0, g_runner = None \<rparr>"
  by (simp add: gpu_ok_def)

theorem gpu_batch_exact_witness:
  "fst (run_batch demo_driver demo_decode 8 (cpu_fill device_blake2 4 host_new []) (host_finalize device_blake2) demo_request
     \<lparr> g_calls = 0, g_runner = None \<rparr>) = Inr (Inr (batch_spec demo_request [10, 11]))"
proof -
  let ?run = "run_batch demo_driver demo_decode 8 (cpu_fill device_blake2 4 host_new []) (host_finalize device_blake2) demo_request"
  have req: "br_salt_hex demo_request = ''0a0b''" "br_difficulty demo_request = 8" "\<not> br_gpu_first_blocks demo_request"
    "br_passwords demo_request = [''first key'', ''second'', ''third'']"
    by (simp_all add: demo_request_def batch_request_new_def)
  have "succeeds gpu_ok ?run"
    by (rule argon2_host.batch_succeeds[OF demo_host demo_driver_ok, of _ _ "[10, 11]"])
      (simp_all add: req demo_salt job_bytes_def lane_blocks_def segment_blocks_def shape_for_difficulty_def
        ARGON2_SYNC_POINTS_def ARGON2_BLOCK_SIZE_def)
  then obtain v g' where r: "?run \<lparr> g_calls = 0, g_runner = None \<rparr> = (Inr v, g')" using idle_ok unfolding succeeds_def by blast
  have "v = Inr (batch_spec demo_request [10, 11])"
    by (rule gpu_batch_exact[OF demo_driver_ok(1) demo_host idle_ok _ _ _ _ r]) (simp_all add: req demo_salt)
  then show ?thesis by (simp add: r)
qed

text \<open>C9.  A batch on the GPU comes back: when no driver call fails and the pool fits the address space, a
  well-formed request gets its digests and matches, from any state of the backend.\<close>

theorem gpu_batch_answers:
  assumes "driver_ok d" "no_failure d" "argon2_host fill host" "gpu_ok g"
    and "hex_to_bytes decode (br_salt_hex request) = Inr salt" "salt \<noteq> []" "length salt < 2 ^ 32"
    and "br_passwords request \<noteq> []" "length (br_passwords request) < 2 ^ 32"
    and "\<forall>x\<in>set (br_passwords request). length x < 2 ^ 32"
    and "0 < br_difficulty request" "br_difficulty request < 2 ^ 32"
    and "length (br_passwords request) * job_bytes (shape_for_difficulty (br_difficulty request)) < 2 ^ 64"
    and "br_gpu_first_blocks request \<Longrightarrow> (\<forall>x\<in>set (br_passwords request). length x = kl) \<and> 0 < kl"
  shows "fst (run_batch d decode hw fill host request g) = Inr (Inr (batch_spec request salt))"
proof -
  obtain v g' where r: "run_batch d decode hw fill host request g = (Inr v, g')"
    using argon2_host.batch_succeeds[OF assms(3,1,2,5-14)] assms(4) unfolding succeeds_def by blast
  moreover have "v = Inr (batch_spec request salt)"
    using argon2_host.batch_ensures[OF assms(3,1,5,7,10,12)] assms(4) r unfolding ensures_def by blast
  ultimately show ?thesis by simp
qed

theorem gpu_batch_answers_witness:
  "fst (run_batch demo_driver demo_decode 1 (cpu_fill device_blake2 4 host_new []) (host_finalize device_blake2)
     ((batch_request_new [''one'', ''two''] ''0a0b'' 9)\<lparr> br_gpu_first_blocks := True \<rparr>) \<lparr> g_calls = 0, g_runner = None \<rparr>)
   = Inr (Inr (batch_spec ((batch_request_new [''one'', ''two''] ''0a0b'' 9)\<lparr> br_gpu_first_blocks := True \<rparr>) [10, 11]))"
  by (rule gpu_batch_answers[OF demo_driver_ok demo_host idle_ok, where kl = 3])
    (simp_all add: batch_request_new_def demo_salt job_bytes_def lane_blocks_def segment_blocks_def shape_for_difficulty_def
      ARGON2_SYNC_POINTS_def ARGON2_BLOCK_SIZE_def)

text \<open>The pool's invariant survives every batch, a failed one included: the buffers keep the sizes the
  next launch relies on, so no queued copy or kernel reaches outside them.\<close>

theorem gpu_batch_keeps_pool:
  assumes "driver_ok d" "argon2_host fill host" "gpu_ok g" "br_difficulty request < 2 ^ 32"
  shows "gpu_ok (snd (run_batch d decode hw fill host request g))"
  using argon2_host.batch_keeps[OF assms(2,1,4)] assms(3) unfolding keeps_def by blast

theorem gpu_batch_keeps_pool_witness:
  "gpu_ok (snd (run_batch (demo_driver\<lparr> dr_fail := (\<lambda>k. if k = 14 then Some NoKernel else None) \<rparr>) demo_decode 8
     (cpu_fill device_blake2 4 host_new []) (host_finalize device_blake2) demo_request \<lparr> g_calls = 0, g_runner = None \<rparr>))"
  by (rule gpu_batch_keeps_pool[OF _ demo_host idle_ok])
    (auto simp: driver_ok_def demo_driver_def demo_request_def batch_request_new_def)

text \<open>C10.  Splitting the finalize pass over threads changes nothing: any number of workers answers what one
  worker answers, error for error, except that a worker's panic is reported as an error.\<close>

theorem finalize_parallel_is_serial:
  assumes "1 < workers" "1 < length (br_passwords request)"
  shows "finalize_batch request host blocks workers = map_err panic_to_error (finalize_batch request host blocks 1)"
  by (rule finalize_split[OF assms])

text \<open>Three jobs whose reductions panic, on two workers.\<close>

theorem finalize_parallel_is_serial_witness:
  "finalize_batch demo_request (\<lambda>block n. Inl (Host_Panic ''boom'')) (replicate 3072 0) 2
   = Inl (Fin_Err (Gpu_Host ''a finalize worker panicked''))"
proof -
  have "chunks 1024 (replicate 3072 0 :: bytes) \<noteq> []"
    using length_chunks[of 1024 "replicate 3072 (0 :: u8)" 3] by auto
  then obtain b bs where "chunks 1024 (replicate 3072 0 :: bytes) = b # bs" by (cases "chunks 1024 (replicate 3072 0 :: bytes)") auto
  then have "finalize_batch demo_request (\<lambda>block n. Inl (Host_Panic ''boom'')) (replicate 3072 0) 1 = Inl (Fin_Panic ''boom'')"
    by (simp add: finalize_batch_def finalize_range_def ARGON2_BLOCK_SIZE_def demo_request_def batch_request_new_def Let_def)
  then show ?thesis
    using finalize_parallel_is_serial[of 2 demo_request "\<lambda>block n. Inl (Host_Panic ''boom'')" "replicate 3072 0"]
    by (simp add: demo_request_def batch_request_new_def)
qed

end
