(* ===== verification/Hash_Api.thy ===== *)
theory Hash_Api
  imports Gpu_Hash
begin

text \<open>
  The hashing interface and its CPU backend: \<^verbatim>\<open>tm-argon2/src/types.rs\<close>, \<^verbatim>\<open>validation.rs\<close>,
  \<^verbatim>\<open>keygen.rs\<close> and \<^verbatim>\<open>cpu.rs\<close>.  The \<^verbatim>\<open>argon2\<close> crate and the random generator are parameters:
  \<open>argon2\<close> answers a password, a salt and a memory cost, \<open>rng\<close> is the sequence of 64-bit words one
  generator draws.  Timings are left out.
\<close>

subsection \<open>Requests and results\<close>

definition HASH_API_KEY_LENGTH :: nat where "HASH_API_KEY_LENGTH = 64"
definition MAX_TARGET_PATTERN_LENGTH :: nat where "MAX_TARGET_PATTERN_LENGTH = 128"
definition MAX_CPU_BATCH_SIZE :: nat where "MAX_CPU_BATCH_SIZE = 10000"
definition MIN_ARGON2_CPU_DIFFICULTY :: nat where "MIN_ARGON2_CPU_DIFFICULTY = 8"
definition DEFAULT_ALGORITHM :: string where "DEFAULT_ALGORITHM = ''argon2id-xen''"
definition DEFAULT_TARGET_PATTERN :: string where "DEFAULT_TARGET_PATTERN = ''XEN11''"

record hash_request =
  hq_request_id :: string
  hq_algorithm :: string
  hq_backend :: string
  hq_salt_hex :: string
  hq_key :: string
  hq_key_prefix :: string
  hq_target_pattern :: string
  hq_difficulty :: nat
  hq_batch_size :: nat
  hq_device_id :: int
  hq_allow_xuni :: bool
  hq_detailed_timings :: bool
  hq_first_block_workers :: nat
  hq_first_block_dynamic_chunk_size :: nat
  hq_first_block_dynamic_chunk_auto :: bool
  hq_gpu_first_blocks :: bool

definition hash_request_default :: hash_request where
  "hash_request_default =
     \<lparr> hq_request_id = [], hq_algorithm = DEFAULT_ALGORITHM, hq_backend = ''cpu'', hq_salt_hex = [], hq_key = [],
       hq_key_prefix = [], hq_target_pattern = DEFAULT_TARGET_PATTERN, hq_difficulty = 42069, hq_batch_size = 1,
       hq_device_id = 0, hq_allow_xuni = True, hq_detailed_timings = False, hq_first_block_workers = 0,
       hq_first_block_dynamic_chunk_size = 0, hq_first_block_dynamic_chunk_auto = False, hq_gpu_first_blocks = False \<rparr>"

record hash_match =
  hm_key :: string
  hm_hash :: string
  hm_matched_pattern :: string
  hm_attempt_index :: nat
  hm_is_superblock :: bool

record hash_result =
  hs_request_id :: string
  hs_ok :: bool
  hs_error :: string
  hs_algorithm :: string
  hs_backend :: string
  hs_device_id :: int
  hs_batch_size :: nat
  hs_batch_size_min :: nat
  hs_batch_size_max :: nat
  hs_attempts :: nat
  hs_hash :: string
  hs_matches :: "hash_match list"

subsection \<open>Validation\<close>

definition is_hex_string :: "string \<Rightarrow> bool" where
  "is_hex_string s \<longleftrightarrow> list_all is_ascii_hexdigit s"

definition normalize_hex :: "string \<Rightarrow> string" where
  "normalize_hex s =
     map to_ascii_lower (if starts_with s ''0x'' then drop 2 s else if starts_with s ''0X'' then drop 2 s else s)"

definition is_supported_algorithm :: "string \<Rightarrow> bool" where
  "is_supported_algorithm algorithm \<longleftrightarrow> algorithm = DEFAULT_ALGORITHM"

definition is_supported_backend :: "string \<Rightarrow> bool" where
  "is_supported_backend backend \<longleftrightarrow> backend \<in> {''cpu'', ''reference'', ''cuda''}"

text \<open>The messages in the order they are pushed; the empty list is \<^verbatim>\<open>Ok\<close>.\<close>

definition validate_request :: "hash_request \<Rightarrow> string list" where
  "validate_request request =
     (let salt = normalize_hex (hq_salt_hex request);
          prefix = normalize_hex (hq_key_prefix request);
          key = normalize_hex (hq_key request);
          push = (\<lambda>c (m::string). if c then [m] else [])
      in push (\<not> is_supported_algorithm (hq_algorithm request)) (''unsupported algorithm: '' @ hq_algorithm request)
         @ push (\<not> is_supported_backend (hq_backend request)) (''unsupported backend: '' @ hq_backend request)
         @ (if salt = [] then [''salt_hex is required'']
            else push (length salt mod 2 \<noteq> 0) ''salt_hex must contain an even number of hex characters''
                 @ push (length salt < 16) ''salt_hex must be at least 16 hex characters''
                 @ push (\<not> is_hex_string salt) ''salt_hex must contain only hex characters'')
         @ (if prefix = [] then []
            else push (HASH_API_KEY_LENGTH < length prefix) ''key_prefix cannot exceed 64 hex characters''
                 @ push (\<not> is_hex_string prefix) ''key_prefix must contain only hex characters'')
         @ (if key = [] then []
            else push (length key \<noteq> HASH_API_KEY_LENGTH) ''key must contain exactly 64 hex characters''
                 @ push (\<not> is_hex_string key) ''key must contain only hex characters''
                 @ push (prefix \<noteq> [] \<and> \<not> starts_with key prefix) ''key must start with key_prefix when both are provided'')
         @ push (hq_target_pattern request = []) ''target_pattern is required''
         @ push (MAX_TARGET_PATTERN_LENGTH < length (hq_target_pattern request)) ''target_pattern is too long''
         @ push (hq_difficulty request = 0) ''difficulty must be greater than zero''
         @ push (hq_batch_size request = 0) ''batch_size must be greater than zero''
         @ push ((hq_backend request = ''cpu'' \<or> hq_backend request = ''reference'')
                 \<and> MAX_CPU_BATCH_SIZE < hq_batch_size request) ''cpu batch_size exceeds safe limit''
         @ push (hq_device_id request < 0) ''device_id must be non-negative''
         @ push (hq_gpu_first_blocks request \<and> hq_backend request \<noteq> ''cuda'') ''gpu_first_blocks requires backend=cuda'')"

definition is_valid_request :: "hash_request \<Rightarrow> bool" where
  "is_valid_request request \<longleftrightarrow> validate_request request = []"

text \<open>\<^verbatim>\<open>messages.join("; ")\<close>.\<close>

fun join_errors :: "string list \<Rightarrow> string" where
  "join_errors [] = []"
| "join_errors [m] = m"
| "join_errors (m # ms) = m @ ''; '' @ join_errors ms"

subsection \<open>Keys\<close>

definition HEX_CHARS :: string where "HEX_CHARS = ''0123456789abcdef''"

record key_generator =
  kg_prefix :: string
  kg_total_length :: nat
  kg_drawn :: nat

definition key_generator_new :: "string \<Rightarrow> nat \<Rightarrow> key_generator" where
  "key_generator_new initial_prefix key_length =
     \<lparr> kg_prefix = map to_ascii_lower initial_prefix, kg_total_length = key_length, kg_drawn = 0 \<rparr>"

definition set_prefix :: "string \<Rightarrow> key_generator \<Rightarrow> key_generator" where
  "set_prefix new_prefix g = g\<lparr> kg_prefix := map to_ascii_lower new_prefix \<rparr>"

unbundle bit_operations_syntax

fun push_nibbles :: "nat \<Rightarrow> nat \<Rightarrow> u64 \<Rightarrow> string \<Rightarrow> string" where
  "push_nibbles 0 key_len random_bits key = key"
| "push_nibbles (Suc n) key_len random_bits key =
     (if key_len \<le> length key then key
      else push_nibbles n key_len (drop_bit 4 random_bits) (key @ [HEX_CHARS ! unat (random_bits AND 0x0f)]))"

lemma length_push_nibbles: "length (push_nibbles n key_len bits key) = max (length key) (min key_len (length key + n))"
  by (induction n key_len bits key rule: push_nibbles.induct) auto

function fill_key :: "(nat \<Rightarrow> u64) \<Rightarrow> nat \<Rightarrow> nat \<Rightarrow> string \<Rightarrow> string \<times> nat" where
  "fill_key rng key_len drawn key =
     (if key_len \<le> length key then (key, drawn)
      else fill_key rng key_len (Suc drawn) (push_nibbles 16 key_len (rng drawn) key))"
  by pat_completeness auto
termination
  by (relation "measure (\<lambda>(rng, key_len, drawn, key). key_len - length key)") (auto simp: length_push_nibbles)

declare fill_key.simps [simp del]

text \<open>Slicing a \<^verbatim>\<open>String\<close> inside a UTF-8 sequence panics: the byte at the cut must not be a
  continuation byte.\<close>

definition is_char_boundary :: "string \<Rightarrow> nat \<Rightarrow> bool" where
  "is_char_boundary s n \<longleftrightarrow> n = length s \<or> n < length s \<and> \<not> (128 \<le> byte_of (s ! n) \<and> byte_of (s ! n) < 192)"

definition next_random_key :: "(nat \<Rightarrow> u64) \<Rightarrow> key_generator \<Rightarrow> string option \<times> key_generator" where
  "next_random_key rng g =
     (if kg_total_length g \<le> length (kg_prefix g) then
        (if is_char_boundary (kg_prefix g) (kg_total_length g) then (Some (take (kg_total_length g) (kg_prefix g)), g)
         else (None, g))
      else (case fill_key rng (kg_total_length g) (kg_drawn g) (kg_prefix g) of
              (key, drawn) \<Rightarrow> (Some key, g\<lparr> kg_drawn := drawn \<rparr>)))"

subsection \<open>The CPU backend\<close>

datatype hash_error = Hash_Salt hex_error | Hash_Params string | Hash_Failed string

fun hash_error_text :: "hash_error \<Rightarrow> string" where
  "hash_error_text (Hash_Salt e) = ''salt_hex is not valid hex: '' @ hex_error_text e"
| "hash_error_text (Hash_Params e) = ''argon2 rejected the parameters: '' @ e"
| "hash_error_text (Hash_Failed e) = ''argon2 failed: '' @ e"

text \<open>The crate's two calls: the parameters (memory cost) may be refused, and so may the hash.\<close>

record argon2_crate_fn =
  a2_params :: "nat \<Rightarrow> string option"
  a2_hash :: "nat \<Rightarrow> bytes \<Rightarrow> bytes \<Rightarrow> string + bytes"

definition argon2id_digest :: "argon2_crate_fn \<Rightarrow> bytes \<Rightarrow> bytes \<Rightarrow> nat \<Rightarrow> hash_error + bytes" where
  "argon2id_digest argon2 salt password difficulty =
     (case a2_params argon2 difficulty of
        Some e \<Rightarrow> Inl (Hash_Params e)
      | None \<Rightarrow> map_err Hash_Failed (a2_hash argon2 difficulty password salt))"

definition argon2id_phc ::
  "(string \<Rightarrow> bytes option) \<Rightarrow> argon2_crate_fn \<Rightarrow> string \<Rightarrow> string \<Rightarrow> nat \<Rightarrow> hash_error + string" where
  "argon2id_phc decode argon2 salt_hex key difficulty =
     (let salt_hex = normalize_hex salt_hex
      in rbind (map_err Hash_Salt (hex_to_bytes decode salt_hex)) (\<lambda>salt_bytes.
         rbind (argon2id_digest argon2 salt_bytes (as_bytes key) difficulty) (\<lambda>digest.
         map_err Hash_Salt (assemble_phc decode difficulty salt_hex (base64_encode digest)))))"

definition cpu_append_matches ::
  "hash_request \<Rightarrow> hash_match list \<Rightarrow> string \<Rightarrow> string \<Rightarrow> nat \<Rightarrow> hash_match list" where
  "cpu_append_matches request matches key hash attempt_index =
     (let matches =
        (if str_contains hash (hq_target_pattern request) then
           matches @ [\<lparr> hm_key = key, hm_hash = hash, hm_matched_pattern = hq_target_pattern request,
             hm_attempt_index = attempt_index, hm_is_superblock = is_superblock_hash hash \<rparr>]
         else matches)
      in if hq_allow_xuni request \<and> has_xuni_match hash then
           matches @ [\<lparr> hm_key = key, hm_hash = hash, hm_matched_pattern = ''XUNI'',
             hm_attempt_index = attempt_index, hm_is_superblock = False \<rparr>]
         else matches)"

text \<open>The attempts from \<open>index\<close> on; \<open>None\<close> is the panic of the key generator.\<close>

fun cpu_attempts ::
  "(string \<Rightarrow> bytes option) \<Rightarrow> argon2_crate_fn \<Rightarrow> (nat \<Rightarrow> u64) \<Rightarrow> hash_request \<Rightarrow> bytes \<Rightarrow> nat \<Rightarrow> nat
   \<Rightarrow> key_generator \<Rightarrow> hash_result \<Rightarrow> (string \<times> hash_result + hash_result) option" where
  "cpu_attempts decode argon2 rng request salt_bytes 0 index g result = Some (Inr result)"
| "cpu_attempts decode argon2 rng request salt_bytes (Suc n) index g result =
     (let salt_hex = normalize_hex (hq_salt_hex request);
          fixed_key = normalize_hex (hq_key request);
          single_key = (fixed_key \<noteq> [])
      in case (if single_key then (Some fixed_key, g) else next_random_key rng g) of
           (None, g) \<Rightarrow> None
         | (Some key, g) \<Rightarrow>
             (case argon2id_digest argon2 salt_bytes (as_bytes key) (hq_difficulty request) of
                Inl e \<Rightarrow> Some (Inl (hash_error_text e, result))
              | Inr digest \<Rightarrow>
                  (case assemble_phc decode (hq_difficulty request) salt_hex (base64_encode digest) of
                     Inl e \<Rightarrow> Some (Inl (hash_error_text (Hash_Salt e), result))
                   | Inr hash \<Rightarrow>
                       cpu_attempts decode argon2 rng request salt_bytes n (Suc index) g
                         (result\<lparr> hs_hash := (if single_key then hash else hs_hash result),
                                 hs_matches := cpu_append_matches request (hs_matches result) key hash index \<rparr>))))"

definition cpu_run_batch ::
  "(string \<Rightarrow> bytes option) \<Rightarrow> argon2_crate_fn \<Rightarrow> (nat \<Rightarrow> u64) \<Rightarrow> hash_request \<Rightarrow> hash_result option" where
  "cpu_run_batch decode argon2 rng request =
     (let result = \<lparr> hs_request_id = hq_request_id request, hs_ok = False, hs_error = [], hs_algorithm = hq_algorithm request,
            hs_backend = (if hq_backend request = ''reference'' then ''reference'' else ''cpu''),
            hs_device_id = hq_device_id request, hs_batch_size = hq_batch_size request, hs_batch_size_min = 0,
            hs_batch_size_max = 0, hs_attempts = 0, hs_hash = [], hs_matches = [] \<rparr>
      in if validate_request request \<noteq> [] then Some (result\<lparr> hs_error := join_errors (validate_request request) \<rparr>)
         else if hq_backend request = ''cuda'' then
           Some (result\<lparr> hs_error := ''cuda backend is not available in CpuHashBackend'' \<rparr>)
         else if hq_difficulty request < MIN_ARGON2_CPU_DIFFICULTY then
           Some (result\<lparr> hs_error := ''cpu/reference difficulty must be at least 8'' \<rparr>)
         else
           (let salt_hex = normalize_hex (hq_salt_hex request);
                attempts = (if normalize_hex (hq_key request) \<noteq> [] then 1 else hq_batch_size request)
            in case hex_to_bytes decode salt_hex of
                 Inl e \<Rightarrow> Some (result\<lparr> hs_error := hash_error_text (Hash_Salt e) \<rparr>)
               | Inr salt_bytes \<Rightarrow>
                   (case cpu_attempts decode argon2 rng request salt_bytes attempts 0
                           (key_generator_new (normalize_hex (hq_key_prefix request)) HASH_API_KEY_LENGTH) result of
                      None \<Rightarrow> None
                    | Some (Inl (e, result)) \<Rightarrow> Some (result\<lparr> hs_error := e \<rparr>)
                    | Some (Inr result) \<Rightarrow>
                        Some (result\<lparr> hs_ok := True, hs_attempts := attempts, hs_batch_size := attempts,
                                hs_batch_size_min := attempts, hs_batch_size_max := attempts \<rparr>))))"

subsection \<open>What the crates promise\<close>

fun hex_bytes :: "string \<Rightarrow> bytes" where
  "hex_bytes (a # b # s) = of_nat (16 * the (to_digit16 a) + the (to_digit16 b)) # hex_bytes s"
| "hex_bytes _ = []"

lemma length_hex_bytes: "length (hex_bytes s) = length s div 2"
  by (induction s rule: hex_bytes.induct) auto

locale hex_crate =
  fixes decode :: "string \<Rightarrow> bytes option"
  assumes decodes: "even (length s) \<Longrightarrow> list_all is_ascii_hexdigit s \<Longrightarrow> decode s = Some (hex_bytes s)"
begin

lemma salt_decodes: "length s mod 2 = 0 \<Longrightarrow> is_hex_string s \<Longrightarrow> hex_to_bytes decode s = Inr (hex_bytes s)"
  by (simp add: hex_to_bytes_def is_hex_string_def decodes even_iff_mod_2_eq_zero)

end

text \<open>Argon2id of RFC 9106 from eight KiB and eight salt bytes up.\<close>

locale argon2_crate =
  fixes argon2 :: argon2_crate_fn
  assumes accepts: "8 \<le> m \<Longrightarrow> m < 2 ^ 32 \<Longrightarrow> a2_params argon2 m = None"
    and hashes: "8 \<le> m \<Longrightarrow> m < 2 ^ 32 \<Longrightarrow> 8 \<le> length salt \<Longrightarrow> length salt < 2 ^ 32 \<Longrightarrow> length password < 2 ^ 32 \<Longrightarrow>
      a2_hash argon2 m password salt = Inr (argon2id password salt (shape_for_difficulty m))"
begin

lemma digest_ok:
  "8 \<le> m \<Longrightarrow> m < 2 ^ 32 \<Longrightarrow> 8 \<le> length salt \<Longrightarrow> length salt < 2 ^ 32 \<Longrightarrow> length password < 2 ^ 32 \<Longrightarrow>
   argon2id_digest argon2 salt password m = Inr (argon2id password salt (shape_for_difficulty m))"
  by (simp add: argon2id_digest_def accepts hashes)

end

definition hex_decode :: "string \<Rightarrow> bytes option" where
  "hex_decode s = (if even (length s) \<and> list_all is_ascii_hexdigit s then Some (hex_bytes s) else None)"

definition rfc_argon2 :: argon2_crate_fn where
  "rfc_argon2 =
     \<lparr> a2_params = (\<lambda>m. if m < 8 then Some ''memory cost is too small'' else None),
       a2_hash = (\<lambda>m password salt. if length salt < 8 then Inl ''salt is too short''
         else Inr (argon2id password salt (shape_for_difficulty m))) \<rparr>"

interpretation hx: hex_crate hex_decode
  by unfold_locales (simp add: hex_decode_def)

interpretation rfc: argon2_crate rfc_argon2
  by unfold_locales (simp_all add: rfc_argon2_def)

subsection \<open>Lemmas\<close>

lemma valid_request_facts:
  assumes "validate_request request = []"
  defines "salt \<equiv> normalize_hex (hq_salt_hex request)" and "prefix \<equiv> normalize_hex (hq_key_prefix request)"
    and "key \<equiv> normalize_hex (hq_key request)"
  shows "16 \<le> length salt" "length salt mod 2 = 0" "is_hex_string salt"
    and "length prefix \<le> 64" "is_hex_string prefix"
    and "key \<noteq> [] \<Longrightarrow> length key = 64 \<and> is_hex_string key"
    and "0 < hq_difficulty request" "0 < hq_batch_size request" "hq_target_pattern request \<noteq> []"
    and "hq_backend request \<in> {''cpu'', ''reference'', ''cuda''}"
  using assms(1) unfolding validate_request_def Let_def salt_def[symmetric] prefix_def[symmetric] key_def[symmetric]
  by (auto simp: is_supported_backend_def is_hex_string_def HASH_API_KEY_LENGTH_def split: if_splits)

lemma hex_chars_lower:
  assumes "i < 16"
  shows "is_ascii_hexdigit (HEX_CHARS ! i) \<and> to_ascii_lower (HEX_CHARS ! i) = HEX_CHARS ! i"
proof -
  have "list_all (\<lambda>c. is_ascii_hexdigit c \<and> to_ascii_lower c = c) HEX_CHARS"
    by (simp add: HEX_CHARS_def is_ascii_hexdigit_def is_ascii_digit_def to_ascii_lower_def is_ascii_uppercase_def byte_of_def)
  moreover have "length HEX_CHARS = 16" by (simp add: HEX_CHARS_def)
  ultimately show ?thesis using assms by (simp add: list_all_length)
qed

lemma nibble_bound: "unat ((w::u64) AND 0x0f) < 16"
proof -
  have "unat (w AND 0x0f) \<le> unat (0x0f :: u64)" by (rule word_le_nat_alt[THEN iffD1]) (rule word_and_le1)
  then show ?thesis by simp
qed

definition lower_hex :: "string \<Rightarrow> bool" where
  "lower_hex s \<longleftrightarrow> list_all (\<lambda>c. is_ascii_hexdigit c \<and> to_ascii_lower c = c) s"

lemma push_nibbles_suffix:
  "\<exists>t. push_nibbles n key_len bits key = key @ t \<and> lower_hex t"
proof (induction n key_len bits key rule: push_nibbles.induct)
  case (2 n key_len bits key)
  show ?case
  proof (cases "key_len \<le> length key")
    case False
    then obtain t where "push_nibbles n key_len (drop_bit 4 bits) (key @ [HEX_CHARS ! unat (bits AND 0x0f)])
        = (key @ [HEX_CHARS ! unat (bits AND 0x0f)]) @ t" "lower_hex t" using 2 by blast
    then show ?thesis using False hex_chars_lower[OF nibble_bound[of bits]] by (simp add: lower_hex_def)
  qed (simp add: lower_hex_def)
qed (simp add: lower_hex_def)

lemma fill_key_shape:
  "length key \<le> key_len \<Longrightarrow> \<exists>t drawn'. fill_key rng key_len drawn key = (key @ t, drawn') \<and> lower_hex t \<and> length (key @ t) = key_len"
proof (induction rng key_len drawn key rule: fill_key.induct)
  case (1 rng key_len drawn key)
  show ?case
  proof (cases "key_len \<le> length key")
    case True
    then have "fill_key rng key_len drawn key = (key @ [], drawn)" by (subst fill_key.simps) simp
    then show ?thesis using "1.prems" True by (intro exI[of _ "[]"] exI[of _ drawn]) (simp add: lower_hex_def)
  next
    case False
    obtain u where u: "push_nibbles 16 key_len (rng drawn) key = key @ u" "lower_hex u" using push_nibbles_suffix by blast
    have "length (push_nibbles 16 key_len (rng drawn) key) \<le> key_len" using False by (simp add: length_push_nibbles)
    from "1.IH"[OF False this] u obtain t drawn' where
      "fill_key rng key_len (Suc drawn) (key @ u) = ((key @ u) @ t, drawn')" "lower_hex t" "length ((key @ u) @ t) = key_len" by auto
    then show ?thesis using False u by (simp add: fill_key.simps[of rng key_len drawn key] lower_hex_def)
  qed
qed

text \<open>A key of the network: 64 hex characters that start with the requested prefix.\<close>

definition key_ok :: "string \<Rightarrow> string \<Rightarrow> bool" where
  "key_ok prefix key \<longleftrightarrow> length key = 64 \<and> is_hex_string key \<and> starts_with key prefix"

lemma next_key_ok:
  assumes "length (kg_prefix g) \<le> 64" "is_hex_string (kg_prefix g)" "kg_total_length g = 64"
  shows "\<exists>key drawn. next_random_key rng g = (Some key, g\<lparr> kg_drawn := drawn \<rparr>) \<and> key_ok (kg_prefix g) key"
proof (cases "64 \<le> length (kg_prefix g)")
  case True
  then have "length (kg_prefix g) = 64" using assms(1) by simp
  then have "next_random_key rng g = (Some (kg_prefix g), g\<lparr> kg_drawn := kg_drawn g \<rparr>) \<and> key_ok (kg_prefix g) (kg_prefix g)"
    using assms by (auto simp: next_random_key_def is_char_boundary_def key_ok_def starts_with_iff)
  then show ?thesis by blast
next
  case False
  obtain t drawn' where f: "fill_key rng 64 (kg_drawn g) (kg_prefix g) = (kg_prefix g @ t, drawn')" "lower_hex t"
    "length (kg_prefix g @ t) = 64" using fill_key_shape[OF assms(1)] by blast
  then have "key_ok (kg_prefix g) (kg_prefix g @ t)" using assms(2)
    by (auto simp: key_ok_def starts_with_iff is_hex_string_def lower_hex_def list_all_iff)
  moreover have "next_random_key rng g = (Some (kg_prefix g @ t), g\<lparr> kg_drawn := drawn' \<rparr>)"
    using f False assms(3) by (simp add: next_random_key_def)
  ultimately show ?thesis by blast
qed

fun next_keys :: "(nat \<Rightarrow> u64) \<Rightarrow> nat \<Rightarrow> key_generator \<Rightarrow> (string list \<times> key_generator) option" where
  "next_keys rng 0 g = Some ([], g)"
| "next_keys rng (Suc n) g =
     (case next_random_key rng g of
        (None, g) \<Rightarrow> None
      | (Some key, g) \<Rightarrow> map_option (\<lambda>(keys, g). (key # keys, g)) (next_keys rng n g))"

lemma next_keys_ok:
  assumes "length (kg_prefix g) \<le> 64" "is_hex_string (kg_prefix g)" "kg_total_length g = 64"
  shows "\<exists>keys g'. next_keys rng n g = Some (keys, g') \<and> length keys = n \<and> (\<forall>key\<in>set keys. key_ok (kg_prefix g) key)"
  using assms
proof (induction n arbitrary: g)
  case (Suc n)
  obtain key drawn where k: "next_random_key rng g = (Some key, g\<lparr> kg_drawn := drawn \<rparr>)" "key_ok (kg_prefix g) key"
    using next_key_ok[OF Suc.prems] by blast
  from Suc.IH[of "g\<lparr> kg_drawn := drawn \<rparr>"] Suc.prems obtain keys g' where
    "next_keys rng n (g\<lparr> kg_drawn := drawn \<rparr>) = Some (keys, g')" "length keys = n" "\<forall>key\<in>set keys. key_ok (kg_prefix g) key"
    by auto
  then show ?case using k by simp
qed simp

lemma normalize_lower: "map to_ascii_lower (normalize_hex s) = normalize_hex s"
  by (auto simp: normalize_hex_def to_ascii_lower_def is_ascii_uppercase_def byte_of_def)

definition phc_text :: "nat \<Rightarrow> bytes \<Rightarrow> bytes \<Rightarrow> string" where
  "phc_text m salt digest =
     ''$argon2id$v=19$m='' @ show_nat m @ '',t=1,p=1$'' @ base64_encode salt @ ''$'' @ base64_encode digest"

definition request_salt :: "hash_request \<Rightarrow> bytes" where
  "request_salt request = hex_bytes (normalize_hex (hq_salt_hex request))"

definition key_phc :: "hash_request \<Rightarrow> string \<Rightarrow> string" where
  "key_phc request key = phc_text (hq_difficulty request) (request_salt request)
     (argon2id (as_bytes key) (request_salt request) (shape_for_difficulty (hq_difficulty request)))"

definition cpu_matches :: "hash_request \<Rightarrow> nat \<Rightarrow> string list \<Rightarrow> hash_match list" where
  "cpu_matches request index keys =
     concat (map (\<lambda>(i, key). cpu_append_matches request [] key (key_phc request key) i) (enumerate index keys))"

lemma cpu_append_acc: "cpu_append_matches request ms key hash i = ms @ cpu_append_matches request [] key hash i"
  by (simp add: cpu_append_matches_def Let_def)

lemma attempt_facts:
  assumes crate: "argon2_crate argon2" "hex_crate decode" and valid: "validate_request request = []"
    and m: "8 \<le> hq_difficulty request" "hq_difficulty request < 2 ^ 32" and salt: "length (hq_salt_hex request) < 2 ^ 32"
    and key: "length key = 64"
  shows "hex_to_bytes decode (normalize_hex (hq_salt_hex request)) = Inr (request_salt request)"
    and "argon2id_digest argon2 (request_salt request) (as_bytes key) (hq_difficulty request)
      = Inr (argon2id (as_bytes key) (request_salt request) (shape_for_difficulty (hq_difficulty request)))"
    and "assemble_phc decode (hq_difficulty request) (normalize_hex (hq_salt_hex request))
      (base64_encode (argon2id (as_bytes key) (request_salt request) (shape_for_difficulty (hq_difficulty request))))
      = Inr (key_phc request key)"
proof -
  note v = valid_request_facts[OF valid]
  have "length (normalize_hex (hq_salt_hex request)) \<le> length (hq_salt_hex request)" by (simp add: normalize_hex_def)
  then have s32: "length (request_salt request) < 2 ^ 32"
    using salt div_le_dividend[of "length (normalize_hex (hq_salt_hex request))" 2]
    by (simp add: request_salt_def length_hex_bytes)
  have s8: "8 \<le> length (request_salt request)" using v(1) div_le_mono[of 16 _ 2] by (simp add: request_salt_def length_hex_bytes)
  show h: "hex_to_bytes decode (normalize_hex (hq_salt_hex request)) = Inr (request_salt request)"
    using hex_crate.salt_decodes[OF crate(2) v(2,3)] by (simp add: request_salt_def)
  show "argon2id_digest argon2 (request_salt request) (as_bytes key) (hq_difficulty request)
      = Inr (argon2id (as_bytes key) (request_salt request) (shape_for_difficulty (hq_difficulty request)))"
    using key by (intro argon2_crate.digest_ok[OF crate(1) m s8 s32]) (simp add: as_bytes_def)
  show "assemble_phc decode (hq_difficulty request) (normalize_hex (hq_salt_hex request))
      (base64_encode (argon2id (as_bytes key) (request_salt request) (shape_for_difficulty (hq_difficulty request))))
      = Inr (key_phc request key)"
    using h by (simp add: assemble_phc_def key_phc_def phc_text_def)
qed

lemma attempts_ok:
  assumes ok: "argon2_crate argon2" "hex_crate decode" "validate_request request = []"
      "8 \<le> hq_difficulty request" "hq_difficulty request < 2 ^ 32" "length (hq_salt_hex request) < 2 ^ 32"
    and random: "normalize_hex (hq_key request) = []"
    and keys: "next_keys rng n g = Some (keys, g')" "\<forall>key\<in>set keys. length key = 64"
  shows "cpu_attempts decode argon2 rng request (request_salt request) n index g result
    = Some (Inr (result\<lparr> hs_matches := hs_matches result @ cpu_matches request index keys \<rparr>))"
  using keys
proof (induction n arbitrary: g index keys result)
  case 0
  then show ?case by (simp add: cpu_matches_def)
next
  case (Suc n)
  from Suc.prems obtain key g1 rest where k: "next_random_key rng g = (Some key, g1)" "keys = key # rest"
    "next_keys rng n g1 = Some (rest, g')" by (auto split: prod.splits option.splits)
  have len: "length key = 64" using Suc.prems(2) k(2) by simp
  note f = attempt_facts[OF ok len]
  have one: "cpu_matches request index (key # rest)
      = cpu_append_matches request [] key (key_phc request key) index @ cpu_matches request (Suc index) rest"
    by (simp add: cpu_matches_def)
  show ?case
    using Suc.IH[OF k(3), of "Suc index"] Suc.prems(2) k random
    by (simp add: f one cpu_append_acc[of request "hs_matches result"])
qed

text \<open>C33.  The CPU backend is exact: a valid CPU request at difficulty eight or more is answered without an
  error; every random key is 64 hex characters that start with the prefix, as many as asked for, and a
  given key is the only one; and the matches are exactly those of the PHC strings of Argon2id of
  RFC 9106 of the keys, in order.\<close>

theorem cpu_batch_exact:
  assumes "argon2_crate argon2" "hex_crate decode" "validate_request request = []"
    and "8 \<le> hq_difficulty request" "hq_difficulty request < 2 ^ 32" "length (hq_salt_hex request) < 2 ^ 32"
    and "hq_backend request \<noteq> ''cuda''"
  shows "\<exists>keys result. cpu_run_batch decode argon2 rng request = Some result
    \<and> (if normalize_hex (hq_key request) = []
       then length keys = hq_batch_size request \<and> list_all (key_ok (normalize_hex (hq_key_prefix request))) keys
       else keys = [normalize_hex (hq_key request)] \<and> hs_hash result = key_phc request (normalize_hex (hq_key request)))
    \<and> hs_ok result \<and> hs_error result = [] \<and> hs_attempts result = length keys
    \<and> hs_matches result = cpu_matches request 0 keys"
proof (cases "normalize_hex (hq_key request) = []")
  case True
  note v = valid_request_facts[OF assms(3)]
  let ?g = "key_generator_new (normalize_hex (hq_key_prefix request)) HASH_API_KEY_LENGTH"
  have g: "kg_prefix ?g = normalize_hex (hq_key_prefix request)" "kg_total_length ?g = 64"
    by (simp_all add: key_generator_new_def normalize_lower HASH_API_KEY_LENGTH_def)
  obtain keys g' where keys: "next_keys rng (hq_batch_size request) ?g = Some (keys, g')" "length keys = hq_batch_size request"
    "\<forall>key\<in>set keys. key_ok (normalize_hex (hq_key_prefix request)) key"
    using next_keys_ok[of ?g rng "hq_batch_size request"] v(4,5) g by auto
  then have "\<forall>key\<in>set keys. length key = 64" by (simp add: key_ok_def)
  note a = attempts_ok[OF assms(1-6) True keys(1) this]
  have "\<exists>result. cpu_run_batch decode argon2 rng request = Some result \<and> hs_ok result \<and> hs_error result = []
      \<and> hs_attempts result = hq_batch_size request \<and> hs_matches result = cpu_matches request 0 keys"
    using attempt_facts(1)[OF assms(1-6), of "replicate 64 undefined"] assms(3,4,7) True
    by (simp add: cpu_run_batch_def Let_def MIN_ARGON2_CPU_DIFFICULTY_def a)
  then show ?thesis using keys(2,3) True by (intro exI[of _ keys]) (simp add: list_all_iff)
next
  case False
  let ?key = "normalize_hex (hq_key request)"
  have "length ?key = 64" using valid_request_facts(6)[OF assms(3)] False by simp
  note f = attempt_facts[OF assms(1-6) this]
  have "\<exists>result. cpu_run_batch decode argon2 rng request = Some result \<and> hs_hash result = key_phc request ?key
      \<and> hs_ok result \<and> hs_error result = [] \<and> hs_attempts result = 1 \<and> hs_matches result = cpu_matches request 0 [?key]"
    using assms(3,4,7) False
    by (simp add: cpu_run_batch_def Let_def MIN_ARGON2_CPU_DIFFICULTY_def f cpu_matches_def)
  then show ?thesis using False by auto
qed

definition demo_hash_request :: hash_request where
  "demo_hash_request = hash_request_default\<lparr> hq_salt_hex := ''0Xabcdef0011223344'', hq_key_prefix := ''ffee'',
     hq_difficulty := 9, hq_batch_size := 2 \<rparr>"

theorem cpu_batch_exact_witness:
  "\<exists>keys result. cpu_run_batch hex_decode rfc_argon2 (\<lambda>n. of_nat n) demo_hash_request = Some result \<and> length keys = 2
    \<and> list_all (key_ok ''ffee'') keys \<and> hs_ok result \<and> hs_matches result = cpu_matches demo_hash_request 0 keys"
proof -
  have n: "normalize_hex (hq_key_prefix demo_hash_request) = ''ffee''" "normalize_hex (hq_key demo_hash_request) = []"
    "hq_batch_size demo_hash_request = 2" "hq_difficulty demo_hash_request = 9" "hq_backend demo_hash_request = ''cpu''"
    "length (hq_salt_hex demo_hash_request) = 18"
    by (simp_all add: demo_hash_request_def hash_request_default_def normalize_hex_def to_ascii_lower_def is_ascii_uppercase_def byte_of_def)
  have salt: "normalize_hex (hq_salt_hex demo_hash_request) = ''abcdef0011223344''"
    by (simp add: demo_hash_request_def normalize_hex_def to_ascii_lower_def is_ascii_uppercase_def byte_of_def)
  have "is_hex_string ''abcdef0011223344''" "is_hex_string ''ffee''"
    by (simp_all add: is_hex_string_def is_ascii_hexdigit_def is_ascii_digit_def byte_of_def)
  then have "validate_request demo_hash_request = []"
    unfolding validate_request_def Let_def salt n
    by (simp add: demo_hash_request_def hash_request_default_def is_supported_algorithm_def is_supported_backend_def
        HASH_API_KEY_LENGTH_def MAX_TARGET_PATTERN_LENGTH_def MAX_CPU_BATCH_SIZE_def DEFAULT_TARGET_PATTERN_def)
  from cpu_batch_exact[OF rfc.argon2_crate_axioms hx.hex_crate_axioms this, of "\<lambda>n. of_nat n"]
  show ?thesis by (simp add: n) blast
qed

end
