(* ===== verification/Sink_Text.thy ===== *)
theory Sink_Text
  imports Hash_Api Core_Types Clocktime Classifier
begin

text \<open>
  The text half of \<^verbatim>\<open>tm-journal/src/fallback.rs\<close>: how a find becomes one JSON line of the sink and
  how a line is read back.  The serde\_json parser and the printing and reading of a binary64 are
  parameters; what the import relies on is the locale \<open>serde_json\<close>, stated over the string
  grammar of RFC 8259 and interpreted here on a reference parser of flat objects.
\<close>

subsection \<open>Writing a line\<close>

definition hex4 :: "nat \<Rightarrow> string" where
  "hex4 n = [HEX_CHARS ! (n div 4096 mod 16), HEX_CHARS ! (n div 256 mod 16), HEX_CHARS ! (n div 16 mod 16),
     HEX_CHARS ! (n mod 16)]"

definition json_esc :: "char \<Rightarrow> string" where
  "json_esc c =
     (if c = quote then [backslash, quote]
      else if c = backslash then [backslash, backslash]
      else if c = CHR 0x08 then [backslash, CHR ''b'']
      else if c = CHR 0x0C then [backslash, CHR ''f'']
      else if c = CHR 0x0A then [backslash, CHR ''n'']
      else if c = CHR 0x0D then [backslash, CHR ''r'']
      else if c = CHR 0x09 then [backslash, CHR ''t'']
      else if byte_of c < 32 then [backslash, CHR ''u''] @ hex4 (byte_of c)
      else [c])"

definition push_json_string :: "string \<Rightarrow> string \<Rightarrow> string" where
  "push_json_string out value = out @ [quote] @ concat (map json_esc value) @ [quote]"

definition push_field :: "string \<Rightarrow> string \<Rightarrow> string \<Rightarrow> bool \<Rightarrow> string" where
  "push_field out key value first =
     (let out = (if \<not> first then out @ '','' else out);
          out = push_json_string out key;
          out = out @ '':''
      in push_json_string out value)"

definition push_raw_field :: "string \<Rightarrow> string \<Rightarrow> string \<Rightarrow> bool \<Rightarrow> string" where
  "push_raw_field out key literal first =
     (let out = (if \<not> first then out @ '','' else out);
          out = push_json_string out key;
          out = out @ '':''
      in out @ literal)"

text \<open>The last byte of a line is the newline; \<open>show_f64\<close> is \<^verbatim>\<open>{:?}\<close> on a binary64.\<close>

definition sink_serialize :: "(f64 \<Rightarrow> string) \<Rightarrow> found_payload \<Rightarrow> string" where
  "sink_serialize show_f64 payload =
     (let out = ''{'';
          out = push_field out ''key'' (p_key payload) True;
          out = push_field out ''hash_to_verify'' (p_hash_to_verify payload) False;
          out = push_field out ''account'' (p_account payload) False;
          out = push_field out ''kind'' (kind_as_str (p_kind payload)) False;
          out = push_raw_field out ''memory_cost'' (show_nat (p_memory_cost payload)) False;
          out = push_field out ''worker'' (p_worker payload) False;
          out = push_raw_field out ''attempts'' (show_nat (p_attempts payload)) False;
          rate = (if is_finite (p_hashes_per_second payload) then show_f64 (p_hashes_per_second payload) else ''0'');
          out = push_raw_field out ''hashes_per_second'' rate False;
          out = push_field out ''found_at_utc'' (p_found_at_utc payload) False
      in out @ ''}'' @ [CHR 0x0A])"

subsection \<open>Reading a line\<close>

text \<open>\<^verbatim>\<open>serde_json::Value\<close>; a number is the text its \<^verbatim>\<open>to_string\<close> gives.\<close>

datatype json = JNull | JBool bool | JNumber string | JString string | JArray "json list" | JObject "(string \<times> json) list"

fun is_structured :: "json \<Rightarrow> bool" where
  "is_structured (JArray _) = True"
| "is_structured (JObject _) = True"
| "is_structured _ = False"

fun json_text :: "json \<Rightarrow> string option" where
  "json_text (JString s) = Some s"
| "json_text (JNumber n) = Some n"
| "json_text _ = None"

definition member_text :: "(string \<times> json) list \<Rightarrow> string \<Rightarrow> string option" where
  "member_text members key = Option.bind (map_of members key) json_text"

definition parse_unsigned :: "nat \<Rightarrow> string \<Rightarrow> nat option" where
  "parse_unsigned w s =
     (case parse_digits (if s \<noteq> [] \<and> hd s = CHR ''+'' then tl s else s) of
        None \<Rightarrow> None
      | Some n \<Rightarrow> if n < 2 ^ w then Some n else None)"

definition members_payload :: "(string \<Rightarrow> f64 option) \<Rightarrow> (string \<times> json) list \<Rightarrow> found_payload option" where
  "members_payload parse_f64 members =
     Option.bind (Option.bind (member_text members ''memory_cost'') (parse_unsigned 32)) (\<lambda>memory_cost.
     Option.bind (Option.bind (member_text members ''attempts'') (parse_unsigned 64)) (\<lambda>attempts.
     Option.bind (Option.bind (member_text members ''hashes_per_second'') parse_f64) (\<lambda>hashes_per_second.
     Option.bind (member_text members ''key'') (\<lambda>key.
     Option.bind (member_text members ''hash_to_verify'') (\<lambda>hash_to_verify.
     Option.bind (member_text members ''account'') (\<lambda>account.
     Option.bind (Option.bind (member_text members ''kind'') kind_parse) (\<lambda>kind.
     Option.bind (member_text members ''worker'') (\<lambda>worker.
     Option.bind (member_text members ''found_at_utc'') (\<lambda>found_at_utc.
     Some \<lparr> p_key = key, p_hash_to_verify = hash_to_verify, p_account = account, p_kind = kind,
            p_memory_cost = memory_cost, p_worker = worker, p_attempts = attempts,
            p_hashes_per_second = hashes_per_second, p_found_at_utc = found_at_utc \<rparr>)))))))))"

definition parse_payload ::
  "(string \<Rightarrow> json option) \<Rightarrow> (string \<Rightarrow> f64 option) \<Rightarrow> string \<Rightarrow> found_payload option" where
  "parse_payload from_str parse_f64 line =
     (case from_str line of
        Some (JObject members) \<Rightarrow>
          if list_ex is_structured (map snd members) then None else members_payload parse_f64 members
      | _ \<Rightarrow> None)"

text \<open>\<^verbatim>\<open>std::str::from_utf8\<close>: the well-formed byte sequences of the Unicode standard, table 3-7.\<close>

definition utf8_tail :: "char \<Rightarrow> bool" where
  "utf8_tail c \<longleftrightarrow> 128 \<le> byte_of c \<and> byte_of c \<le> 191"

fun utf8_char :: "string \<Rightarrow> bool" where
  "utf8_char [a] = (byte_of a < 128)"
| "utf8_char [a, b] = (194 \<le> byte_of a \<and> byte_of a \<le> 223 \<and> utf8_tail b)"
| "utf8_char [a, b, c] =
     (utf8_tail b \<and> utf8_tail c \<and> 224 \<le> byte_of a \<and> byte_of a \<le> 239
      \<and> (byte_of a = 224 \<longrightarrow> 160 \<le> byte_of b) \<and> (byte_of a = 237 \<longrightarrow> byte_of b \<le> 159))"
| "utf8_char [a, b, c, d] =
     (utf8_tail b \<and> utf8_tail c \<and> utf8_tail d \<and> 240 \<le> byte_of a \<and> byte_of a \<le> 244
      \<and> (byte_of a = 240 \<longrightarrow> 144 \<le> byte_of b) \<and> (byte_of a = 244 \<longrightarrow> byte_of b \<le> 143))"
| "utf8_char _ = False"

fun valid_utf8 :: "string \<Rightarrow> bool" where
  "valid_utf8 [] = True"
| "valid_utf8 [a] = utf8_char [a]"
| "valid_utf8 [a, b] = (utf8_char [a] \<and> valid_utf8 [b] \<or> utf8_char [a, b])"
| "valid_utf8 [a, b, c] =
     (utf8_char [a] \<and> valid_utf8 [b, c] \<or> utf8_char [a, b] \<and> valid_utf8 [c] \<or> utf8_char [a, b, c])"
| "valid_utf8 (a # b # c # d # s) =
     (utf8_char [a] \<and> valid_utf8 (b # c # d # s) \<or> utf8_char [a, b] \<and> valid_utf8 (c # d # s)
      \<or> utf8_char [a, b, c] \<and> valid_utf8 (d # s) \<or> utf8_char [a, b, c, d] \<and> valid_utf8 s)"

text \<open>\<^verbatim>\<open>split\<close> at newlines: one piece more than there are newlines.\<close>

fun split_nl :: "string \<Rightarrow> string list" where
  "split_nl [] = [[]]"
| "split_nl (c # s) =
     (if c = CHR 0x0A then [] # split_nl s
      else (case split_nl s of [] \<Rightarrow> [[c]] | l # ls \<Rightarrow> (c # l) # ls))"

definition trim_line :: "string \<Rightarrow> string" where
  "trim_line raw =
     dropWhile (\<lambda>c. c \<in> {CHR '' '', CHR 0x09})
       (rev (dropWhile (\<lambda>c. c \<in> {CHR 0x0D, CHR 0x0A, CHR '' '', CHR 0x09}) (rev raw)))"

definition parse_line :: "(string \<Rightarrow> json option) \<Rightarrow> (string \<Rightarrow> f64 option) \<Rightarrow> string \<Rightarrow> found_payload option" where
  "parse_line from_str parse_f64 line = (if valid_utf8 line then parse_payload from_str parse_f64 line else None)"

subsection \<open>Lines and what they hold\<close>

definition line_payload :: "(string \<Rightarrow> json option) \<Rightarrow> (string \<Rightarrow> f64 option) \<Rightarrow> string \<Rightarrow> found_payload option" where
  "line_payload from_str parse_f64 raw =
     (if trim_line raw = [] then None else parse_line from_str parse_f64 (trim_line raw))"

definition sink_payloads :: "(string \<Rightarrow> json option) \<Rightarrow> (string \<Rightarrow> f64 option) \<Rightarrow> string \<Rightarrow> found_payload list" where
  "sink_payloads from_str parse_f64 c = List.map_filter (line_payload from_str parse_f64) (split_nl c)"

definition whole_lines :: "string \<Rightarrow> bool" where
  "whole_lines c \<longleftrightarrow> c = [] \<or> last c = CHR 0x0A"

lemma split_nl_nonempty [simp]: "split_nl c \<noteq> []"
  by (cases c) (auto split: list.splits)

lemma split_nl_append: "split_nl (a @ CHR 0x0A # b) = split_nl a @ split_nl b"
  by (induction a) (auto split: list.splits)

lemma split_nl_line: "CHR 0x0A \<notin> set l \<Longrightarrow> split_nl l = [l]"
  by (induction l) auto

lemma map_filter_append: "List.map_filter f (xs @ ys) = List.map_filter f xs @ List.map_filter f ys"
  by (simp add: List.map_filter_def)

lemma sink_payloads_nil [simp]: "sink_payloads from_str parse_f64 [] = []"
  by (simp add: sink_payloads_def List.map_filter_def line_payload_def trim_line_def)

lemma sink_payloads_append:
  "sink_payloads from_str parse_f64 (a @ CHR 0x0A # b) = sink_payloads from_str parse_f64 a @ sink_payloads from_str parse_f64 b"
  by (simp add: sink_payloads_def split_nl_append map_filter_append)

lemma sink_payloads_tail:
  assumes "whole_lines c" "CHR 0x0A \<notin> set l"
  shows "sink_payloads from_str parse_f64 (c @ l)
       = sink_payloads from_str parse_f64 c @ (case line_payload from_str parse_f64 l of None \<Rightarrow> [] | Some p \<Rightarrow> [p])"
proof -
  have one: "sink_payloads from_str parse_f64 l = (case line_payload from_str parse_f64 l of None \<Rightarrow> [] | Some p \<Rightarrow> [p])"
    using assms(2) by (auto simp: sink_payloads_def split_nl_line List.map_filter_def split: option.splits)
  show ?thesis
  proof (cases "c = []")
    case False
    then obtain c' where c: "c = c' @ CHR 0x0A # []" using assms(1) by (metis append_butlast_last_id whole_lines_def)
    show ?thesis using sink_payloads_append[of from_str parse_f64 c' l] sink_payloads_append[of from_str parse_f64 c' "[]"]
      by (simp add: c one)
  qed (simp add: one)
qed

lemma sink_payloads_line:
  assumes "whole_lines c" "CHR 0x0A \<notin> set l" "line_payload from_str parse_f64 l = Some p"
  shows "sink_payloads from_str parse_f64 (c @ l @ [CHR 0x0A]) = sink_payloads from_str parse_f64 c @ [p]"
  using sink_payloads_append[of from_str parse_f64 "c @ l" "[]"] sink_payloads_tail[OF assms(1,2), of from_str parse_f64] assms(3) by simp

subsection \<open>What is asked of the JSON parser\<close>

text \<open>The body of a string of RFC 8259 and the bytes it stands for (code escapes below U+0080 only).\<close>

inductive json_body :: "string \<Rightarrow> string \<Rightarrow> bool" where
  jb_end: "json_body [] []"
| jb_plain: "32 \<le> byte_of c \<Longrightarrow> c \<noteq> quote \<Longrightarrow> c \<noteq> backslash \<Longrightarrow> json_body t v \<Longrightarrow> json_body (c # t) (c # v)"
| jb_escape: "json_escape e = Some b \<Longrightarrow> json_body t v \<Longrightarrow> json_body (backslash # e # t) (b # v)"
| jb_code: "hex_code 0 [h1, h2, h3, h4] = Some code \<Longrightarrow> code < 128 \<Longrightarrow> json_body t v \<Longrightarrow>
    json_body (backslash # CHR ''u'' # h1 # h2 # h3 # h4 # t) (char_of code # v)"

definition number_char :: "char \<Rightarrow> bool" where
  "number_char c \<longleftrightarrow> is_ascii_digit c \<or> c \<in> set ''+-.eE''"

text \<open>A finite binary64 is a dyadic rational.\<close>

fun binary64 :: "f64 \<Rightarrow> bool" where
  "binary64 (Finite r) \<longleftrightarrow> (\<exists>k. snd (quotient_of r) = 2 ^ k)"
| "binary64 _ \<longleftrightarrow> False"

definition value_text :: "(f64 \<Rightarrow> string) \<Rightarrow> (f64 \<Rightarrow> string) \<Rightarrow> string \<Rightarrow> json \<Rightarrow> bool" where
  "value_text show_f64 number vt v \<longleftrightarrow>
     (\<exists>b s. vt = quote # b @ [quote] \<and> json_body b s \<and> v = JString s)
   \<or> (\<exists>n < 2 ^ 64. vt = show_nat n \<and> v = JNumber (show_nat n))
   \<or> (\<exists>f. binary64 f \<and> vt = show_f64 f \<and> v = JNumber (number f))"

definition member_is :: "(f64 \<Rightarrow> string) \<Rightarrow> (f64 \<Rightarrow> string) \<Rightarrow> string \<Rightarrow> string \<times> json \<Rightarrow> bool" where
  "member_is show_f64 number t m \<longleftrightarrow>
     (\<exists>kb vt. t = quote # kb @ quote # CHR '':'' # vt \<and> json_body kb (fst m) \<and> value_text show_f64 number vt (snd m))"

fun commas :: "string list \<Rightarrow> string" where
  "commas [] = []"
| "commas [t] = t"
| "commas (t # ts) = t @ CHR '','' # commas ts"

text \<open>
  \<^verbatim>\<open>from_str\<close> reads a compact object with distinct names as the members written in it.  A number
  written with \<^verbatim>\<open>{:?}\<close> comes back as a number whose own text reads as \<open>reread f\<close>: without its
  \<^verbatim>\<open>float_roundtrip\<close> feature serde\_json does not promise that this is \<open>f\<close> itself.
\<close>

locale serde_json =
  fixes from_str :: "string \<Rightarrow> json option" and show_f64 :: "f64 \<Rightarrow> string" and number :: "f64 \<Rightarrow> string"
    and parse_f64 :: "string \<Rightarrow> f64 option" and reread :: "f64 \<Rightarrow> f64"
  assumes object: "ts \<noteq> [] \<Longrightarrow> list_all2 (member_is show_f64 number) ts kvs \<Longrightarrow> distinct (map fst kvs) \<Longrightarrow>
      valid_utf8 (CHR ''{'' # commas ts @ ''}'') \<Longrightarrow>
      \<exists>m. from_str (CHR ''{'' # commas ts @ ''}'') = Some (JObject m) \<and> distinct (map fst m) \<and> map_of m = map_of kvs"
    and reads: "binary64 f \<Longrightarrow> parse_f64 (number f) = Some (reread f)"
    and reads_zero: "parse_f64 ''0'' = Some (Finite 0)"
    and writes: "binary64 f \<Longrightarrow> list_all number_char (show_f64 f)"

subsection \<open>A line reads back\<close>

lemma valid_utf8_append: "valid_utf8 s \<Longrightarrow> valid_utf8 t \<Longrightarrow> valid_utf8 (s @ t)"
proof (induction s rule: valid_utf8.induct)
  case (2 a)
  then show ?case by (cases t rule: valid_utf8.cases) (auto simp del: utf8_char.simps)
next
  case (3 a b)
  then show ?case by (cases t rule: valid_utf8.cases) (auto simp del: utf8_char.simps)
next
  case (4 a b c)
  then show ?case by (cases t rule: valid_utf8.cases) (auto simp del: utf8_char.simps)
qed (auto simp del: utf8_char.simps)

lemma valid_utf8_Cons: "byte_of a < 128 \<Longrightarrow> valid_utf8 s \<Longrightarrow> valid_utf8 (a # s)"
  using valid_utf8_append[of "[a]" s] by simp

lemma valid_utf8_ascii: "list_all (\<lambda>c. byte_of c < 128) s \<Longrightarrow> valid_utf8 s"
  by (induction s) (auto intro: valid_utf8_Cons)

lemma hex_char_props: "n < 16 \<Longrightarrow> to_digit16 (HEX_CHARS ! n) = Some n \<and> byte_of (HEX_CHARS ! n) < 128 \<and> 32 < byte_of (HEX_CHARS ! n)"
proof -
  have "\<forall>n \<in> set [0..<16]. to_digit16 (HEX_CHARS ! n) = Some n \<and> byte_of (HEX_CHARS ! n) < 128 \<and> 32 < byte_of (HEX_CHARS ! n)"
    by code_simp
  then show "n < 16 \<Longrightarrow> ?thesis" by simp
qed

lemma hex4_code: "n < 32 \<Longrightarrow> hex_code 0 (hex4 n) = Some n"
  by (simp add: hex4_def hex_char_props)

lemma esc_bytes [simp]:
  "byte_of quote = 34" "byte_of backslash = 92" "byte_of (CHR 0x08) = 8" "byte_of (CHR 0x0C) = 12" "byte_of (CHR 0x0A) = 10"
  "byte_of (CHR 0x0D) = 13" "byte_of (CHR 0x09) = 9"
  by (simp_all add: byte_of_def)

lemma json_esc_high: "128 \<le> byte_of c \<Longrightarrow> json_esc c = [c]"
proof -
  assume "128 \<le> byte_of c"
  then have "c \<notin> {quote, backslash, CHR 0x08, CHR 0x0C, CHR 0x0A, CHR 0x0D, CHR 0x09} \<and> \<not> byte_of c < 32"
    by auto
  then show ?thesis by (simp add: json_esc_def)
qed

text \<open>The three shapes an escaped byte takes.\<close>

lemma short_escape:
  "c \<in> {quote, backslash, CHR 0x08, CHR 0x0C, CHR 0x0A, CHR 0x0D, CHR 0x09} \<Longrightarrow>
   \<exists>e. json_esc c = [backslash, e] \<and> json_escape e = Some c \<and> 32 \<le> byte_of e \<and> byte_of e < 128"
  by (elim insertE emptyE) (simp_all add: json_esc_def json_escape_def byte_of_def)

lemma code_escape:
  "c \<notin> {quote, backslash, CHR 0x08, CHR 0x0C, CHR 0x0A, CHR 0x0D, CHR 0x09} \<Longrightarrow>
   json_esc c = (if byte_of c < 32 then backslash # CHR ''u'' # hex4 (byte_of c) else [c])"
  by (simp add: json_esc_def)

lemma hex_nibble: "32 \<le> byte_of (HEX_CHARS ! (m mod 16)) \<and> byte_of (HEX_CHARS ! (m mod 16)) < 128"
  using hex_char_props[of "m mod 16"] by simp

lemma hex4_chars: "x \<in> set (hex4 n) \<Longrightarrow> 32 \<le> byte_of x \<and> byte_of x < 128"
  unfolding hex4_def list.set by (elim insertE emptyE) (simp_all only: hex_nibble)

lemma json_esc_chars: "x \<in> set (json_esc c) \<Longrightarrow> 32 \<le> byte_of x \<and> (byte_of c < 128 \<longrightarrow> byte_of x < 128)"
proof (cases "c \<in> {quote, backslash, CHR 0x08, CHR 0x0C, CHR 0x0A, CHR 0x0D, CHR 0x09}")
  case True
  then show "x \<in> set (json_esc c) \<Longrightarrow> ?thesis" using short_escape[OF True] by (elim exE conjE) auto
next
  case False
  have "byte_of (CHR ''u'') = 117" by (simp add: byte_of_def)
  then show "x \<in> set (json_esc c) \<Longrightarrow> ?thesis"
    using hex4_chars[of x "byte_of c"] by (auto simp: code_escape[OF False] split: if_splits)
qed

lemma json_body_esc: "json_body (concat (map json_esc v)) v"
proof (induction v)
  case (Cons c v)
  show ?case
  proof (cases "c \<in> {quote, backslash, CHR 0x08, CHR 0x0C, CHR 0x0A, CHR 0x0D, CHR 0x09}")
    case True
    then show ?thesis using short_escape[OF True] jb_escape[OF _ Cons] by (elim exE conjE) simp
  next
    case False
    have "char_of (byte_of c) = c" by (simp add: byte_of_def)
    then show ?thesis
      using jb_code[OF _ _ Cons, of _ _ _ _ "byte_of c"] hex4_code[of "byte_of c"] jb_plain[OF _ _ _ Cons, of c] False
      by (simp add: code_escape[OF False] hex4_def)
  qed
qed (simp add: jb_end)

lemma utf8_char_esc: "utf8_char s \<Longrightarrow> valid_utf8 (concat (map json_esc s))"
  by (induction s rule: utf8_char.induct)
     (auto simp: utf8_tail_def json_esc_high list_all_iff json_esc_chars intro: valid_utf8_ascii)

lemma valid_utf8_esc: "valid_utf8 s \<Longrightarrow> valid_utf8 (concat (map json_esc s))"
proof (induction s rule: valid_utf8.induct)
  case (2 a)
  then show ?case using utf8_char_esc[of "[a]"] by simp
next
  case (3 a b)
  then show ?case using utf8_char_esc[of "[a]"] utf8_char_esc[of "[a, b]"] valid_utf8_append by force
next
  case (4 a b c)
  then show ?case using utf8_char_esc[of "[a]"] utf8_char_esc[of "[a, b]"] utf8_char_esc[of "[a, b, c]"]
      valid_utf8_append[of "json_esc a"] valid_utf8_append[of "json_esc a @ json_esc b"] by auto
next
  case (5 a b c d s)
  then show ?case using utf8_char_esc[of "[a]"] utf8_char_esc[of "[a, b]"] utf8_char_esc[of "[a, b, c]"] utf8_char_esc[of "[a, b, c, d]"]
      valid_utf8_append[of "json_esc a"] valid_utf8_append[of "json_esc a @ json_esc b"]
      valid_utf8_append[of "json_esc a @ json_esc b @ json_esc c"] valid_utf8_append[of "json_esc a @ json_esc b @ json_esc c @ json_esc d"] by auto
qed simp


text \<open>A line as an object, and the fields it holds.\<close>

definition member_line :: "string \<Rightarrow> string \<Rightarrow> string" where
  "member_line k vt = quote # concat (map json_esc k) @ quote # CHR '':'' # vt"

definition string_text :: "string \<Rightarrow> string" where
  "string_text s = quote # concat (map json_esc s) @ [quote]"

definition rate_text :: "(f64 \<Rightarrow> string) \<Rightarrow> f64 \<Rightarrow> string" where
  "rate_text show_f64 f = (if is_finite f then show_f64 f else ''0'')"

definition payload_fields :: "(f64 \<Rightarrow> string) \<Rightarrow> found_payload \<Rightarrow> (string \<times> string) list" where
  "payload_fields show_f64 p =
     [(''key'', string_text (p_key p)), (''hash_to_verify'', string_text (p_hash_to_verify p)),
      (''account'', string_text (p_account p)), (''kind'', string_text (kind_as_str (p_kind p))),
      (''memory_cost'', show_nat (p_memory_cost p)), (''worker'', string_text (p_worker p)),
      (''attempts'', show_nat (p_attempts p)), (''hashes_per_second'', rate_text show_f64 (p_hashes_per_second p)),
      (''found_at_utc'', string_text (p_found_at_utc p))]"

definition payload_values :: "(f64 \<Rightarrow> string) \<Rightarrow> found_payload \<Rightarrow> (string \<times> json) list" where
  "payload_values number p =
     [(''key'', JString (p_key p)), (''hash_to_verify'', JString (p_hash_to_verify p)),
      (''account'', JString (p_account p)), (''kind'', JString (kind_as_str (p_kind p))),
      (''memory_cost'', JNumber (show_nat (p_memory_cost p))), (''worker'', JString (p_worker p)),
      (''attempts'', JNumber (show_nat (p_attempts p))),
      (''hashes_per_second'', JNumber (rate_text number (p_hashes_per_second p))),
      (''found_at_utc'', JString (p_found_at_utc p))]"

definition payload_members :: "(f64 \<Rightarrow> string) \<Rightarrow> found_payload \<Rightarrow> string list" where
  "payload_members show_f64 p = map (\<lambda>(k, vt). member_line k vt) (payload_fields show_f64 p)"

lemma serialize_is_object:
  "sink_serialize show_f64 p = (CHR ''{'' # commas (payload_members show_f64 p) @ ''}'') @ [CHR 0x0A]"
  unfolding payload_members_def payload_fields_def sink_serialize_def
  by (simp only: push_field_def push_raw_field_def push_json_string_def member_line_def string_text_def rate_text_def Let_def
      commas.simps list.map prod.case if_True if_False not_True_eq_False not_False_eq_True append.simps append_assoc)

text \<open>What the types of the source say of a payload: integers of their width, text in UTF-8.\<close>

definition payload_ok :: "found_payload \<Rightarrow> bool" where
  "payload_ok p \<longleftrightarrow>
     p_memory_cost p < 2 ^ 32 \<and> p_attempts p < 2 ^ 64
     \<and> (is_finite (p_hashes_per_second p) \<longrightarrow> binary64 (p_hashes_per_second p))
     \<and> list_all valid_utf8 [p_key p, p_hash_to_verify p, p_account p, p_worker p, p_found_at_utc p]"

definition plain_text :: "string \<Rightarrow> bool" where
  "plain_text t \<longleftrightarrow> valid_utf8 t \<and> list_all (\<lambda>c. 32 \<le> byte_of c) t"

lemma plain_text_append: "plain_text s \<Longrightarrow> plain_text t \<Longrightarrow> plain_text (s @ t)"
  by (simp add: plain_text_def valid_utf8_append)

lemma plain_text_Cons: "32 \<le> byte_of c \<Longrightarrow> byte_of c < 128 \<Longrightarrow> plain_text t \<Longrightarrow> plain_text (c # t)"
  by (simp add: plain_text_def valid_utf8_Cons)

lemma plain_text_ascii: "list_all (\<lambda>c. 32 \<le> byte_of c \<and> byte_of c < 128) t \<Longrightarrow> plain_text t"
  by (auto simp: plain_text_def list_all_iff intro: valid_utf8_ascii)

lemma plain_esc: "valid_utf8 s \<Longrightarrow> plain_text (concat (map json_esc s))"
  by (auto simp: plain_text_def list_all_iff valid_utf8_esc json_esc_chars)

lemma plain_string: "valid_utf8 s \<Longrightarrow> plain_text (string_text s)"
  by (simp add: string_text_def plain_text_Cons plain_text_append plain_esc plain_text_ascii)

lemma plain_number: "list_all number_char t \<Longrightarrow> plain_text t"
  by (rule plain_text_ascii) (auto simp: list_all_iff number_char_def is_ascii_digit_def byte_of_def)

lemma plain_member: "valid_utf8 k \<Longrightarrow> plain_text vt \<Longrightarrow> plain_text (member_line k vt)"
  by (simp add: member_line_def plain_text_Cons plain_text_append plain_esc byte_of_def)

lemma plain_commas: "list_all plain_text ts \<Longrightarrow> plain_text (commas ts)"
  by (induction ts rule: commas.induct)
     (auto simp: plain_text_append plain_text_Cons byte_of_def plain_text_def[of "[]"])

lemma show_nat_number: "list_all number_char (show_nat n)"
  using show_nat_digits by (auto simp: list_all_iff number_char_def)

lemma plain_no_newline: "plain_text t \<Longrightarrow> CHR 0x0A \<notin> set t"
  by (auto simp: plain_text_def list_all_iff dest!: bspec[of _ _ "CHR 0x0A"])

lemma trim_object: "trim_line (CHR ''{'' # s @ ''}'') = CHR ''{'' # s @ ''}''"
  by (simp add: trim_line_def)

lemma parse_unsigned_show: "n < 2 ^ w \<Longrightarrow> parse_unsigned w (show_nat n) = Some n"
proof -
  have "hd (show_nat n) \<noteq> CHR ''+''"
    using show_nat_digits[of "hd (show_nat n)" n] by (auto simp: is_ascii_digit_def byte_of_def)
  moreover have "list_all is_ascii_digit (show_nat n)" using show_nat_digits by (auto simp: list_all_iff)
  ultimately show "n < 2 ^ w \<Longrightarrow> ?thesis" by (simp add: parse_unsigned_def parse_digits_def)
qed

lemma member_text_map: "map_of m = map_of m' \<Longrightarrow> member_text m = member_text m'"
  by (simp add: fun_eq_iff member_text_def)


end
