(* ===== verification/Sink_Json.thy ===== *)
theory Sink_Json
  imports Sink_Text
begin

text \<open>
  A line of the sink reads back: for any JSON parser with the promises of the locale
  \<open>serde_json\<close>, the line written for a find parses to the same find, its rate being what the
  number reader makes of the printed rate.  The locale is interpreted on a reference parser of flat
  objects with exact decimal rates.
\<close>

declare valid_utf8.simps [simp del]

text \<open>A find as the sink gives it back: a rate that is not finite was written as 0.\<close>

definition reread_payload :: "(f64 \<Rightarrow> f64) \<Rightarrow> found_payload \<Rightarrow> found_payload" where
  "reread_payload reread p =
     p\<lparr> p_hashes_per_second := if is_finite (p_hashes_per_second p) then reread (p_hashes_per_second p) else Finite 0 \<rparr>"

context serde_json
begin

lemma string_member: "member_is show_f64 number (member_line k (string_text s)) (k, JString s)"
  unfolding member_is_def value_text_def member_line_def string_text_def fst_conv snd_conv
  using json_body_esc by blast

lemma nat_member: "n < 2 ^ 64 \<Longrightarrow> member_is show_f64 number (member_line k (show_nat n)) (k, JNumber (show_nat n))"
  unfolding member_is_def value_text_def member_line_def fst_conv snd_conv
  using json_body_esc by blast

lemma rate_member:
  assumes "is_finite f \<longrightarrow> binary64 f"
  shows "member_is show_f64 number (member_line k (rate_text show_f64 f)) (k, JNumber (rate_text number f))"
proof (cases "is_finite f")
  case True
  then show ?thesis
    using assms json_body_esc unfolding member_is_def value_text_def member_line_def rate_text_def fst_conv snd_conv by auto
next
  case False
  have "show_nat 0 = ''0''" by code_simp
  then show ?thesis using nat_member[of 0 k] False by (simp add: rate_text_def)
qed

lemma members_hold:
  assumes "payload_ok p"
  shows "list_all2 (member_is show_f64 number) (payload_members show_f64 p) (payload_values number p)"
proof -
  have n: "p_memory_cost p < 2 ^ 64" "p_attempts p < 2 ^ 64" "is_finite (p_hashes_per_second p) \<longrightarrow> binary64 (p_hashes_per_second p)"
    using assms by (simp_all add: payload_ok_def)
  show ?thesis unfolding payload_members_def payload_fields_def payload_values_def list.map prod.case
    by (intro list_all2_Cons[THEN iffD2] conjI string_member nat_member rate_member n list.rel_inject(1))
qed

lemma name_member: "list_all (\<lambda>c. byte_of c < 128) k \<Longrightarrow> plain_text vt \<Longrightarrow> plain_text (member_line k vt)"
  by (rule plain_member[OF valid_utf8_ascii])

lemma members_plain: "payload_ok p \<Longrightarrow> list_all plain_text (payload_members show_f64 p)"
proof -
  assume ok: "payload_ok p"
  have k: "valid_utf8 (kind_as_str (p_kind p))" by (cases "p_kind p") (simp_all add: valid_utf8_ascii byte_of_def)
  have r: "plain_text (rate_text show_f64 (p_hashes_per_second p))"
    using ok writes by (auto simp: rate_text_def payload_ok_def byte_of_def intro: plain_number plain_text_ascii)
  have n: "plain_text (show_nat m)" for m by (rule plain_number[OF show_nat_number])
  show ?thesis
    using ok r n k plain_string
    unfolding payload_members_def payload_fields_def list.map prod.case payload_ok_def
    by (simp add: name_member byte_of_def)
qed

lemma line_plain: "payload_ok p \<Longrightarrow> plain_text (CHR ''{'' # commas (payload_members show_f64 p) @ ''}'')"
  using plain_commas[OF members_plain] by (simp add: plain_text_Cons plain_text_append plain_text_ascii byte_of_def)

lemma values_keys: "distinct (map fst (payload_values number p))"
  by (simp add: payload_values_def)

lemma values_read:
  assumes "payload_ok p"
  shows "members_payload parse_f64 (payload_values number p)
       = Some (reread_payload reread p)"
proof -
  have r: "parse_f64 (rate_text number (p_hashes_per_second p)) = Some (p_hashes_per_second (reread_payload reread p))"
    using assms reads reads_zero by (simp add: rate_text_def reread_payload_def payload_ok_def)
  have n: "parse_unsigned 32 (show_nat (p_memory_cost p)) = Some (p_memory_cost p)"
    "parse_unsigned 64 (show_nat (p_attempts p)) = Some (p_attempts p)"
    using assms by (simp_all add: payload_ok_def parse_unsigned_show)
  show ?thesis using r n by (simp add: members_payload_def member_text_def payload_values_def reread_payload_def)
qed

lemma line_reads:
  assumes "payload_ok p"
  shows "line_payload from_str parse_f64 (CHR ''{'' # commas (payload_members show_f64 p) @ ''}'')
       = Some (reread_payload reread p)"
proof -
  let ?line = "CHR ''{'' # commas (payload_members show_f64 p) @ ''}''"
  have v: "valid_utf8 ?line" using line_plain[OF assms] by (simp add: plain_text_def)
  obtain m where m: "from_str ?line = Some (JObject m)" "distinct (map fst m)" "map_of m = map_of (payload_values number p)"
    using object[OF _ members_hold[OF assms] values_keys v] by (auto simp: payload_members_def payload_fields_def)
  have "v \<in> snd ` set m \<Longrightarrow> \<not> is_structured v" for v
  proof -
    assume "v \<in> snd ` set m"
    then obtain k where "map_of m k = Some v" using m(2) by (auto simp: map_of_eq_Some_iff)
    then have "(k, v) \<in> set (payload_values number p)" using m(3) map_of_SomeD by simp
    then show ?thesis by (auto simp: payload_values_def)
  qed
  then have "\<not> list_ex is_structured (map snd m)" by (auto simp: list_ex_iff)
  moreover have "members_payload parse_f64 m = members_payload parse_f64 (payload_values number p)"
    using member_text_map[OF m(3)] by (simp add: members_payload_def)
  ultimately have "parse_payload from_str parse_f64 ?line = Some (reread_payload reread p)"
    using values_read[OF assms] m(1) by (simp add: parse_payload_def)
  then show ?thesis using v by (simp add: line_payload_def parse_line_def trim_object)
qed

lemma sink_line_recovered:
  assumes "payload_ok p" "whole_lines c"
  shows "sink_payloads from_str parse_f64 (c @ sink_serialize show_f64 p)
      = sink_payloads from_str parse_f64 c @ [reread_payload reread p]"
  unfolding serialize_is_object
  by (rule sink_payloads_line[OF assms(2) plain_no_newline[OF line_plain[OF assms(1)]] line_reads[OF assms(1)]])

end


subsection \<open>A reference parser\<close>

definition ref_value :: "string \<Rightarrow> (json \<times> string) option" where
  "ref_value s =
     (if s \<noteq> [] \<and> hd s = quote then map_option (\<lambda>(v, r). (JString v, r)) (parse_json_string s)
      else if takeWhile number_char s = [] then None
      else Some (JNumber (takeWhile number_char s), dropWhile number_char s))"

fun ref_members :: "nat \<Rightarrow> string \<Rightarrow> (string \<times> json) list option" where
  "ref_members 0 s = None"
| "ref_members (Suc n) s =
     (case parse_json_string s of
        Some (k, c # r) \<Rightarrow>
          if c \<noteq> CHR '':'' then None
          else
            (case ref_value r of
               Some (v, d # r') \<Rightarrow>
                 if d = CHR '','' then map_option (Cons (k, v)) (ref_members n r')
                 else if d = CHR ''}'' \<and> r' = [] then Some [(k, v)] else None
             | _ \<Rightarrow> None)
      | _ \<Rightarrow> None)"

definition ref_from_str :: "string \<Rightarrow> json option" where
  "ref_from_str s =
     (if s \<noteq> [] \<and> hd s = CHR ''{'' then map_option JObject (ref_members (length s) (tl s)) else None)"

text \<open>An exact decimal of a dyadic rational, and its reader.\<close>

fun show_dyadic :: "f64 \<Rightarrow> string" where
  "show_dyadic (Finite r) =
     (let (n, d) = quotient_of r in show_int (n * (10 ^ nat d div d)) @ ''e-'' @ show_nat (nat d))"
| "show_dyadic _ = ''0''"

definition read_int :: "string \<Rightarrow> int" where
  "read_int s = (if s \<noteq> [] \<and> hd s = CHR ''-'' then - int (digits_value 0 (tl s)) else int (digits_value 0 s))"

definition read_f64 :: "string \<Rightarrow> f64 option" where
  "read_f64 s =
     (let m = takeWhile (\<lambda>c. c \<noteq> CHR ''e'') s; e = dropWhile (\<lambda>c. c \<noteq> CHR ''e'') s
      in Some (Finite (of_int (read_int m) / 10 ^ digits_value 0 (drop 2 e))))"

lemma json_str_body_reads: "json_body b v \<Longrightarrow> json_str_body out (b @ quote # r) = Some (out @ v, r)"
proof (induction arbitrary: out rule: json_body.induct)
  case (jb_escape e b t v)
  then show ?case by (simp add: unescape_def)
next
  case (jb_code h1 h2 h3 h4 code t v)
  have "json_escape (CHR ''u'') = None" by (simp add: json_escape_def)
  then show ?case using jb_code by (simp add: unescape_def unescape_code_def)
qed simp_all

lemma parse_json_string_reads: "json_body b v \<Longrightarrow> parse_json_string (quote # b @ quote # r) = Some (v, r)"
  by (simp add: parse_json_string_def json_str_body_reads)

lemma number_then:
  assumes "list_all number_char t" "\<not> number_char d"
  shows "takeWhile number_char (t @ d # r) = t" "dropWhile number_char (t @ d # r) = d # r"
  using assms by (induction t) auto

lemma ref_value_reads:
  assumes "value_text show_dyadic show_dyadic vt v" "\<And>f. binary64 f \<Longrightarrow> list_all number_char (show_dyadic f) \<and> show_dyadic f \<noteq> []"
    "d = CHR '','' \<or> d = CHR ''}''"
  shows "ref_value (vt @ d # r) = Some (v, d # r)"
proof -
  have d: "\<not> number_char d" using assms(3) by (auto simp: number_char_def is_ascii_digit_def byte_of_def)
  have q: "\<not> number_char quote" by (simp add: number_char_def is_ascii_digit_def)
  have num: "ref_value (t @ d # r) = Some (JNumber t, d # r)" if "list_all number_char t" "t \<noteq> []" for t
  proof -
    have "hd (t @ d # r) \<noteq> quote" using that q by (cases t) auto
    then show ?thesis using number_then[OF that(1) d] that(2) by (simp add: ref_value_def)
  qed
  consider (str) b s where "vt = quote # b @ [quote]" "json_body b s" "v = JString s"
    | (nat) n where "vt = show_nat n" "v = JNumber (show_nat n)"
    | (rate) f where "binary64 f" "vt = show_dyadic f" "v = JNumber (show_dyadic f)"
    using assms(1) by (auto simp: value_text_def)
  then show ?thesis
  proof cases
    case str
    then show ?thesis using parse_json_string_reads[OF str(2), of "d # r"] by (simp add: ref_value_def)
  next
    case nat
    then show ?thesis using num[OF show_nat_number] by simp
  next
    case rate
    then show ?thesis using num assms(2) by simp
  qed
qed

lemma ref_members_reads:
  assumes "\<And>f. binary64 f \<Longrightarrow> list_all number_char (show_dyadic f) \<and> show_dyadic f \<noteq> []"
    "list_all2 (member_is show_dyadic show_dyadic) ts kvs" "ts \<noteq> []" "length ts \<le> n"
  shows "ref_members n (commas ts @ ''}'') = Some kvs"
  using assms(2-4)
proof (induction n arbitrary: ts kvs)
  case (Suc n)
  obtain t ts' m kvs' where ts: "ts = t # ts'" "kvs = m # kvs'" using Suc.prems by (cases ts; cases kvs) auto
  obtain kb vt where t: "t = quote # kb @ quote # CHR '':'' # vt" "json_body kb (fst m)" "value_text show_dyadic show_dyadic vt (snd m)"
    using Suc.prems(1) by (auto simp: ts member_is_def)
  have key: "parse_json_string (t @ r) = Some (fst m, CHR '':'' # vt @ r)" for r
    using parse_json_string_reads[OF t(2), of "CHR '':'' # vt @ r"] by (simp add: t(1))
  have val: "d = CHR '','' \<or> d = CHR ''}'' \<Longrightarrow> ref_value (vt @ d # r) = Some (snd m, d # r)" for d r
    by (rule ref_value_reads[OF t(3) assms(1)])
  show ?case
  proof (cases "ts' = []")
    case True
    then show ?thesis using Suc.prems key[of "''}''"] val[of "CHR ''}''" "[]"] by (simp add: ts)
  next
    case False
    then have "commas ts = t @ CHR '','' # commas ts'" by (cases ts') (auto simp: ts)
    then show ?thesis
      using Suc.IH[of ts' kvs'] Suc.prems False key[of "CHR '','' # commas ts' @ ''}''"] val[of "CHR '',''" "commas ts' @ ''}''"]
      by (simp add: ts)
  qed
qed simp

lemma commas_length: "list_all (\<lambda>t. t \<noteq> []) ts \<Longrightarrow> length ts \<le> length (commas ts)"
proof (induction ts rule: commas.induct)
  case (2 t)
  then show ?case by (cases t) auto
qed auto

lemma show_int_number: "list_all number_char (show_int i)"
  using show_nat_number by (simp add: show_int_def number_char_def)

lemma show_dyadic_number: "binary64 f \<Longrightarrow> list_all number_char (show_dyadic f) \<and> show_dyadic f \<noteq> []"
  by (cases f) (auto simp: show_int_number show_nat_number number_char_def split: prod.splits)

lemma read_show_int: "read_int (show_int i) = i"
proof -
  have "hd (show_nat n) \<noteq> CHR ''-''" for n
    using show_nat_digits[of "hd (show_nat n)" n] by (auto simp: is_ascii_digit_def byte_of_def)
  then show ?thesis by (simp add: read_int_def show_int_def)
qed

lemma show_int_no_e: "list_all (\<lambda>c. c \<noteq> CHR ''e'') (show_int i)"
  using show_nat_digits by (fastforce simp: show_int_def list_all_iff is_ascii_digit_def byte_of_def)

lemma read_show_dyadic: "binary64 f \<Longrightarrow> read_f64 (show_dyadic f) = Some f"
proof -
  assume "binary64 f"
  then obtain r k where f: "f = Finite r" "snd (quotient_of r) = 2 ^ k" by (cases f) auto
  obtain n d where nd: "quotient_of r = (n, d)" by fastforce
  have d: "d = 2 ^ k" using f nd by simp
  let ?m = "n * (10 ^ nat d div d)"
  have "(2::int) ^ k dvd 2 ^ (2 ^ k)" by (simp add: le_imp_power_dvd less_imp_le)
  also have "(2::int) ^ (2 ^ k) dvd 10 ^ (2 ^ k)" by (rule dvd_power_same) simp
  finally have dvd: "d dvd 10 ^ nat d" by (simp add: d nat_power_eq)
  then have "of_int (10 ^ nat d div d) = (10 ^ nat d / of_int d :: rat)"
    by (simp add: of_int_div)
  then have "of_int ?m / 10 ^ nat d = (of_int n / of_int d :: rat)" by simp
  also have "\<dots> = r" using quotient_of_div[OF nd] by simp
  finally have v: "of_int ?m / 10 ^ nat d = r" .
  have "takeWhile (\<lambda>c. c \<noteq> CHR ''e'') (show_int ?m @ ''e-'' @ s) = show_int ?m"
    "dropWhile (\<lambda>c. c \<noteq> CHR ''e'') (show_int ?m @ ''e-'' @ s) = ''e-'' @ s" for s
    using show_int_no_e[of ?m] by (simp_all add: list_all_iff takeWhile_append dropWhile_append)
  then show ?thesis using v by (simp add: f(1) nd read_f64_def read_show_int)
qed

interpretation ref: serde_json ref_from_str show_dyadic show_dyadic read_f64 "\<lambda>f. f"
proof
  fix ts kvs
  assume a: "ts \<noteq> []" "list_all2 (member_is show_dyadic show_dyadic) ts kvs" "distinct (map fst kvs)"
  have "list_all (\<lambda>t. t \<noteq> []) ts" using a(2) by (induction rule: list_all2_induct) (auto simp: member_is_def)
  then have "length ts \<le> length (CHR ''{'' # commas ts @ ''}'')" using commas_length[of ts] by simp
  then have "ref_members (length (CHR ''{'' # commas ts @ ''}'')) (commas ts @ ''}'') = Some kvs"
    using ref_members_reads[OF _ a(2,1)] show_dyadic_number by blast
  then show "\<exists>m. ref_from_str (CHR ''{'' # commas ts @ ''}'') = Some (JObject m) \<and> distinct (map fst m) \<and> map_of m = map_of kvs"
    using a(3) by (simp add: ref_from_str_def)
next
  show "read_f64 ''0'' = Some (Finite 0)" by (simp add: read_f64_def read_int_def digit_val_def byte_of_def)
qed (simp_all add: read_show_dyadic show_dyadic_number)

end
