(* ===== verification/Fallback.thy ===== *)
theory Fallback
  imports Sink_Json Journal
begin

text \<open>
  The sink of \<^verbatim>\<open>tm-journal/src/fallback.rs\<close>: the append-only file for finds the SQLite journal
  refused, and its import at the next start.  The sink's two files are a record of their contents
  together with what has reached stable storage; whether an open, a write (which may stop half
  way), an fsync, a read, a remove or a rename succeeds is an argument.
\<close>

subsection \<open>The sink\<close>

record sink_fs =
  sink_file :: "string option"
  sink_archive :: "string option"
  sink_synced :: nat
  sink_named :: bool

record append_io =
  ap_create :: bool
  ap_open :: bool
  ap_write :: "nat option"
  ap_sync :: bool
  ap_dir :: bool

text \<open>\<^verbatim>\<open>open_new\<close> fails on an existing file, \<^verbatim>\<open>open_append\<close> on a missing one; both may fail for any
  other reason.\<close>

definition open_new :: "append_io \<Rightarrow> sink_fs \<Rightarrow> sink_fs option" where
  "open_new io fs =
     (if sink_file fs = None \<and> ap_create io
      then Some (fs\<lparr> sink_file := Some [], sink_synced := 0, sink_named := False \<rparr>) else None)"

definition open_append :: "append_io \<Rightarrow> sink_fs \<Rightarrow> sink_fs option" where
  "open_append io fs = (if sink_file fs \<noteq> None \<and> ap_open io then Some fs else None)"

definition sync_parent_directory :: "append_io \<Rightarrow> sink_fs \<Rightarrow> sink_fs" where
  "sync_parent_directory io fs = (if ap_dir io then fs\<lparr> sink_named := True \<rparr> else fs)"

definition sink_content :: "sink_fs \<Rightarrow> string" where
  "sink_content fs = (case sink_file fs of None \<Rightarrow> [] | Some c \<Rightarrow> c)"

definition write_all :: "append_io \<Rightarrow> string \<Rightarrow> sink_fs \<Rightarrow> bool \<times> sink_fs" where
  "write_all io line fs =
     (case ap_write io of
        None \<Rightarrow> (True, fs\<lparr> sink_file := Some (sink_content fs @ line) \<rparr>)
      | Some n \<Rightarrow> (False, fs\<lparr> sink_file := Some (sink_content fs @ take n line) \<rparr>))"

definition sink_append :: "(f64 \<Rightarrow> string) \<Rightarrow> append_io \<Rightarrow> found_payload \<Rightarrow> sink_fs \<Rightarrow> bool \<times> sink_fs" where
  "sink_append show_f64 io payload fs =
     (let line = sink_serialize show_f64 payload
      in case (case open_new io fs of
                 Some fs \<Rightarrow> Some (fs, True)
               | None \<Rightarrow> (case open_append io fs of Some fs \<Rightarrow> Some (fs, False) | None \<Rightarrow> None)) of
           None \<Rightarrow> (False, fs)
         | Some (fs, created) \<Rightarrow>
             (case write_all io line fs of
                (False, fs) \<Rightarrow> (False, fs)
              | (True, fs) \<Rightarrow>
                  if \<not> ap_sync io then (False, fs)
                  else
                    (let fs = fs\<lparr> sink_synced := length (sink_content fs) \<rparr>
                     in (True, if created then sync_parent_directory io fs else fs))))"

subsection \<open>The import\<close>

record import_stats =
  is_imported :: nat
  is_malformed :: nat
  is_file_present :: bool

record import_io =
  im_exists :: bool
  im_read :: bool
  im_remove :: bool
  im_rename :: bool
  im_sql :: "nat \<Rightarrow> sql_io"

text \<open>The loop over the lines; the answer says whether the pass was clean.  The n-th append of the
  pass meets the database failures \<open>im_sql io n\<close>.\<close>

fun import_lines ::
  "(string \<Rightarrow> json option) \<Rightarrow> (string \<Rightarrow> f64 option) \<Rightarrow> (int list \<Rightarrow> int) \<Rightarrow> (nat \<Rightarrow> sql_io) \<Rightarrow> string list
   \<Rightarrow> import_stats \<Rightarrow> journal_db \<Rightarrow> bool \<times> import_stats \<times> journal_db" where
  "import_lines from_str parse_f64 alloc sql [] stats db = (True, stats, db)"
| "import_lines from_str parse_f64 alloc sql (raw_line # rest) stats db =
     (let line = trim_line raw_line
      in if line = [] then import_lines from_str parse_f64 alloc sql rest stats db
         else
           (case parse_line from_str parse_f64 line of
              None \<Rightarrow> import_lines from_str parse_f64 alloc sql rest
                         (stats\<lparr> is_malformed := is_malformed stats + 1 \<rparr>) db
            | Some payload \<Rightarrow>
                (case append_find (sql (is_imported stats)) alloc payload db of
                   (Inl _, db) \<Rightarrow> (False, stats, db)
                 | (Inr _, db) \<Rightarrow> import_lines from_str parse_f64 alloc sql rest
                                  (stats\<lparr> is_imported := is_imported stats + 1 \<rparr>) db)))"

text \<open>\<^verbatim>\<open>remove_file\<close> of the old archive, then \<^verbatim>\<open>rename\<close>; both may fail silently.\<close>

definition archive_sink :: "import_io \<Rightarrow> sink_fs \<Rightarrow> sink_fs" where
  "archive_sink io fs =
     (let fs = (if im_remove io then fs\<lparr> sink_archive := None \<rparr> else fs)
      in if im_rename io
         then fs\<lparr> sink_archive := sink_file fs, sink_file := None, sink_synced := 0, sink_named := False \<rparr> else fs)"

definition import_into ::
  "(string \<Rightarrow> json option) \<Rightarrow> (string \<Rightarrow> f64 option) \<Rightarrow> (int list \<Rightarrow> int) \<Rightarrow> import_io \<Rightarrow> sink_fs \<Rightarrow> journal_db
   \<Rightarrow> import_stats \<times> sink_fs \<times> journal_db" where
  "import_into from_str parse_f64 alloc io fs db =
     (let stats = \<lparr> is_imported = 0, is_malformed = 0, is_file_present = False \<rparr>
      in case (if im_exists io then sink_file fs else None) of
           None \<Rightarrow> (stats, fs, db)
         | Some c \<Rightarrow>
             (let stats = stats\<lparr> is_file_present := True \<rparr>
              in if \<not> im_read io then (stats, fs, db)
                 else
                   (case import_lines from_str parse_f64 alloc (im_sql io) (split_nl c) stats db of
                      (clean_pass, stats, db) \<Rightarrow>
                        (stats, if clean_pass then archive_sink io fs else fs, db))))"


subsection \<open>The import as a run of the journal\<close>

lemma append_find_key:
  assumes "append_find io alloc p db = (Inr i, db')"
  shows "p_key p \<in> q_key ` set (finds db')"
proof (cases "find (\<lambda>row. q_key row = p_key p) (finds db)")
  case None
  then show ?thesis using assms by (auto simp: append_find_def settle_ok rbind_Inr_iff Let_def)
next
  case (Some row)
  then have "row \<in> set (finds db)" "q_key row = p_key p" by (auto simp: find_Some_iff)
  then show ?thesis using assms Some by (force simp: append_find_def settle_ok rbind_Inr_iff Let_def)
qed

lemma append_find_step:
  assumes "journal_wf db" "rowid_fresh alloc"
  shows "journal_wf (snd (append_find io alloc p db))" "keeps_finds db (snd (append_find io alloc p db))"
  using journal_step_wf[OF assms, of io "OpAppend p"] journal_step_keeps[of db alloc io "OpAppend p"] by simp_all

lemma keeps_finds_keys: "keeps_finds db db' \<Longrightarrow> q_key ` set (finds db) \<subseteq> q_key ` set (finds db')"
proof
  fix k assume "keeps_finds db db'" "k \<in> q_key ` set (finds db)"
  then obtain row new where "row \<in> set (finds db)" "k = q_key row"
    "map captured (finds db') = map captured (finds db) @ new"
    by (auto simp: keeps_finds_def)
  then have "captured row \<in> set (map captured (finds db'))" by simp
  then obtain row' where "row' \<in> set (finds db')" "captured row' = captured row" by auto
  moreover have "k = q_key row'" using \<open>captured row' = captured row\<close> \<open>k = q_key row\<close> by (simp add: captured_def)
  ultimately show "k \<in> q_key ` set (finds db')" by blast
qed

lemma import_lines_safe:
  assumes "journal_wf db" "rowid_fresh alloc"
    "import_lines from_str parse_f64 alloc sql ls stats db = (clean, stats', db')"
  shows "journal_wf db' \<and> keeps_finds db db' \<and> is_file_present stats' = is_file_present stats
    \<and> (clean \<longrightarrow> p_key ` set (List.map_filter (line_payload from_str parse_f64) ls) \<subseteq> q_key ` set (finds db'))"
  using assms
proof (induction ls arbitrary: stats db)
  case (Cons raw rest)
  show ?case
  proof (cases "line_payload from_str parse_f64 raw")
    case None
    then have skip: "List.map_filter (line_payload from_str parse_f64) (raw # rest) = List.map_filter (line_payload from_str parse_f64) rest"
      by (simp add: List.map_filter_def)
    obtain s where "import_lines from_str parse_f64 alloc sql rest s db = (clean, stats', db')"
      "is_file_present s = is_file_present stats"
      using Cons.prems(3) None by (auto simp: line_payload_def Let_def split: if_splits)
    then show ?thesis using Cons.IH[OF Cons.prems(1,2)] unfolding skip by metis
  next
    case (Some p)
    then have here: "List.map_filter (line_payload from_str parse_f64) (raw # rest) = p # List.map_filter (line_payload from_str parse_f64) rest"
      by (simp add: List.map_filter_def)
    have t: "trim_line raw \<noteq> []" "parse_line from_str parse_f64 (trim_line raw) = Some p"
      using Some by (auto simp: line_payload_def split: if_splits)
    obtain r db1 where a: "append_find (sql (is_imported stats)) alloc p db = (r, db1)" by fastforce
    have s: "journal_wf db1" "keeps_finds db db1" using append_find_step[OF Cons.prems(1,2)] a by (metis snd_conv)+
    show ?thesis
    proof (cases r)
      case (Inl e)
      then show ?thesis using Cons.prems(3) t a s by (simp add: Let_def)
    next
      case (Inr i)
      then have "import_lines from_str parse_f64 alloc sql rest (stats\<lparr> is_imported := is_imported stats + 1 \<rparr>) db1 = (clean, stats', db')"
        using Cons.prems(3) t a by (simp add: Let_def)
      note ih = Cons.IH[OF s(1) Cons.prems(2) this]
      moreover have "p_key p \<in> q_key ` set (finds db')"
        using append_find_key[OF a[unfolded Inr]] keeps_finds_keys[OF conjunct1[OF conjunct2[OF ih]]] by auto
      ultimately show ?thesis using keeps_finds_trans[of db db1 db'] s(2) unfolding here by simp
    qed
  qed
qed (simp add: List.map_filter_def)

lemma append_find_ok: "\<exists>i. append_find (\<lambda>_. None) alloc p db = (Inr i, snd (append_find (\<lambda>_. None) alloc p db))"
  by (auto simp: append_find_def Let_def split: option.splits)

lemma import_lines_clean:
  "\<exists>stats'. import_lines from_str parse_f64 alloc (\<lambda>_ _. None) ls stats db
     = (True, stats', fold (\<lambda>p db. snd (append_find (\<lambda>_. None) alloc p db)) (List.map_filter (line_payload from_str parse_f64) ls) db)
     \<and> is_imported stats' = is_imported stats + length (List.map_filter (line_payload from_str parse_f64) ls)"
proof (induction ls arbitrary: stats db)
  case (Cons raw rest)
  show ?case
  proof (cases "line_payload from_str parse_f64 raw")
    case None
    then show ?thesis
      using Cons[of stats db] Cons[of "stats\<lparr> is_malformed := is_malformed stats + 1 \<rparr>" db]
      by (auto simp: line_payload_def List.map_filter_def Let_def split: if_splits)
  next
    case (Some p)
    then have t: "trim_line raw \<noteq> []" "parse_line from_str parse_f64 (trim_line raw) = Some p"
      by (auto simp: line_payload_def split: if_splits)
    obtain i where "append_find (\<lambda>_. None) alloc p db = (Inr i, snd (append_find (\<lambda>_. None) alloc p db))" using append_find_ok by blast
    then show ?thesis
      using Cons[of "stats\<lparr> is_imported := is_imported stats + 1 \<rparr>" "snd (append_find (\<lambda>_. None) alloc p db)"] t Some
      by (auto simp: List.map_filter_def Let_def split: prod.splits)
  qed
qed (simp add: List.map_filter_def)




lemma import_into_safe:
  assumes "journal_wf db" "rowid_fresh alloc" "import_into from_str parse_f64 alloc io fs db = (stats, fs', db')"
  shows "journal_wf db' \<and> keeps_finds db db'
    \<and> (sink_file fs' = sink_file fs
       \<or> sink_file fs' = None \<and> sink_archive fs' = sink_file fs
         \<and> p_key ` set (sink_payloads from_str parse_f64 (sink_content fs)) \<subseteq> q_key ` set (finds db'))"
proof (cases "if im_exists io then sink_file fs else None")
  case None
  then show ?thesis using assms by (simp add: import_into_def)
next
  case (Some c)
  then have c: "im_exists io" "sink_file fs = Some c" by (auto split: if_splits)
  let ?stats = "\<lparr> is_imported = 0, is_malformed = 0, is_file_present = True \<rparr>"
  obtain clean s d where r: "import_lines from_str parse_f64 alloc (im_sql io) (split_nl c) ?stats db = (clean, s, d)"
    by (metis prod_cases3)
  note safe = import_lines_safe[OF assms(1,2) r]
  show ?thesis
  proof (cases "im_read io")
    case True
    then have e: "db' = d" "fs' = (if clean then archive_sink io fs else fs)"
      using assms(3) c r by (simp_all add: import_into_def)
    have f: "sink_file (archive_sink io fs) = sink_file fs
        \<or> sink_file (archive_sink io fs) = None \<and> sink_archive (archive_sink io fs) = sink_file fs"
      by (simp add: archive_sink_def Let_def)
    show ?thesis
    proof (cases clean)
      case True
      then show ?thesis using safe f c(2) e by (simp add: sink_payloads_def sink_content_def)
    qed (use safe e in simp)
  next
    case False
    then show ?thesis using assms c by (simp add: import_into_def)
  qed
qed

text \<open>Power loss: of a file, at least the synced bytes stay; a file whose directory entry was never
  synced may be gone.\<close>

definition sink_crash :: "nat \<Rightarrow> bool \<Rightarrow> sink_fs \<Rightarrow> sink_fs" where
  "sink_crash kept lost fs =
     (case sink_file fs of
        None \<Rightarrow> fs
      | Some c \<Rightarrow>
          if lost \<and> \<not> sink_named fs then fs\<lparr> sink_file := None, sink_synced := 0 \<rparr>
          else fs\<lparr> sink_file := Some (take (max kept (sink_synced fs)) c) \<rparr>)"

lemma sink_append_taken:
  assumes "sink_append show_f64 io p fs = (True, fs1)"
  shows "sink_file fs1 = Some (sink_content fs @ sink_serialize show_f64 p)"
    "sink_synced fs1 = length (sink_content fs @ sink_serialize show_f64 p)"
proof -
  define line where "line = sink_serialize show_f64 p"
  have "sink_file fs1 = Some (sink_content fs @ line) \<and> sink_synced fs1 = length (sink_content fs @ line)"
    using assms unfolding sink_append_def line_def[symmetric]
    by (auto simp: open_new_def open_append_def write_all_def sink_content_def sync_parent_directory_def Let_def
        split: option.splits if_splits prod.splits bool.splits)
  then show "sink_file fs1 = Some (sink_content fs @ sink_serialize show_f64 p)"
    "sink_synced fs1 = length (sink_content fs @ sink_serialize show_f64 p)" by (simp_all add: line_def)
qed

lemma taken_survives_crash:
  assumes "sink_append show_f64 io p fs = (True, fs1)" "lost \<longrightarrow> sink_named fs1"
  shows "sink_file (sink_crash kept lost fs1) = Some (sink_content fs @ sink_serialize show_f64 p)"
  using sink_append_taken[OF assms(1)] assms(2) by (auto simp: sink_crash_def)

lemma import_clean:
  assumes "sink_file fs = Some c" "im_exists io" "im_read io" "im_sql io = (\<lambda>_ _. None)"
  shows "\<exists>stats fs'. import_into from_str parse_f64 alloc io fs db
      = (stats, fs', fold (\<lambda>p db. snd (append_find (\<lambda>_. None) alloc p db)) (sink_payloads from_str parse_f64 c) db)
    \<and> is_imported stats = length (sink_payloads from_str parse_f64 c)
    \<and> (im_rename io \<longrightarrow> sink_file fs' = None \<and> sink_archive fs' = Some c)"
  using import_lines_clean[of from_str parse_f64 alloc "split_nl c" "\<lparr> is_imported = 0, is_malformed = 0, is_file_present = True \<rparr>" db] assms
  by (auto simp: import_into_def sink_payloads_def archive_sink_def)

text \<open>C31.  The sink keeps what it takes.  Let \<^verbatim>\<open>append\<close> answer true for a find whose texts are
  UTF-8 and whose numbers are in their ranges, on a sink of whole lines, and let the power then fail, without taking the file's directory entry if that was not synced (a failed sync of
  the directory does not change the answer of \<^verbatim>\<open>append\<close>).  The next import that can read the file while
  the database works hands the journal the finds of the earlier lines and then this one, in order, as
  if they had been appended there directly: every field as it was captured, except the hash rate,
  which is the number the JSON reader makes of its text (0 for a rate that is not finite).  The file is
  archived if it can be renamed.\<close>

theorem fallback_recovers:
  assumes "serde_json from_str show_f64 number parse_f64 reread"
    and "payload_ok p" "whole_lines (sink_content fs)"
    and "sink_append show_f64 aio p fs = (True, fs1)" "lost \<longrightarrow> sink_named fs1"
    and "im_exists io" "im_read io" "im_sql io = (\<lambda>_ _. None)"
  shows "\<exists>stats fs2. import_into from_str parse_f64 alloc io (sink_crash kept lost fs1) db
      = (stats, fs2, fold (\<lambda>p db. snd (append_find (\<lambda>_. None) alloc p db))
           (sink_payloads from_str parse_f64 (sink_content fs) @ [reread_payload reread p]) db)
    \<and> is_imported stats = length (sink_payloads from_str parse_f64 (sink_content fs)) + 1
    \<and> (im_rename io \<longrightarrow> sink_file fs2 = None \<and> sink_archive fs2 = Some (sink_content fs @ sink_serialize show_f64 p))"
  using import_clean[OF taken_survives_crash[OF assms(4,5), of kept] assms(6,7,8), of from_str parse_f64 alloc db]
    serde_json.sink_line_recovered[OF assms(1-3)] by simp

text \<open>Start after start, each after a power loss, each with its own failures.\<close>

fun sink_restarts ::
  "(string \<Rightarrow> json option) \<Rightarrow> (string \<Rightarrow> f64 option) \<Rightarrow> (int list \<Rightarrow> int) \<Rightarrow> (nat \<times> bool \<times> import_io) list \<Rightarrow> sink_fs \<Rightarrow> journal_db
   \<Rightarrow> sink_fs \<times> journal_db" where
  "sink_restarts from_str parse_f64 alloc [] fs db = (fs, db)"
| "sink_restarts from_str parse_f64 alloc ((kept, lost, io) # starts) fs db =
     (case import_into from_str parse_f64 alloc io (sink_crash kept lost fs) db of
        (stats, fs, db) \<Rightarrow> sink_restarts from_str parse_f64 alloc starts fs db)"

lemma restarts_keep:
  assumes "rowid_fresh alloc"
  shows "journal_wf db \<Longrightarrow> sink_restarts from_str parse_f64 alloc starts fs db = (fs', db') \<Longrightarrow> journal_wf db' \<and> keeps_finds db db'"
proof (induction starts arbitrary: fs db)
  case (Cons start starts)
  obtain kept lost io where start: "start = (kept, lost, io)" by (metis prod_cases3)
  obtain stats fs1 db1 where i: "import_into from_str parse_f64 alloc io (sink_crash kept lost fs) db = (stats, fs1, db1)" by (metis prod_cases3)
  note one = import_into_safe[OF Cons.prems(1) assms i]
  then have "journal_wf db' \<and> keeps_finds db1 db'" using Cons.IH[of db1 fs1] Cons.prems(2) i by (simp add: start)
  then show ?case using one by (auto intro: keeps_finds_trans)
qed simp

lemma import_working:
  assumes "journal_wf db" "rowid_fresh alloc" "sink_file fs = Some c" "im_exists io" "im_read io" "im_sql io = (\<lambda>_ _. None)"
    and "import_into from_str parse_f64 alloc io fs db = (stats, fs', db')"
  shows "p_key ` set (sink_payloads from_str parse_f64 c) \<subseteq> q_key ` set (finds db')"
proof -
  let ?stats = "\<lparr> is_imported = 0, is_malformed = 0, is_file_present = True \<rparr>"
  obtain s d where r: "import_lines from_str parse_f64 alloc (\<lambda>_ _. None) (split_nl c) ?stats db = (True, s, d)"
    using import_lines_clean by blast
  then have "db' = d" using assms(3-7) by (simp add: import_into_def)
  then show ?thesis using import_lines_safe[OF assms(1,2) r] by (simp add: sink_payloads_def)
qed

lemma import_leaves_file:
  assumes "import_into from_str parse_f64 alloc io fs db = (stats, fs', db')" "sink_file fs = Some c" "sink_file fs' = Some c"
  shows "sink_synced fs' = sink_synced fs \<and> sink_named fs' = sink_named fs"
  using assms by (auto simp: import_into_def archive_sink_def Let_def split: if_splits prod.splits)

lemma restarts_import:
  assumes "rowid_fresh alloc" "q \<in> set (sink_payloads from_str parse_f64 c)"
  shows "journal_wf db \<Longrightarrow> sink_file fs = Some c \<Longrightarrow> sink_synced fs = length c \<Longrightarrow>
    \<forall>(kept, lost, io)\<in>set starts. lost \<longrightarrow> sink_named fs \<Longrightarrow>
    \<exists>(kept, lost, io)\<in>set starts. im_exists io \<and> im_read io \<and> im_sql io = (\<lambda>_ _. None) \<Longrightarrow>
    sink_restarts from_str parse_f64 alloc starts fs db = (fs', db') \<Longrightarrow> p_key q \<in> q_key ` set (finds db')"
proof (induction starts arbitrary: fs db)
  case (Cons start starts)
  obtain kept lost io where start: "start = (kept, lost, io)" by (metis prod_cases3)
  have crash: "sink_crash kept lost fs = fs" using Cons.prems(2-4) by (auto simp: sink_crash_def start)
  obtain stats fs1 db1 where i: "import_into from_str parse_f64 alloc io fs db = (stats, fs1, db1)" by (metis prod_cases3)
  have rest: "sink_restarts from_str parse_f64 alloc starts fs1 db1 = (fs', db')" using Cons.prems(6) i by (simp add: start crash)
  note safe = import_into_safe[OF Cons.prems(1) assms(1) i]
  show ?case
  proof (cases "p_key q \<in> q_key ` set (finds db1)")
    case True
    have "keeps_finds db1 db'" using restarts_keep[OF assms(1) _ rest] safe by blast
    then show ?thesis using True keeps_finds_keys by blast
  next
    case False
    then have "sink_file fs1 = Some c" using safe assms(2) Cons.prems(2) by (auto simp: sink_content_def)
    moreover have "\<not> (im_exists io \<and> im_read io \<and> im_sql io = (\<lambda>_ _. None))"
      using import_working[OF Cons.prems(1) assms(1) Cons.prems(2) _ _ _ i] False assms(2) by blast
    ultimately show ?thesis
      using Cons.IH[OF _ _ _ _ _ rest] safe import_leaves_file[OF i Cons.prems(2)] Cons.prems(3-5) by (auto simp: start)
  qed
qed simp

definition working_append :: append_io where
  "working_append = \<lparr> ap_create = True, ap_open = True, ap_write = None, ap_sync = True, ap_dir = True \<rparr>"

definition working_import :: import_io where
  "working_import = \<lparr> im_exists = True, im_read = True, im_remove = True, im_rename = True, im_sql = (\<lambda>_ _. None) \<rparr>"

definition no_sink :: sink_fs where
  "no_sink = \<lparr> sink_file = None, sink_archive = None, sink_synced = 0, sink_named = False \<rparr>"

lemma sample_find_ok: "payload_ok sample_find"
proof -
  have "quotient_of (7 :: rat) = (7, 1)" by code_simp
  then have "binary64 (Finite 7)" by (simp, metis power_0)
  then show ?thesis by (simp add: payload_ok_def sample_find_def valid_utf8_ascii byte_of_def)
qed

lemma working_append_taken:
  "sink_append show_f64 working_append p no_sink
   = (True, \<lparr> sink_file = Some (sink_serialize show_f64 p), sink_archive = None,
              sink_synced = length (sink_serialize show_f64 p), sink_named = True \<rparr>)"
  by (simp add: sink_append_def working_append_def no_sink_def open_new_def write_all_def sink_content_def
      sync_parent_directory_def Let_def)

theorem fallback_recovers_witness:
  "\<exists>stats fs2. import_into ref_from_str read_f64 next_rowid working_import
       (sink_crash 0 True (snd (sink_append show_dyadic working_append sample_find no_sink))) empty_db
     = (stats, fs2, snd (append_find (\<lambda>_. None) next_rowid sample_find empty_db)) \<and> is_imported stats = 1"
proof -
  have "whole_lines (sink_content no_sink)" "sink_content no_sink = []" by (simp_all add: no_sink_def sink_content_def whole_lines_def)
  moreover have "reread_payload (\<lambda>f. f) sample_find = sample_find" by (simp add: reread_payload_def sample_find_def)
  ultimately show ?thesis
    using fallback_recovers[OF ref.serde_json_axioms sample_find_ok _ working_append_taken, of True working_import next_rowid 0 empty_db]
    by (auto simp: working_import_def working_append_taken)
qed

text \<open>C32.  An import never strands a find.  Whatever fails, the journal keeps its finds and its
  invariants, and the sink file is either left as it was, for the next start to retry, or archived
  byte for byte with every find of it in the journal.\<close>

theorem import_never_strands:
  assumes "journal_wf db" "rowid_fresh alloc" "import_into from_str parse_f64 alloc io fs db = (stats, fs', db')"
  shows "journal_wf db' \<and> keeps_finds db db'
    \<and> (sink_file fs' = sink_file fs
       \<or> sink_file fs' = None \<and> sink_archive fs' = sink_file fs
         \<and> p_key ` set (sink_payloads from_str parse_f64 (sink_content fs)) \<subseteq> q_key ` set (finds db'))"
  by (rule import_into_safe[OF assms])

theorem import_never_strands_witness:
  "(case import_into ref_from_str read_f64 next_rowid (working_import\<lparr> im_sql := (\<lambda>_ _. Some ''locked'') \<rparr>)
        (snd (sink_append show_dyadic working_append sample_find no_sink)) empty_db of
      (stats, fs', db') \<Rightarrow> keeps_finds empty_db db')"
  using import_never_strands[OF empty_db_wf next_rowid_fresh] by (auto split: prod.splits)

text \<open>C34.  A torn line takes the next find with it.  When a write stops after the first byte of its
  line, the find appended next is answered true, but the two share one line, which no JSON parser
  accepts, and the import finds nothing.\<close>

theorem torn_line_swallows_next:
  assumes "serde_json from_str show_f64 number parse_f64 reread" "\<And>t. from_str (CHR ''{'' # CHR ''{'' # t) = None" "payload_ok p"
  shows "(case sink_append show_f64 (working_append\<lparr> ap_write := Some 1 \<rparr>) q no_sink of
      (taken, fs1) \<Rightarrow> \<not> taken \<and>
        (case sink_append show_f64 working_append p fs1 of
           (taken, fs2) \<Rightarrow> taken \<and> sink_payloads from_str parse_f64 (sink_content fs2) = []))"
proof -
  define body where "body = CHR ''{'' # commas (payload_members show_f64 p) @ ''}''"
  define torn where "torn = CHR ''{'' # body"
  have l: "sink_serialize show_f64 p = body @ [CHR 0x0A]" by (simp add: serialize_is_object body_def)
  have t: "take 1 (sink_serialize show_f64 q) = ''{''" by (simp add: serialize_is_object)
  have torn: "torn = CHR ''{'' # (CHR ''{'' # commas (payload_members show_f64 p)) @ ''}''" by (simp add: torn_def body_def)
  have none: "line_payload from_str parse_f64 torn = None"
    using assms(2) trim_object[of "CHR ''{'' # commas (payload_members show_f64 p)"]
    by (simp add: torn line_payload_def parse_line_def parse_payload_def)
  have "CHR 0x0A \<notin> set torn"
    using plain_no_newline[OF serde_json.line_plain[OF assms(1,3)]] by (simp add: torn_def body_def)
  then have "sink_payloads from_str parse_f64 torn = []"
    using sink_payloads_tail[of "[]" torn from_str parse_f64] none by (simp add: whole_lines_def)
  then have "sink_payloads from_str parse_f64 (torn @ CHR 0x0A # []) = []" by (simp add: sink_payloads_append)
  then show ?thesis
    using t by (simp add: sink_append_def working_append_def no_sink_def open_new_def open_append_def write_all_def
        sink_content_def sync_parent_directory_def Let_def l torn_def)
qed

theorem torn_line_swallows_next_witness:
  "(case sink_append show_dyadic (working_append\<lparr> ap_write := Some 1 \<rparr>) sample_find no_sink of
      (taken, fs1) \<Rightarrow> \<not> taken \<and>
        (case sink_append show_dyadic working_append sample_find fs1 of
           (taken, fs2) \<Rightarrow> taken \<and> sink_payloads ref_from_str read_f64 (sink_content fs2) = []))"
proof -
  have "ref_from_str (CHR ''{'' # CHR ''{'' # t) = None" for t
    by (simp add: ref_from_str_def parse_json_string_def)
  then show ?thesis by (rule torn_line_swallows_next[OF ref.serde_json_axioms _ sample_find_ok])
qed

end
