(* ===== verification/Find_Capture.thy ===== *)
theory Find_Capture
  imports Mining_State Fallback
begin

text \<open>
  \<^verbatim>\<open>treeminer/src/find.rs\<close>: the journal-first sink every producer hands its finds to.  The journal,
  the fallback sink and the mining state are the components modelled before; what the sink calls
  (database, file system, clock) answers through \<open>capture_io\<close>.  The verifier is \<open>cpu_verify\<close> in
  production and a field of the sink, as in the source.  Console and log lines are left out.
\<close>

record find =
  fd_hexsalt :: string
  fd_key :: string
  fd_digest :: string
  fd_memory_cost :: nat
  fd_attempts :: nat
  fd_hashes_per_second :: f64
  fd_source :: string

datatype capture = Cap_Journaled int | Cap_Fallback | Cap_Rejected | Cap_Lost

fun is_durable :: "capture \<Rightarrow> bool" where
  "is_durable (Cap_Journaled i) = True"
| "is_durable Cap_Fallback = True"
| "is_durable Cap_Rejected = False"
| "is_durable Cap_Lost = False"

datatype verification = Ver_Match | Ver_Mismatch string | Ver_Unavailable string

definition cpu_verify :: "(string \<Rightarrow> bytes option) \<Rightarrow> argon2_crate_fn \<Rightarrow> find \<Rightarrow> verification" where
  "cpu_verify decode argon2 hit =
     (case argon2id_phc decode argon2 (fd_hexsalt hit) (fd_key hit) (fd_memory_cost hit) of
        Inl e \<Rightarrow> Ver_Unavailable (hash_error_text e)
      | Inr phc \<Rightarrow>
          (case phc_digest phc of
             Some digest \<Rightarrow> if digest = fd_digest hit then Ver_Match else Ver_Mismatch digest
           | None \<Rightarrow> Ver_Unavailable ''CPU produced an unparseable PHC string''))"

text \<open>What a sink is built with; \<open>sk_notifier\<close> and \<open>sk_observer\<close> say whether the callback is
  installed, \<open>sk_decode\<close>, \<open>sk_show_f64\<close> and \<open>sk_new_rowid\<close> are the crates it uses.\<close>

record find_sink =
  sk_machine_id :: string
  sk_verifier :: "find \<Rightarrow> verification"
  sk_notifier :: bool
  sk_observer :: bool
  sk_decode :: "string \<Rightarrow> bytes option"
  sk_show_f64 :: "f64 \<Rightarrow> string"
  sk_new_rowid :: "int list \<Rightarrow> int"

definition find_sink_new ::
  "(string \<Rightarrow> bytes option) \<Rightarrow> argon2_crate_fn \<Rightarrow> (f64 \<Rightarrow> string) \<Rightarrow> (int list \<Rightarrow> int) \<Rightarrow> string \<Rightarrow> find_sink" where
  "find_sink_new decode argon2 show_f64 new_rowid machine_id =
     \<lparr> sk_machine_id = machine_id, sk_verifier = cpu_verify decode argon2, sk_notifier = False, sk_observer = False,
       sk_decode = decode, sk_show_f64 = show_f64, sk_new_rowid = new_rowid \<rparr>"

record capture_io =
  ci_sql :: sql_io
  ci_counts :: sql_io
  ci_sink :: append_io
  ci_now_utc :: string

record capture_world =
  cw_db :: journal_db
  cw_fs :: sink_fs
  cw_state :: mining_state
  cw_notified :: nat
  cw_observed :: "(find \<times> found_payload) list"

definition payload_for :: "find_sink \<Rightarrow> string \<Rightarrow> find \<Rightarrow> string + found_payload" where
  "payload_for sk now_utc hit =
     rbind (map_err (\<lambda>e. ''cannot encode find: '' @ hex_error_text e)
              (assemble_phc (sk_decode sk) (fd_memory_cost hit) (fd_hexsalt hit) (fd_digest hit)))
       (\<lambda>hash_to_verify.
        Inr \<lparr> p_key = fd_key hit, p_hash_to_verify = hash_to_verify, p_account = ''0x'' @ fd_hexsalt hit,
              p_kind = (if has_xuni_match (fd_digest hit) then Xuni else Xen11),
              p_memory_cost = fd_memory_cost hit, p_worker = sk_machine_id sk, p_attempts = fd_attempts hit,
              p_hashes_per_second = fd_hashes_per_second hit, p_found_at_utc = now_utc \<rparr>)"

definition reject_if_unverified :: "find_sink \<Rightarrow> find \<Rightarrow> capture option" where
  "reject_if_unverified sk hit =
     (case sk_verifier sk hit of
        Ver_Match \<Rightarrow> None
      | Ver_Unavailable reason \<Rightarrow> None
      | Ver_Mismatch cpu_digest \<Rightarrow> Some Cap_Rejected)"

definition refresh_queue_counts :: "capture_io \<Rightarrow> capture_world \<Rightarrow> capture_world" where
  "refresh_queue_counts io w =
     (case counts (ci_counts io) (cw_db w) of
        Inl e \<Rightarrow> w
      | Inr c \<Rightarrow> w\<lparr> cw_state := set_queued (jc_queued_xen11 c) (jc_queued_xuni c) (cw_state w) \<rparr>)"

definition persist :: "find_sink \<Rightarrow> capture_io \<Rightarrow> found_payload \<Rightarrow> capture_world \<Rightarrow> capture \<times> capture_world" where
  "persist sk io payload w =
     (case append_find (ci_sql io) (sk_new_rowid sk) payload (cw_db w) of
        (Inr i, db) \<Rightarrow> (Cap_Journaled i, refresh_queue_counts io (w\<lparr> cw_db := db \<rparr>))
      | (Inl e, db) \<Rightarrow>
          (let w = w\<lparr> cw_db := db \<rparr>
           in case sink_append (sk_show_f64 sk) (ci_sink io) payload (cw_fs w) of
                (True, fs) \<Rightarrow> (Cap_Fallback, w\<lparr> cw_fs := fs \<rparr>)
              | (False, fs) \<Rightarrow>
                  (Cap_Lost, w\<lparr> cw_fs := fs, cw_state := declare_fatal_durability_failure
                     (''journal append and fallback sink both failed: '' @ journal_error_text e) (cw_state w) \<rparr>)))"

definition account :: "find \<Rightarrow> capture \<Rightarrow> capture_world \<Rightarrow> capture_world" where
  "account hit capture w =
     (if is_durable capture
      then w\<lparr> cw_state := record_find_class (classify_find (fd_digest hit)) (cw_state w) \<rparr> else w)"

definition record_find :: "find_sink \<Rightarrow> capture_io \<Rightarrow> find \<Rightarrow> capture_world \<Rightarrow> capture \<times> capture_world" where
  "record_find sk io hit w =
     (case payload_for sk (ci_now_utc io) hit of
        Inl e \<Rightarrow> (Cap_Lost, w)
      | Inr payload \<Rightarrow>
          (case reject_if_unverified sk hit of
             Some capture \<Rightarrow> (capture, w)
           | None \<Rightarrow>
               (case persist sk io payload w of
                  (capture, w) \<Rightarrow>
                    (let w = account hit capture w;
                         w = (case capture of
                                Cap_Journaled i \<Rightarrow> if sk_notifier sk then w\<lparr> cw_notified := cw_notified w + 1 \<rparr> else w
                              | _ \<Rightarrow> w);
                         w = (if is_durable capture \<and> sk_observer sk
                              then w\<lparr> cw_observed := cw_observed w @ [(hit, payload)] \<rparr> else w)
                     in (capture, w)))))"

subsection \<open>Frames\<close>

lemma account_frame [simp]:
  "cw_db (account f c w) = cw_db w" "cw_fs (account f c w) = cw_fs w"
  "ms_fatal_durability (cw_state (account f c w)) = ms_fatal_durability (cw_state w)"
  "ms_running (cw_state (account f c w)) = ms_running (cw_state w)" "cw_observed (account f c w) = cw_observed w"
  by (simp_all add: account_def)

lemma refresh_frame [simp]:
  "cw_db (refresh_queue_counts io w) = cw_db w" "cw_fs (refresh_queue_counts io w) = cw_fs w"
  "finds_counted (cw_state (refresh_queue_counts io w)) = finds_counted (cw_state w)"
  "cw_observed (refresh_queue_counts io w) = cw_observed w"
  by (simp_all add: refresh_queue_counts_def set_queued_def finds_counted_def split: sum.splits)

lemma declare_counts [simp]: "finds_counted (declare_fatal_durability_failure r s) = finds_counted s"
  by (simp add: declare_fatal_durability_failure_def request_stop_def finds_counted_def)

text \<open>The branches of \<open>record_find\<close>: refused encoding, refused digest, or what persisting gave.\<close>

lemma record_find_cases:
  assumes "record_find sk io hit w = (c, w')"
  obtains (unencodable) e where "payload_for sk (ci_now_utc io) hit = Inl e" "c = Cap_Lost" "w' = w"
    | (mismatch) d p where "payload_for sk (ci_now_utc io) hit = Inr p" "sk_verifier sk hit = Ver_Mismatch d" "c = Cap_Rejected" "w' = w"
    | (persisted) p w1 where "payload_for sk (ci_now_utc io) hit = Inr p" "\<forall>d. sk_verifier sk hit \<noteq> Ver_Mismatch d"
        "persist sk io p w = (c, w1)" "cw_db w' = cw_db w1" "cw_fs w' = cw_fs w1"
        "ms_fatal_durability (cw_state w') = ms_fatal_durability (cw_state w1)" "ms_running (cw_state w') = ms_running (cw_state w1)"
        "finds_counted (cw_state w') = finds_counted (cw_state w1) + (if is_durable c then 1 else 0)"
        "cw_observed w' = cw_observed w1 @ (if is_durable c \<and> sk_observer sk then [(hit, p)] else [])"
proof (cases "payload_for sk (ci_now_utc io) hit")
  case (Inl e)
  then show ?thesis using assms unencodable by (simp add: record_find_def)
next
  case (Inr p)
  show ?thesis
  proof (cases "\<exists>d. sk_verifier sk hit = Ver_Mismatch d")
    case True
    then obtain d where "sk_verifier sk hit = Ver_Mismatch d" by blast
    then show ?thesis using assms mismatch Inr by (simp add: record_find_def reject_if_unverified_def)
  next
    case False
    then have r: "reject_if_unverified sk hit = None" by (auto simp: reject_if_unverified_def split: verification.splits)
    obtain c1 w1 where p: "persist sk io p w = (c1, w1)" by fastforce
    have c: "c1 = c" using assms Inr r p by (simp add: record_find_def Let_def)
    have w': "w' = (let w = account hit c w1;
          w = (case c of Cap_Journaled i \<Rightarrow> if sk_notifier sk then w\<lparr> cw_notified := cw_notified w + 1 \<rparr> else w | _ \<Rightarrow> w)
        in if is_durable c \<and> sk_observer sk then w\<lparr> cw_observed := cw_observed w @ [(hit, p)] \<rparr> else w)"
      using assms Inr r p c by (simp add: record_find_def Let_def)
    have n: "finds_counted (cw_state (account hit c w1)) = finds_counted (cw_state w1) + (if is_durable c then 1 else 0)"
      by (simp add: account_def record_find_class_counts)
    have f: "cw_db w' = cw_db w1" "cw_fs w' = cw_fs w1"
      "ms_fatal_durability (cw_state w') = ms_fatal_durability (cw_state w1)" "ms_running (cw_state w') = ms_running (cw_state w1)"
      unfolding w' Let_def by (cases c; simp)+
    have g: "cw_state w' = cw_state (account hit c w1)" unfolding w' Let_def by (cases c; simp)
    have h: "cw_observed w' = cw_observed w1 @ (if is_durable c \<and> sk_observer sk then [(hit, p)] else [])"
      unfolding w' Let_def by (cases c; simp)
    have v: "\<forall>d. sk_verifier sk hit \<noteq> Ver_Mismatch d" using False by blast
    show ?thesis by (rule persisted[OF Inr v p[unfolded c] f n[folded g] h])
  qed
qed

lemma persist_cases:
  assumes "persist sk io p w = (c, w')"
  obtains (journaled) i where "c = Cap_Journaled i" "append_find (ci_sql io) (sk_new_rowid sk) p (cw_db w) = (Inr i, cw_db w')"
        "cw_fs w' = cw_fs w" "finds_counted (cw_state w') = finds_counted (cw_state w)" "cw_observed w' = cw_observed w"
    | (fallback) "c = Cap_Fallback" "cw_db w' = cw_db w" "sink_append (sk_show_f64 sk) (ci_sink io) p (cw_fs w) = (True, cw_fs w')"
        "finds_counted (cw_state w') = finds_counted (cw_state w)" "cw_observed w' = cw_observed w"
    | (lost) "c = Cap_Lost" "cw_db w' = cw_db w" "ms_fatal_durability (cw_state w')" "\<not> ms_running (cw_state w')"
        "finds_counted (cw_state w') = finds_counted (cw_state w)" "cw_observed w' = cw_observed w"
proof -
  obtain r db where a: "append_find (ci_sql io) (sk_new_rowid sk) p (cw_db w) = (r, db)" by fastforce
  show ?thesis
  proof (cases r)
    case (Inr i)
    show ?thesis using assms a Inr by (intro journaled[of i]) (auto simp: persist_def)
  next
    case (Inl e)
    have db: "db = cw_db w" using a Inl by (auto simp: append_find_def dest: settle_error)
    obtain taken fs where s: "sink_append (sk_show_f64 sk) (ci_sink io) p (cw_fs w) = (taken, fs)" by fastforce
    show ?thesis
    proof (cases taken)
      case True
      show ?thesis using assms a Inl s True db by (intro fallback) (auto simp: persist_def)
    next
      case False
      show ?thesis using assms a Inl s False db by (intro lost) (auto simp: persist_def declare_fatal)
    qed
  qed
qed


lemma record_find_rejects:
  assumes "record_find sk io hit w = (c, w')"
  shows "c = Cap_Rejected \<longleftrightarrow> (\<exists>p. payload_for sk (ci_now_utc io) hit = Inr p) \<and> (\<exists>d. sk_verifier sk hit = Ver_Mismatch d)"
    "is_durable c \<Longrightarrow> \<nexists>d. sk_verifier sk hit = Ver_Mismatch d"
proof -
  have "c \<noteq> Cap_Rejected" if "persist sk io p w = (c, w1)" for p w1 using that by (cases rule: persist_cases) simp_all
  with assms show "c = Cap_Rejected \<longleftrightarrow> (\<exists>p. payload_for sk (ci_now_utc io) hit = Inr p) \<and> (\<exists>d. sk_verifier sk hit = Ver_Mismatch d)"
    "is_durable c \<Longrightarrow> \<nexists>d. sk_verifier sk hit = Ver_Mismatch d"
    by (cases rule: record_find_cases; auto)+
qed

subsection \<open>The CPU check\<close>

definition true_digest :: "find \<Rightarrow> string" where
  "true_digest hit =
     base64_encode (argon2id (as_bytes (fd_key hit)) (hex_bytes (fd_hexsalt hit)) (shape_for_difficulty (fd_memory_cost hit)))"

text \<open>A find of a batch the CPU implementation accepts: an address or other salt of at least eight
  bytes, a memory cost of at least eight.\<close>

definition checkable :: "find \<Rightarrow> bool" where
  "checkable hit \<longleftrightarrow> is_hex_string (fd_hexsalt hit) \<and> even (length (fd_hexsalt hit)) \<and> 16 \<le> length (fd_hexsalt hit)
     \<and> length (fd_hexsalt hit) < 2 ^ 32 \<and> length (fd_key hit) < 2 ^ 32 \<and> 8 \<le> fd_memory_cost hit \<and> fd_memory_cost hit < 2 ^ 32"

lemma to_digit16_lower: "to_digit16 (to_ascii_lower c) = to_digit16 c"
proof (cases "is_ascii_uppercase c")
  case True
  then have "byte_of (to_ascii_lower c) = byte_of c + 32" by (simp add: to_ascii_lower_def is_ascii_uppercase_def byte_of_def of_char_of)
  then show ?thesis using True by (auto simp: to_digit16_def is_ascii_uppercase_def Let_def)
qed (simp add: to_ascii_lower_def)

lemma hex_bytes_lower: "hex_bytes (map to_ascii_lower s) = hex_bytes s"
  by (induction s rule: hex_bytes.induct) (simp_all add: to_digit16_lower)

lemma hexdigit_lower: "is_ascii_hexdigit (to_ascii_lower c) = is_ascii_hexdigit c"
  using to_digit16_hex[of c] to_digit16_hex[of "to_ascii_lower c"] by (simp add: to_digit16_lower)

lemma normalize_hex_hex: "is_hex_string s \<Longrightarrow> normalize_hex s = map to_ascii_lower s"
  by (auto simp: normalize_hex_def is_hex_string_def starts_with_iff is_ascii_hexdigit_def is_ascii_digit_def byte_of_def
      split: option.splits if_splits)

lemma cpu_verify_exact:
  assumes "argon2_crate argon2" "hex_crate decode" "checkable hit"
  shows "cpu_verify decode argon2 hit
    = (if fd_digest hit = true_digest hit then Ver_Match else Ver_Mismatch (true_digest hit))"
proof -
  let ?s = "map to_ascii_lower (fd_hexsalt hit)"
  have c: "is_hex_string (fd_hexsalt hit)" "even (length (fd_hexsalt hit))" "16 \<le> length (fd_hexsalt hit)"
    "length (fd_hexsalt hit) < 2 ^ 32" "length (fd_key hit) < 2 ^ 32" "8 \<le> fd_memory_cost hit" "fd_memory_cost hit < 2 ^ 32"
    using assms(3) by (simp_all add: checkable_def)
  have n: "normalize_hex (fd_hexsalt hit) = ?s" using c(1) by (rule normalize_hex_hex)
  have "is_hex_string ?s" using c(1) by (simp add: is_hex_string_def list_all_iff hexdigit_lower)
  then have h: "hex_to_bytes decode ?s = Inr (hex_bytes (fd_hexsalt hit))"
    using hex_crate.salt_decodes[OF assms(2), of ?s] c(2) by (simp add: hex_bytes_lower even_iff_mod_2_eq_zero)
  have len: "8 \<le> length (hex_bytes (fd_hexsalt hit))" "length (hex_bytes (fd_hexsalt hit)) < 2 ^ 32"
    using c(3,4) by (simp_all add: length_hex_bytes)
  have d: "argon2id_digest argon2 (hex_bytes (fd_hexsalt hit)) (as_bytes (fd_key hit)) (fd_memory_cost hit)
      = Inr (argon2id (as_bytes (fd_key hit)) (hex_bytes (fd_hexsalt hit)) (shape_for_difficulty (fd_memory_cost hit)))"
    using c(5) by (intro argon2_crate.digest_ok[OF assms(1) c(6,7) len]) (simp add: as_bytes_def)
  obtain phc where p: "assemble_phc decode (fd_memory_cost hit) ?s (true_digest hit) = Inr phc"
    by (simp add: assemble_phc_def h)
  have "argon2id a b e \<noteq> []" for a b e using length_hprime[of 64] by (metis argon2id_def length_0_conv zero_neq_numeral)
  then have "phc_digest phc = Some (true_digest hit)"
    by (intro phc_digest_assemble[OF p]) (simp_all add: true_digest_def base64_encode_nonempty dollar_not_base64)
  then show ?thesis using p by (auto simp: cpu_verify_def argon2id_phc_def n h d true_digest_def)
qed

subsection \<open>Properties\<close>

definition row_of :: "found_payload \<Rightarrow> int \<Rightarrow> journal_db \<Rightarrow> journal_db \<Rightarrow> bool" where
  "row_of p i db db' \<longleftrightarrow>
     (\<exists>row\<in>set (finds db'). q_id row = i \<and> q_key row = p_key p
        \<and> (p_key p \<notin> q_key ` set (finds db) \<longrightarrow> captured row = captured (insert_row i p)))"

lemma append_find_row:
  assumes "append_find io alloc p db = (Inr i, db')"
  shows "row_of p i db db'"
proof (cases "find (\<lambda>row. q_key row = p_key p) (finds db)")
  case None
  then show ?thesis using assms by (auto simp: row_of_def append_find_def settle_ok rbind_Inr_iff Let_def)
next
  case (Some row)
  then have r: "row \<in> set (finds db)" "q_key row = p_key p" by (auto simp: find_Some_iff)
  then have "p_key p \<in> q_key ` set (finds db)" by force
  then show ?thesis using assms Some r by (auto simp: row_of_def append_find_def settle_ok rbind_Inr_iff Let_def)
qed

lemma capture_facts:
  assumes "journal_wf (cw_db w)" "rowid_fresh (sk_new_rowid sk)" "record_find sk io hit w = (c, w')"
  shows "journal_wf (cw_db w') \<and> keeps_finds (cw_db w) (cw_db w')
    \<and> (case c of
         Cap_Journaled i \<Rightarrow> \<exists>p. payload_for sk (ci_now_utc io) hit = Inr p \<and> row_of p i (cw_db w) (cw_db w') \<and> cw_fs w' = cw_fs w
       | Cap_Fallback \<Rightarrow> \<exists>p. payload_for sk (ci_now_utc io) hit = Inr p
           \<and> sink_file (cw_fs w') = Some (sink_content (cw_fs w) @ sink_serialize (sk_show_f64 sk) p)
       | Cap_Rejected \<Rightarrow> (\<exists>d. sk_verifier sk hit = Ver_Mismatch d) \<and> w' = w
       | Cap_Lost \<Rightarrow> (case payload_for sk (ci_now_utc io) hit of
             Inl e \<Rightarrow> w' = w
           | Inr p \<Rightarrow> ms_fatal_durability (cw_state w') \<and> \<not> is_running (cw_state w')))
    \<and> finds_counted (cw_state w') = finds_counted (cw_state w) + (if is_durable c then 1 else 0)
    \<and> (cw_observed w' = cw_observed w \<or> is_durable c)"
  using assms(3)
proof (cases rule: record_find_cases)
  case unencodable
  then show ?thesis using assms(1) by simp
next
  case mismatch
  then show ?thesis using assms(1) by simp
next
  case (persisted p w1)
  from persisted(3) show ?thesis
  proof (cases rule: persist_cases)
    case (journaled i)
    then show ?thesis using persisted append_find_row[OF journaled(2)] append_find_step[OF assms(1,2), of "ci_sql io" p] by simp
  next
    case fallback
    then show ?thesis using persisted sink_append_taken(1)[OF fallback(3)] assms(1) by simp
  next
    case lost
    then show ?thesis using persisted assms(1) by (simp add: is_running_def)
  qed
qed



text \<open>A find of a twenty-byte address whose digest is the true one, and a fresh world.\<close>

definition demo_find :: find where
  "demo_find =
     (let hit = \<lparr> fd_hexsalt = ''abcdef0123456789ABCDEF012345678900112233'', fd_key = replicate 64 (CHR ''a''), fd_digest = [],
        fd_memory_cost = 9, fd_attempts = 5, fd_hashes_per_second = Finite 7, fd_source = ''GPU'' \<rparr>
      in hit\<lparr> fd_digest := true_digest hit \<rparr>)"

definition demo_sink :: find_sink where
  "demo_sink = find_sink_new hex_decode rfc_argon2 show_dyadic next_rowid ''w1''"

definition demo_io :: capture_io where
  "demo_io = \<lparr> ci_sql = (\<lambda>_. None), ci_counts = (\<lambda>_. None), ci_sink = working_append, ci_now_utc = ''2026-07-18T00:00:00Z'' \<rparr>"

definition demo_world :: capture_world where
  "demo_world = \<lparr> cw_db = empty_db, cw_fs = no_sink, cw_state = mining_state_new \<lparr> ds_difficulty = 9, ds_endpoint_down = False \<rparr> True 0,
     cw_notified = 0, cw_observed = [] \<rparr>"

lemma demo_checkable: "checkable demo_find"
proof -
  have "is_hex_string ''abcdef0123456789ABCDEF012345678900112233''" by (simp add: is_hex_string_def ascii_simps)
  then show ?thesis by (simp add: checkable_def demo_find_def Let_def)
qed

lemma demo_true: "fd_digest demo_find = true_digest demo_find"
  by (simp add: demo_find_def Let_def true_digest_def)

lemma checkable_payload:
  assumes "hex_crate (sk_decode sk)" "checkable hit"
  shows "\<exists>p. payload_for sk now hit = Inr p \<and> p_key p = fd_key hit"
  using hex_crate.salt_decodes[OF assms(1), of "fd_hexsalt hit"] assms(2)
  by (auto simp: payload_for_def assemble_phc_def checkable_def even_iff_mod_2_eq_zero)

lemma demo_sink_fields [simp]:
  "sk_decode demo_sink = hex_decode" "sk_verifier demo_sink = cpu_verify hex_decode rfc_argon2" "sk_new_rowid demo_sink = next_rowid"
  "sk_show_f64 demo_sink = show_dyadic"
  by (simp_all add: demo_sink_def find_sink_new_def)

lemma base64_chars_ascii: "c \<in> set base64_chars \<Longrightarrow> byte_of c < 128"
  by (auto simp: base64_chars_def byte_of_def)

lemma assemble_phc_text: "assemble_phc decode m hexsalt d = Inr h \<Longrightarrow>
    \<exists>salt. h = ''$argon2id$v=19$m='' @ show_nat m @ '',t=1,p=1$'' @ base64_encode salt @ ''$'' @ d"
  by (auto simp: assemble_phc_def split: sum.splits)

lemma demo_payload_ok: "payload_for demo_sink ''2026-07-18T00:00:00Z'' demo_find = Inr p \<Longrightarrow> payload_ok p"
proof -
  assume "payload_for demo_sink ''2026-07-18T00:00:00Z'' demo_find = Inr p"
  then have p: "p_key p = replicate 64 (CHR ''a'')" "p_account p = ''0xabcdef0123456789ABCDEF012345678900112233''"
    "p_worker p = ''w1''" "p_found_at_utc p = ''2026-07-18T00:00:00Z''" "p_memory_cost p = 9" "p_attempts p = 5"
    "p_hashes_per_second p = Finite 7"
    and h: "assemble_phc hex_decode 9 ''abcdef0123456789ABCDEF012345678900112233'' (true_digest demo_find) = Inr (p_hash_to_verify p)"
    by (auto simp: payload_for_def rbind_Inr_iff demo_find_def Let_def demo_sink_def find_sink_new_def true_digest_def)
  obtain salt where "p_hash_to_verify p = ''$argon2id$v=19$m='' @ show_nat 9 @ '',t=1,p=1$'' @ base64_encode salt @ ''$'' @ true_digest demo_find"
    using assemble_phc_text[OF h] by blast
  moreover have "valid_utf8 (base64_encode bs)" for bs
    using base64_encode_chars[of bs] base64_chars_ascii by (intro valid_utf8_ascii) (auto simp: list_all_iff)
  moreover have "valid_utf8 (show_nat 9)" by (intro valid_utf8_ascii) (use show_nat_digits in \<open>fastforce simp: list_all_iff is_ascii_digit_def\<close>)
  ultimately have "valid_utf8 (p_hash_to_verify p)"
    by (simp add: valid_utf8_append valid_utf8_Cons valid_utf8_ascii true_digest_def byte_of_def)
  moreover have "quotient_of (7 :: rat) = (7, 1)" by code_simp
  then have "binary64 (Finite 7)" by (simp, metis power_0)
  moreover have "valid_utf8 (replicate 64 (CHR ''a''))" by (rule valid_utf8_ascii) (simp add: list_all_iff byte_of_def)
  ultimately show ?thesis by (simp add: payload_ok_def p valid_utf8_ascii byte_of_def)
qed




lemma fallback_taken:
  assumes "record_find sk io hit w = (Cap_Fallback, w')"
  shows "\<exists>p. payload_for sk (ci_now_utc io) hit = Inr p \<and> sink_append (sk_show_f64 sk) (ci_sink io) p (cw_fs w) = (True, cw_fs w')"
  using assms
proof (cases rule: record_find_cases)
  case (persisted p w1)
  from persisted(3) show ?thesis
  proof (cases rule: persist_cases)
    case fallback
    then show ?thesis using persisted by simp
  qed simp_all
qed simp_all

text \<open>C4.  A captured find survives restarts.  A find the journal took stays in it.  A find the fallback
  file took, its texts UTF-8 and its numbers in their 64-bit ranges, reaches the journal if the file consisted of whole lines before (a torn line takes the
  next find with it) and no power loss takes its directory entry (which \<^verbatim>\<open>append\<close> syncs, but without
  looking at the outcome): then, over any number of starts, each after a power loss and with any
  failures of its import, the journal has a row for the find's key once one of the imports could read
  the file with the database working.  In every case the journal keeps everything it held before.\<close>

theorem find_survives_restart:
  assumes serde: "serde_json from_str (sk_show_f64 sk) number parse_f64 reread"
    and wf: "journal_wf (cw_db w)" "rowid_fresh (sk_new_rowid sk)"
    and rec: "record_find sk io hit w = (c, w')" "is_durable c"
    and file_ok: "c = Cap_Fallback \<Longrightarrow> whole_lines (sink_content (cw_fs w))
      \<and> (\<forall>p. payload_for sk (ci_now_utc io) hit = Inr p \<longrightarrow> payload_ok p)
      \<and> (\<forall>(kept, lost, iio)\<in>set starts. lost \<longrightarrow> sink_named (cw_fs w'))
      \<and> (\<exists>(kept, lost, iio)\<in>set starts. im_exists iio \<and> im_read iio \<and> im_sql iio = (\<lambda>_ _. None))"
    and run: "sink_restarts from_str parse_f64 (sk_new_rowid sk) starts (cw_fs w') (cw_db w') = (fs2, db2)"
  shows "fd_key hit \<in> q_key ` set (finds db2) \<and> journal_wf db2 \<and> keeps_finds (cw_db w) db2"
proof -
  note out = capture_facts[OF wf rec(1)]
  then have kept: "journal_wf (cw_db w')" "keeps_finds (cw_db w) (cw_db w')" by blast+
  note safe = restarts_keep[OF wf(2) kept(1) run]
  have key: "payload_for sk (ci_now_utc io) hit = Inr p \<Longrightarrow> p_key p = fd_key hit" for p
    by (auto simp: payload_for_def rbind_Inr_iff)
  have "fd_key hit \<in> q_key ` set (finds db2)"
  proof (cases c)
    case (Cap_Journaled i)
    then obtain p row where "payload_for sk (ci_now_utc io) hit = Inr p" "row \<in> set (finds (cw_db w'))" "q_key row = p_key p"
      using out by (auto simp: row_of_def)
    then have "fd_key hit \<in> q_key ` set (finds (cw_db w'))" using key[of p] by (metis image_eqI)
    then show ?thesis using keeps_finds_keys safe by blast
  next
    case Cap_Fallback
    then obtain p where p: "payload_for sk (ci_now_utc io) hit = Inr p"
      and f: "sink_append (sk_show_f64 sk) (ci_sink io) p (cw_fs w) = (True, cw_fs w')"
      using fallback_taken rec(1) by blast
    have ok: "payload_ok p" "whole_lines (sink_content (cw_fs w))" using file_ok[OF Cap_Fallback] p by simp_all
    have "reread_payload reread p \<in> set (sink_payloads from_str parse_f64 (sink_content (cw_fs w) @ sink_serialize (sk_show_f64 sk) p))"
      using serde_json.sink_line_recovered[OF serde ok] by simp
    from restarts_import[OF wf(2) this kept(1) sink_append_taken[OF f] _ _ run]
    show ?thesis using file_ok[OF Cap_Fallback] key[OF p] by (simp add: reread_payload_def)
  qed (use rec(2) in simp_all)
  then show ?thesis using safe keeps_finds_trans[OF kept(2)] by blast
qed

definition full_disk_io :: capture_io where
  "full_disk_io = demo_io\<lparr> ci_sql := (\<lambda>_. Some ''database is locked'') \<rparr>"

theorem find_survives_restart_witness:
  "\<exists>w' fs2 db2. record_find demo_sink full_disk_io demo_find demo_world = (Cap_Fallback, w') \<and> finds (cw_db w') = []
     \<and> sink_restarts ref_from_str read_f64 next_rowid
         [(0, True, working_import\<lparr> im_sql := (\<lambda>_ _. Some ''locked'') \<rparr>), (7, True, working_import\<lparr> im_rename := False \<rparr>), (0, True, working_import)]
         (cw_fs w') (cw_db w') = (fs2, db2)
     \<and> fd_key demo_find \<in> q_key ` set (finds db2)"
proof -
  have v: "reject_if_unverified demo_sink demo_find = None"
    using cpu_verify_exact[OF rfc.argon2_crate_axioms hx.hex_crate_axioms demo_checkable]
    by (simp add: reject_if_unverified_def demo_true)
  obtain p where p: "payload_for demo_sink (ci_now_utc full_disk_io) demo_find = Inr p"
    using checkable_payload[of demo_sink demo_find] hx.hex_crate_axioms demo_checkable by auto
  obtain c w' where r: "record_find demo_sink full_disk_io demo_find demo_world = (c, w')" by fastforce
  then have w: "c = Cap_Fallback \<and> cw_db w' = empty_db \<and> sink_named (cw_fs w')"
    using p v by (auto simp: record_find_def persist_def append_find_def full_disk_io_def demo_io_def demo_world_def
        sql_call_def Let_def working_append_taken account_def)
  have ok: "payload_ok q" if "payload_for demo_sink (ci_now_utc full_disk_io) demo_find = Inr q" for q
    using that demo_payload_ok by (simp add: full_disk_io_def demo_io_def)
  let ?starts = "[(0, True, working_import\<lparr> im_sql := (\<lambda>_ _. Some ''locked'') \<rparr>), (7, True, working_import\<lparr> im_rename := False \<rparr>), (0, True, working_import)]"
  obtain fs2 db2 where i: "sink_restarts ref_from_str read_f64 next_rowid ?starts (cw_fs w') (cw_db w') = (fs2, db2)" by fastforce
  have "fd_key demo_find \<in> q_key ` set (finds db2) \<and> journal_wf db2 \<and> keeps_finds (cw_db demo_world) db2"
    by (rule find_survives_restart[of ref_from_str demo_sink show_dyadic read_f64 "\<lambda>f. f" demo_world full_disk_io demo_find c w' ?starts fs2 db2])
       (use w r i ok ref.serde_json_axioms in \<open>simp_all add: working_import_def demo_world_def empty_db_wf next_rowid_fresh no_sink_def
          sink_content_def whole_lines_def\<close>)
  then show ?thesis using r w i by (auto simp: empty_db_def)
qed

end
