(* ===== verification/Mine_Unit.thy ===== *)
theory Mine_Unit
  imports Find_Capture
begin

text \<open>
  \<^verbatim>\<open>treeminer/src/mineunit.rs\<close> and \<^verbatim>\<open>treeminer/src/backend.rs\<close>: who a batch mines for, one unit
  of mining at one memory cost, and the loop that keeps a device mining.  The trait
  \<^verbatim>\<open>MiningBackend\<close> is a record of state-passing functions, built for the GPU from the pool of
  \<^verbatim>\<open>tm-gpu\<close>.  A loop takes the list of its rounds: each round says what the other threads did to the
  shared state before it, what the clocks and random numbers answer, and what the database and file
  system answer to the finds of the round.  A list that is used up is a loop still running.
\<close>

subsection \<open>Single precision\<close>

definition rnd32 :: "rat \<Rightarrow> f64" where
  "rnd32 x =
     (if x = 0 then Finite 0
      else let u = pow2 (max (bin_exp \<bar>x\<bar> - 23) (- 149)); r = of_int (round_even (x / u)) * u
           in if pow2 128 \<le> \<bar>r\<bar> then Infinite (x < 0) else Finite r)"

fun f64_as_f32 :: "f64 \<Rightarrow> f64" where
  "f64_as_f32 (Finite x) = rnd32 x"
| "f64_as_f32 y = y"

fun f32_div :: "f64 \<Rightarrow> f64 \<Rightarrow> f64" where
  "f32_div (Finite a) (Finite b) = (if b = 0 then (if a = 0 then NaN else Infinite (a < 0)) else rnd32 (a / b))"
| "f32_div (Finite a) (Infinite s) = Finite 0"
| "f32_div (Infinite s) (Finite b) = Infinite (s \<noteq> (b < 0))"
| "f32_div (Infinite s) (Infinite t) = NaN"
| "f32_div NaN y = NaN"
| "f32_div x NaN = NaN"

text \<open>\<^verbatim>\<open>f64::round\<close> (half away from zero) followed by \<^verbatim>\<open>as i32\<close> (saturating).\<close>

fun f64_round_i32 :: "f64 \<Rightarrow> int" where
  "f64_round_i32 (Finite x) =
     (let r = (if 0 \<le> x then \<lfloor>x + 1 / 2\<rfloor> else - \<lfloor>- x + 1 / 2\<rfloor>) in max (- (2 ^ 31)) (min (2 ^ 31 - 1) r))"
| "f64_round_i32 (Infinite neg) = (if neg then - (2 ^ 31) else 2 ^ 31 - 1)"
| "f64_round_i32 NaN = 0"

subsection \<open>Who a batch mines for\<close>

definition DEVFEE_PREFIX :: string where "DEVFEE_PREFIX = ''FFFFFFFF''"
definition ECODEVFEE_PREFIX :: string where "ECODEVFEE_PREFIX = ''EEEEEEEE''"
definition DEVFEE_CYCLE :: int where "DEVFEE_CYCLE = 1000"
definition KEY_LENGTH :: nat where "KEY_LENGTH = 64"

record mining_identity =
  id_user_address :: string
  id_devfee_address :: string
  id_eco_devfee_address :: string
  id_devfee_permillage :: int
  id_self_mining_prefix :: string
  id_test_block_pattern :: "string option"

definition mining_identity_new :: "string \<Rightarrow> mining_identity" where
  "mining_identity_new user_address =
     \<lparr> id_user_address = user_address, id_devfee_address = [], id_eco_devfee_address = [], id_devfee_permillage = 0,
       id_self_mining_prefix = [], id_test_block_pattern = None \<rparr>"

definition block_pattern :: "mining_identity \<Rightarrow> string" where
  "block_pattern ident = (case id_test_block_pattern ident of None \<Rightarrow> ''XEN11'' | Some p \<Rightarrow> p)"

definition without_0x :: "string \<Rightarrow> string" where
  "without_0x s = (if starts_with s ''0x'' then drop 2 s else s)"

definition user_salt :: "mining_identity \<Rightarrow> string" where
  "user_salt ident = without_0x (id_user_address ident)"

record work =
  wk_salt_hex :: string
  wk_key_prefix :: string

definition select_work :: "mining_identity \<Rightarrow> int \<Rightarrow> work" where
  "select_work ident batch_index =
     (let salt = user_salt ident
      in if id_self_mining_prefix ident \<noteq> [] then \<lparr> wk_salt_hex = salt, wk_key_prefix = id_self_mining_prefix ident \<rparr>
         else if DEVFEE_CYCLE - batch_index > id_devfee_permillage ident then \<lparr> wk_salt_hex = salt, wk_key_prefix = [] \<rparr>
         else
           (let eco = DEVFEE_CYCLE - batch_index \<le> id_devfee_permillage ident sdiv 2 \<and> id_eco_devfee_address ident \<noteq> [];
                (address, prefix) = (if eco then (id_eco_devfee_address ident, ECODEVFEE_PREFIX)
                                     else (id_devfee_address ident, DEVFEE_PREFIX))
            in \<lparr> wk_salt_hex = without_0x address, wk_key_prefix = prefix @ salt \<rparr>))"

definition xuni_window_open_at :: "int \<Rightarrow> bool" where
  "xuni_window_open_at server_epoch_ms = win_open (xuni_window_at server_epoch_ms)"

definition generate_keys :: "(nat \<Rightarrow> u64) \<Rightarrow> string \<Rightarrow> nat \<Rightarrow> string list option" where
  "generate_keys rng prefix count = map_option fst (next_keys rng count (key_generator_new prefix KEY_LENGTH))"

subsection \<open>Backends\<close>

record device_facts =
  df_index :: int
  df_name :: string
  df_bus_id :: int
  df_total_memory_bytes :: nat

text \<open>A batch comes back with an outcome or an error, or unwinds the thread.\<close>

datatype batch_answer = Batch_Ok batch_outcome | Batch_Failed string | Batch_Panic string

record 'b mining_backend =
  mb_device :: device_facts
  mb_release :: "'b \<Rightarrow> 'b"
  mb_plan :: "nat \<Rightarrow> nat \<Rightarrow> nat \<Rightarrow> 'b \<Rightarrow> (string + batch_size_decision) \<times> 'b"
  mb_run :: "batch_request \<Rightarrow> 'b \<Rightarrow> batch_answer \<times> 'b"

definition DEVICE_HEADROOM_BYTES :: nat where "DEVICE_HEADROOM_BYTES = 512 * 1024 * 1024"

definition gpu_plan ::
  "gpu_runtime_kind \<Rightarrow> (nat \<Rightarrow> gpu_error + nat) \<Rightarrow> device_facts \<Rightarrow> nat \<Rightarrow> nat \<Rightarrow> nat \<Rightarrow> gpu
   \<Rightarrow> (string + batch_size_decision) \<times> gpu" where
  "gpu_plan runtime free facts difficulty explicit_max_batch_size streams_per_device g =
     (if streams_per_device \<le> 1 then apfst (map_err gpu_error_text) (plan_batch_size runtime free difficulty explicit_max_batch_size g)
      else
        (let g = release_buffers g
         in case free (g_calls g) of
              Inl e \<Rightarrow> (Inl (gpu_error_text e), g\<lparr> g_calls := Suc (g_calls g) \<rparr>)
            | Inr n \<Rightarrow>
                (let shareable = df_total_memory_bytes facts - DEVICE_HEADROOM_BYTES;
                     share = shareable div streams_per_device
                 in (Inr (select_batch_size runtime (min n share) difficulty explicit_max_batch_size),
                     g\<lparr> g_calls := Suc (g_calls g) \<rparr>))))"

definition gpu_run ::
  "driver \<Rightarrow> (string \<Rightarrow> bytes option) \<Rightarrow> nat \<Rightarrow> host_fill_fn \<Rightarrow> host_finalize_fn \<Rightarrow> batch_request \<Rightarrow> gpu \<Rightarrow> batch_answer \<times> gpu" where
  "gpu_run d decode hw fill host request g =
     (case run_batch d decode hw fill host request g of
        (Inl e, g) \<Rightarrow> (Batch_Failed (gpu_error_text e), g)
      | (Inr (Inl panic), g) \<Rightarrow> (Batch_Panic panic, g)
      | (Inr (Inr outcome), g) \<Rightarrow> (Batch_Ok outcome, g))"

definition gpu_mining_backend ::
  "driver \<Rightarrow> (string \<Rightarrow> bytes option) \<Rightarrow> nat \<Rightarrow> host_fill_fn \<Rightarrow> host_finalize_fn \<Rightarrow> gpu_runtime_kind \<Rightarrow> (nat \<Rightarrow> gpu_error + nat)
   \<Rightarrow> device_facts \<Rightarrow> gpu mining_backend" where
  "gpu_mining_backend d decode hw fill host runtime free facts =
     \<lparr> mb_device = facts, mb_release = release_buffers, mb_plan = gpu_plan runtime free facts,
       mb_run = gpu_run d decode hw fill host \<rparr>"

subsection \<open>One unit\<close>

datatype loop_exit = Exit_Stopped | Exit_DifficultyChanged | Exit_Recoverable string

text \<open>How a loop ends: it returns, or its thread unwinds.\<close>

datatype unit_end = Ended loop_exit | Unwound string

record mine_deps =
  md_identity :: mining_identity
  md_has_source :: bool
  md_max_batch_size :: nat
  md_streams_per_device :: nat

record mine_unit =
  mu_difficulty :: nat
  mu_stream_index :: int
  mu_batch_size :: nat
  mu_used_memory_bytes :: u64
  mu_hash_total :: u64
  mu_attempts :: nat
  mu_hashrate :: f64
  mu_started_at :: nat

definition mine_unit_new :: "nat \<Rightarrow> int \<Rightarrow> nat \<Rightarrow> mine_unit" where
  "mine_unit_new difficulty stream_index now =
     \<lparr> mu_difficulty = difficulty, mu_stream_index = stream_index, mu_batch_size = 1, mu_used_memory_bytes = 0,
       mu_hash_total = 0, mu_attempts = 0, mu_hashrate = Finite 0, mu_started_at = now \<rparr>"

text \<open>A round of the loop, as the outside answers it.\<close>

record mine_round =
  rd_others :: "capture_world \<Rightarrow> capture_world"
  rd_source :: mining_identity
  rd_xuni_open :: bool
  rd_rng :: "nat \<Rightarrow> u64"
  rd_now :: nat
  rd_finds :: "nat \<Rightarrow> capture_io"

definition current_identity :: "mine_deps \<Rightarrow> mine_round \<Rightarrow> mining_identity" where
  "current_identity deps turn = (if md_has_source deps then rd_source turn else md_identity deps)"

definition match_find :: "mine_unit \<Rightarrow> string \<Rightarrow> nat \<Rightarrow> gpu_match \<Rightarrow> find" where
  "match_find u salt_hex attempts hit =
     \<lparr> fd_hexsalt = salt_hex, fd_key = gm_key hit, fd_digest = gm_hash hit, fd_memory_cost = mu_difficulty u,
       fd_attempts = attempts, fd_hashes_per_second = mu_hashrate u, fd_source = ''GPU'' \<rparr>"

text \<open>The loop over the matches: the next attempt index, the carried attempts and the number of the
  find in its round.\<close>

fun submit_hits ::
  "find_sink \<Rightarrow> (nat \<Rightarrow> capture_io) \<Rightarrow> mine_unit \<Rightarrow> string \<Rightarrow> gpu_match list \<Rightarrow> nat \<Rightarrow> nat \<Rightarrow> nat \<Rightarrow> capture_world
   \<Rightarrow> nat \<times> nat \<times> capture_world" where
  "submit_hits sk ios u salt_hex [] n next_attempt_index attempts w = (next_attempt_index, attempts, w)"
| "submit_hits sk ios u salt_hex (hit # hits) n next_attempt_index attempts w =
     (let (next_attempt_index, attempts) =
            (if next_attempt_index \<le> gm_attempt_index hit
             then (gm_attempt_index hit + 1, attempts + (gm_attempt_index hit - next_attempt_index + 1))
             else (next_attempt_index, attempts));
          (c, w) = record_find sk (ios n) (match_find u salt_hex attempts hit) w
      in submit_hits sk ios u salt_hex hits (Suc n) next_attempt_index 0 w)"

definition submit_matches ::
  "find_sink \<Rightarrow> (nat \<Rightarrow> capture_io) \<Rightarrow> string \<Rightarrow> batch_outcome \<Rightarrow> mine_unit \<Rightarrow> capture_world \<Rightarrow> mine_unit \<times> capture_world" where
  "submit_matches sk ios salt_hex outcome u w =
     (let (next_attempt_index, attempts, w) = submit_hits sk ios u salt_hex (bo_matches outcome) 0 0 (mu_attempts u) w;
          attempts = (if next_attempt_index \<le> bo_attempts outcome then attempts + (bo_attempts outcome - next_attempt_index)
                      else attempts)
      in (u\<lparr> mu_attempts := attempts \<rparr>, w))"

definition publish_stats :: "device_facts \<Rightarrow> nat \<Rightarrow> mine_unit \<Rightarrow> capture_world \<Rightarrow> mine_unit \<times> capture_world" where
  "publish_stats facts now u w =
     (let hash_total = mu_hash_total u + of_nat (mu_batch_size u);
          s = add_hashes (of_nat (mu_batch_size u)) (cw_state w);
          elapsed_ms = f64_of_int (int (max 1 (now - mu_started_at u)));
          hashrate = f64_mul (f64_div (f64_of_int (uint hash_total)) elapsed_ms) (Finite 1000);
          total_memory = rnd32 (of_nat (max 1 (df_total_memory_bytes facts)));
          stat = \<lparr> gs_index = df_index facts, gs_bus_id = df_bus_id facts, gs_name = df_name facts,
            gs_memory = f64_round_i32 (f64_div (f64_of_int (int (df_total_memory_bytes facts))) (Finite 1073741824)),
            gs_using_memory = f32_div (rnd32 (of_int (uint (mu_used_memory_bytes u)))) total_memory,
            gs_temperature = 0, gs_hashrate = f64_as_f32 hashrate, gs_power = [], gs_hash_count = hash_total,
            gs_stream_index = mu_stream_index u, gs_telemetry = None, gs_updated_secs_ago = 0 \<rparr>
      in (u\<lparr> mu_hash_total := hash_total, mu_hashrate := hashrate \<rparr>, w\<lparr> cw_state := publish_gpu now stat s \<rparr>))"

record 'b unit_state =
  us_unit :: mine_unit
  us_batch_index :: int
  us_backend :: 'b
  us_world :: capture_world

definition mine_request :: "mine_deps \<Rightarrow> device_facts \<Rightarrow> mine_round \<Rightarrow> string list \<Rightarrow> string \<Rightarrow> nat \<Rightarrow> capture_world \<Rightarrow> batch_request" where
  "mine_request deps facts turn keys salt_hex difficulty w =
     (batch_request_new keys salt_hex difficulty)\<lparr> br_target_pattern := block_pattern (current_identity deps turn),
        br_allow_xuni := rd_xuni_open turn, br_gpu_first_blocks := gpu_first_blocks_verified (df_index facts) (cw_state w) \<rparr>"

text \<open>One round: \<open>None\<close> says the loop goes on.\<close>

definition mine_step ::
  "find_sink \<Rightarrow> mine_deps \<Rightarrow> 'b mining_backend \<Rightarrow> mine_round \<Rightarrow> 'b unit_state \<Rightarrow> unit_end option \<times> 'b unit_state" where
  "mine_step sk deps be turn s =
     (let u = us_unit s; w = us_world s
      in if \<not> is_running (cw_state w) then (Some (Ended Exit_Stopped), s)
         else if state_effective_difficulty (cw_state w) \<noteq> mu_difficulty u then (Some (Ended Exit_DifficultyChanged), s)
         else if ms_mining_paused (cw_state w) then (None, s)
         else
           (let wk = select_work (current_identity deps turn) (us_batch_index s)
            in case generate_keys (rd_rng turn) (wk_key_prefix wk) (mu_batch_size u) of
                 None \<Rightarrow> (Some (Unwound ''byte index is not a char boundary''), s)
               | Some keys \<Rightarrow>
                   (case mb_run be (mine_request deps (mb_device be) turn keys (wk_salt_hex wk) (mu_difficulty u) w) (us_backend s) of
                      (Batch_Failed e, b) \<Rightarrow> (Some (Ended (Exit_Recoverable e)), s\<lparr> us_backend := b \<rparr>)
                    | (Batch_Panic e, b) \<Rightarrow> (Some (Unwound e), s\<lparr> us_backend := b \<rparr>)
                    | (Batch_Ok outcome, b) \<Rightarrow>
                        (let (u, w) = submit_matches sk (rd_finds turn) (wk_salt_hex wk) outcome u w;
                             (u, w) = publish_stats (mb_device be) (rd_now turn) u w;
                             batch_index = us_batch_index s + 1;
                             batch_index = (if DEVFEE_CYCLE \<le> batch_index then 0 else batch_index)
                         in (None, \<lparr> us_unit = u, us_batch_index = batch_index, us_backend = b, us_world = w \<rparr>)))))"

fun mine_loop ::
  "find_sink \<Rightarrow> mine_deps \<Rightarrow> 'b mining_backend \<Rightarrow> mine_round list \<Rightarrow> 'b unit_state \<Rightarrow> unit_end option \<times> 'b unit_state" where
  "mine_loop sk deps be [] s = (None, s)"
| "mine_loop sk deps be (turn # turns) s =
     (case mine_step sk deps be turn (s\<lparr> us_world := rd_others turn (us_world s) \<rparr>) of
        (Some e, s) \<Rightarrow> (Some e, s)
      | (None, s) \<Rightarrow> mine_loop sk deps be turns s)"

text \<open>\<^verbatim>\<open>MineUnit::run\<close>; \<open>now\<close> is the instant mining starts.\<close>

definition unit_run ::
  "find_sink \<Rightarrow> mine_deps \<Rightarrow> 'b mining_backend \<Rightarrow> nat \<Rightarrow> mine_round list \<Rightarrow> mine_unit \<Rightarrow> 'b \<Rightarrow> capture_world
   \<Rightarrow> unit_end option \<times> 'b unit_state" where
  "unit_run sk deps be now turns u b w =
     (let b = mb_release be b
      in case mb_plan be (mu_difficulty u) (md_max_batch_size deps) (md_streams_per_device deps) b of
           (Inl e, b) \<Rightarrow> (Some (Ended (Exit_Recoverable e)), \<lparr> us_unit = u, us_batch_index = 0, us_backend = b, us_world = w \<rparr>)
         | (Inr decision, b) \<Rightarrow>
             if selected_batch_size decision = 0 then
               (Some (Ended (Exit_Recoverable ''GPU memory allocation unavailable'')),
                \<lparr> us_unit = u, us_batch_index = 0, us_backend = b, us_world = w \<rparr>)
             else
               (let u = u\<lparr> mu_batch_size := selected_batch_size decision,
                      mu_used_memory_bytes := of_nat (selected_batch_size decision) * of_nat (mu_difficulty u) * 1024,
                      mu_started_at := now \<rparr>
                in mine_loop sk deps be turns \<lparr> us_unit = u, us_batch_index = 0, us_backend = b, us_world = w \<rparr>))"

text \<open>\<^verbatim>\<open>run_mining_on_device\<close>: a unit after the other, each with what the other threads did before it
  and the rounds it lives through; the wait after a recoverable failure changes nothing of its own.  Unwinding ends the thread.\<close>

fun run_mining_on_device ::
  "find_sink \<Rightarrow> mine_deps \<Rightarrow> 'b mining_backend \<Rightarrow> int \<Rightarrow> ((capture_world \<Rightarrow> capture_world) \<times> nat \<times> mine_round list) list \<Rightarrow> 'b \<Rightarrow> capture_world
   \<Rightarrow> string option \<times> 'b \<times> capture_world" where
  "run_mining_on_device sk deps be stream_index [] b w = (None, b, w)"
| "run_mining_on_device sk deps be stream_index ((others, now, turns) # rest) b w =
     (let w = others w
      in if \<not> is_running (cw_state w) then (None, b, w)
         else
           (case unit_run sk deps be now turns (mine_unit_new (state_effective_difficulty (cw_state w)) stream_index now) b w of
              (Some (Unwound e), s) \<Rightarrow> (Some e, us_backend s, us_world s)
            | (Some (Ended x), s) \<Rightarrow> run_mining_on_device sk deps be stream_index rest (us_backend s) (us_world s)
            | (None, s) \<Rightarrow> (None, us_backend s, us_world s)))"


subsection \<open>Fees\<close>

definition user_work :: "mining_identity \<Rightarrow> work" where
  "user_work ident = \<lparr> wk_salt_hex = user_salt ident, wk_key_prefix = [] \<rparr>"

definition fee_work :: "mining_identity \<Rightarrow> string \<Rightarrow> string \<Rightarrow> work" where
  "fee_work ident address prefix = \<lparr> wk_salt_hex = without_0x address, wk_key_prefix = prefix @ user_salt ident \<rparr>"

text \<open>The schedule as lists: the batches of a cycle in order.\<close>

definition fee_schedule :: "mining_identity \<Rightarrow> work list" where
  "fee_schedule ident =
     (let p = nat (id_devfee_permillage ident);
          users = 1000 - p;
          eco = min 1000 (p div 2);
          dev_work = fee_work ident (id_devfee_address ident) DEVFEE_PREFIX;
          eco_work = (if id_eco_devfee_address ident = [] then dev_work
                      else fee_work ident (id_eco_devfee_address ident) ECODEVFEE_PREFIX)
      in if id_self_mining_prefix ident \<noteq> []
         then replicate 1000 \<lparr> wk_salt_hex = user_salt ident, wk_key_prefix = id_self_mining_prefix ident \<rparr>
         else replicate users (user_work ident) @ replicate (1000 - (users + eco)) dev_work @ replicate eco eco_work)"

lemma select_work_range:
  assumes "id_self_mining_prefix ident = []" "i < 1000" "p = nat (id_devfee_permillage ident)"
  shows "select_work ident (int i) =
    (if i < 1000 - p then user_work ident
     else if i < 1000 - p div 2 \<or> id_eco_devfee_address ident = [] then fee_work ident (id_devfee_address ident) DEVFEE_PREFIX
     else fee_work ident (id_eco_devfee_address ident) ECODEVFEE_PREFIX)"
proof (cases "0 \<le> id_devfee_permillage ident")
  case True
  then have p: "id_devfee_permillage ident = int p" using assms(3) by simp
  have half: "int p sdiv 2 = int (p div 2)" by (simp add: sdiv_nonneg)
  have "DEVFEE_CYCLE - int i > int p \<longleftrightarrow> i < 1000 - p" using assms(2) by (auto simp: DEVFEE_CYCLE_def)
  moreover have "DEVFEE_CYCLE - int i \<le> int (p div 2) \<longleftrightarrow> \<not> i < 1000 - p div 2"
    using assms(2) by (auto simp: DEVFEE_CYCLE_def simp del: of_nat_div)
  ultimately show ?thesis
    using assms(1) p half by (auto simp: select_work_def Let_def user_work_def fee_work_def simp del: of_nat_div)
next
  case False
  then show ?thesis using assms by (auto simp: select_work_def Let_def user_work_def DEVFEE_CYCLE_def)
qed

lemma length_fee_schedule: "length (fee_schedule ident) = 1000"
  by (auto simp: fee_schedule_def Let_def min_def)

lemma nth_three:
  "a + b + c = n \<Longrightarrow> i < n \<Longrightarrow> (replicate a x @ replicate b y @ replicate c z) ! i = (if i < a then x else if i < a + b then y else z)"
  by (auto simp: nth_append)

lemma select_work_schedule:
  assumes "i < 1000"
  shows "select_work ident (int i) = fee_schedule ident ! i"
proof (cases "id_self_mining_prefix ident = []")
  case True
  define p where "p = nat (id_devfee_permillage ident)"
  define a where "a = 1000 - p"
  define b where "b = 1000 - (a + min 1000 (p div 2))"
  have sum: "a + b + min 1000 (p div 2) = 1000" by (simp add: a_def b_def min_def)
  have ab: "i < 1000 - p div 2 \<longleftrightarrow> i < a + b" using sum assms by (cases "1000 \<le> p div 2") auto
  show ?thesis
    using True ab
    by (simp add: nth_three[OF sum assms] fee_schedule_def select_work_range[OF True assms p_def] Let_def flip: p_def a_def b_def)
qed (use assms in \<open>simp add: fee_schedule_def select_work_def Let_def\<close>)

subsection \<open>The finds of a batch\<close>

fun hits_finds :: "mine_unit \<Rightarrow> string \<Rightarrow> gpu_match list \<Rightarrow> nat \<Rightarrow> nat \<Rightarrow> find list" where
  "hits_finds u salt_hex [] next_attempt_index attempts = []"
| "hits_finds u salt_hex (hit # hits) next_attempt_index attempts =
     (if next_attempt_index \<le> gm_attempt_index hit
      then match_find u salt_hex (attempts + (gm_attempt_index hit - next_attempt_index + 1)) hit
             # hits_finds u salt_hex hits (gm_attempt_index hit + 1) 0
      else match_find u salt_hex attempts hit # hits_finds u salt_hex hits next_attempt_index 0)"

definition batch_finds :: "mine_unit \<Rightarrow> string \<Rightarrow> batch_outcome \<Rightarrow> find list" where
  "batch_finds u salt_hex outcome = hits_finds u salt_hex (bo_matches outcome) 0 (mu_attempts u)"

fun record_all :: "find_sink \<Rightarrow> (nat \<Rightarrow> capture_io) \<Rightarrow> nat \<Rightarrow> find list \<Rightarrow> capture_world \<Rightarrow> capture list \<times> capture_world" where
  "record_all sk ios n [] w = ([], w)"
| "record_all sk ios n (hit # hits) w =
     (case record_find sk (ios n) hit w of
        (c, w) \<Rightarrow> (case record_all sk ios (Suc n) hits w of (cs, w) \<Rightarrow> (c # cs, w)))"

lemma submit_hits_facts:
  assumes "submit_hits sk ios u salt_hex hits n next attempts w = (next', attempts', w')"
  shows "w' = snd (record_all sk ios n (hits_finds u salt_hex hits next attempts) w)"
    "sum_list (map fd_attempts (hits_finds u salt_hex hits next attempts)) + attempts' + next = attempts + next'"
    "\<forall>hit\<in>set hits. gm_attempt_index hit < m \<Longrightarrow> next \<le> m \<Longrightarrow> next' \<le> m"
  using assms
proof (induction hits arbitrary: n "next" attempts w)
  case (Cons hit hits)
  {
    case 1
    show ?case using 1 Cons.IH(1) by (auto simp: Let_def split: prod.splits if_splits) (metis snd_conv)+
  next
    case 2
    show ?case using 2 Cons.IH(2) by (fastforce simp: Let_def match_find_def split: prod.splits if_splits)
  next
    case 3
    then show ?case using Cons.IH(3)[of "gm_attempt_index hit + 1"] Cons.IH(3)[of "next"]
      by (auto simp: Let_def split: prod.splits if_splits)
  }
qed auto


text \<open>C30.  No attempt is lost or counted twice.  The attempts stamped on the finds of a batch, together
  with those carried over to the next find, are the attempts carried in plus those of the batch; the
  finds reach the sink one by one, in match order.\<close>

theorem attempts_conserved:
  assumes "\<forall>hit\<in>set (bo_matches outcome). gm_attempt_index hit < bo_attempts outcome"
    and "submit_matches sk ios salt_hex outcome u w = (u', w')"
  shows "sum_list (map fd_attempts (batch_finds u salt_hex outcome)) + mu_attempts u' = mu_attempts u + bo_attempts outcome
    \<and> u' = u\<lparr> mu_attempts := mu_attempts u' \<rparr> \<and> w' = snd (record_all sk ios 0 (batch_finds u salt_hex outcome) w)"
proof -
  obtain next' attempts' w1 where h: "submit_hits sk ios u salt_hex (bo_matches outcome) 0 0 (mu_attempts u) w = (next', attempts', w1)"
    by (metis prod_cases3)
  note f = submit_hits_facts[OF h]
  have "next' \<le> bo_attempts outcome" using f(3)[OF assms(1)] by simp
  moreover from this have "u' = u\<lparr> mu_attempts := attempts' + (bo_attempts outcome - next') \<rparr>" "w' = w1"
    using assms(2) h by (auto simp: submit_matches_def)
  ultimately show ?thesis using f(1,2) by (simp add: batch_finds_def)
qed

definition demo_outcome :: batch_outcome where
  "demo_outcome = \<lparr> bo_attempts = 10, bo_gpu_first_blocks = False,
     bo_matches = [\<lparr> gm_key = ''k'', gm_hash = ''XEN11'', gm_matched_pattern = ''XEN11'', gm_attempt_index = 3, gm_is_superblock = False \<rparr>,
       \<lparr> gm_key = ''k'', gm_hash = ''XEN11'', gm_matched_pattern = ''XUNI'', gm_attempt_index = 3, gm_is_superblock = False \<rparr>],
     bo_digests = [], bo_hash = None \<rparr>"

theorem attempts_conserved_witness:
  "mu_attempts (fst (submit_matches demo_sink (\<lambda>_. demo_io) ''ab'' demo_outcome ((mine_unit_new 9 0 0)\<lparr> mu_attempts := 7 \<rparr>) demo_world)) = 6"
  using attempts_conserved[of demo_outcome demo_sink "\<lambda>_. demo_io" "''ab''" "(mine_unit_new 9 0 0)\<lparr> mu_attempts := 7 \<rparr>" demo_world, OF _ prod.collapse[symmetric]]
  by (simp add: demo_outcome_def batch_finds_def match_find_def mine_unit_new_def)

lemma key_length:
  "next_random_key rng g = (Some key, g') \<Longrightarrow> length key = kg_total_length g \<and> kg_total_length g' = kg_total_length g \<and> kg_prefix g' = kg_prefix g"
proof (cases "kg_total_length g \<le> length (kg_prefix g)")
  case False
  then obtain t drawn where "fill_key rng (kg_total_length g) (kg_drawn g) (kg_prefix g) = (kg_prefix g @ t, drawn)"
    "length (kg_prefix g @ t) = kg_total_length g"
    using fill_key_shape[of "kg_prefix g" "kg_total_length g" rng "kg_drawn g"] by auto
  then show "next_random_key rng g = (Some key, g') \<Longrightarrow> ?thesis" using False by (auto simp: next_random_key_def)
qed (auto simp: next_random_key_def split: if_splits)

lemma next_keys_length: "next_keys rng n g = Some (keys, g') \<Longrightarrow> \<forall>x\<in>set keys. length x = kg_total_length g"
proof (induction n arbitrary: g keys)
  case (Suc n)
  then obtain key g1 rest where "next_random_key rng g = (Some key, g1)" "keys = key # rest" "next_keys rng n g1 = Some (rest, g')"
    by (auto split: prod.splits option.splits)
  then show ?case using key_length[of rng g key g1] Suc.IH[of g1 rest] by simp
qed simp

lemma generate_keys_length: "generate_keys rng prefix n = Some keys \<Longrightarrow> \<forall>x\<in>set keys. length x = 64"
  using next_keys_length[of rng n "key_generator_new prefix KEY_LENGTH"]
  by (auto simp: generate_keys_def key_generator_new_def KEY_LENGTH_def)

subsection \<open>The requests of a unit\<close>

text \<open>A backend that also keeps the list of the requests it was given.\<close>

definition logged :: "'b mining_backend \<Rightarrow> ('b \<times> batch_request list) mining_backend" where
  "logged be =
     \<lparr> mb_device = mb_device be, mb_release = (\<lambda>(b, trace). (mb_release be b, trace)),
       mb_plan = (\<lambda>difficulty limit streams (b, trace). case mb_plan be difficulty limit streams b of (r, b) \<Rightarrow> (r, b, trace)),
       mb_run = (\<lambda>request (b, trace). case mb_run be request b of (a, b) \<Rightarrow> (a, b, trace @ [request])) \<rparr>"

lemma logged_simps [simp]:
  "mb_device (logged be) = mb_device be" "mb_release (logged be) (b, trace) = (mb_release be b, trace)"
  "mb_plan (logged be) difficulty limit streams (b, trace) = (case mb_plan be difficulty limit streams b of (r, b) \<Rightarrow> (r, b, trace))"
  "mb_run (logged be) request (b, trace) = (case mb_run be request b of (a, b) \<Rightarrow> (a, b, trace @ [request]))"
  by (simp_all add: logged_def)

text \<open>Keeping the list changes nothing else.\<close>

definition unlog :: "('b \<times> batch_request list) unit_state \<Rightarrow> 'b unit_state" where
  "unlog s = \<lparr> us_unit = us_unit s, us_batch_index = us_batch_index s, us_backend = fst (us_backend s), us_world = us_world s \<rparr>"

lemma unlog_step: "mine_step sk deps be turn (unlog s) = apsnd unlog (mine_step sk deps (logged be) turn s)"
proof (cases "us_backend s")
  case (Pair b trace)
  then show ?thesis
    by (auto simp: mine_step_def unlog_def Let_def split: prod.splits option.splits batch_answer.splits)
qed

lemma unlog_loop: "mine_loop sk deps be turns (unlog s) = apsnd unlog (mine_loop sk deps (logged be) turns s)"
proof (induction turns arbitrary: s)
  case (Cons turn turns)
  have "(unlog s)\<lparr> us_world := w \<rparr> = unlog (s\<lparr> us_world := w \<rparr>)" for w by (simp add: unlog_def)
  moreover have "us_world (unlog s) = us_world s" by (simp add: unlog_def)
  ultimately show ?case using Cons by (auto simp: unlog_step split: prod.splits option.splits)
qed simp

lemma unlog_run: "unit_run sk deps be now turns u b w = apsnd unlog (unit_run sk deps (logged be) now turns u (b, trace) w)"
proof -
  have start: "mine_loop sk deps be turns \<lparr> us_unit = u, us_batch_index = i, us_backend = b, us_world = w \<rparr>
      = apsnd unlog (mine_loop sk deps (logged be) turns \<lparr> us_unit = u, us_batch_index = i, us_backend = (b, trace), us_world = w \<rparr>)"
    for u i b using unlog_loop[of sk deps be turns "\<lparr> us_unit = u, us_batch_index = i, us_backend = (b, trace), us_world = w \<rparr>"]
    by (simp add: unlog_def)
  show ?thesis by (auto simp: unit_run_def Let_def start split: prod.splits sum.splits) (simp_all add: unlog_def)
qed

text \<open>A request that mines what the schedule says.\<close>

definition mines :: "work \<Rightarrow> batch_request \<Rightarrow> bool" where
  "mines wk request \<longleftrightarrow> br_salt_hex request = wk_salt_hex wk
     \<and> (\<forall>x\<in>set (br_passwords request). length x = 64 \<and> starts_with x (take 64 (map to_ascii_lower (wk_key_prefix wk))))"

lemma key_prefix:
  "next_random_key rng g = (Some key, g') \<Longrightarrow> starts_with key (take (kg_total_length g) (kg_prefix g))"
proof (cases "kg_total_length g \<le> length (kg_prefix g)")
  case False
  then obtain t drawn where "fill_key rng (kg_total_length g) (kg_drawn g) (kg_prefix g) = (kg_prefix g @ t, drawn)"
    using fill_key_shape[of "kg_prefix g" "kg_total_length g" rng "kg_drawn g"] by auto
  then show "next_random_key rng g = (Some key, g') \<Longrightarrow> ?thesis"
    using False by (auto simp: next_random_key_def starts_with_iff)
qed (auto simp: next_random_key_def starts_with_iff split: if_splits)

lemma next_keys_prefix:
  "next_keys rng n g = Some (keys, g') \<Longrightarrow> \<forall>x\<in>set keys. starts_with x (take (kg_total_length g) (kg_prefix g))"
proof (induction n arbitrary: g keys)
  case (Suc n)
  then obtain key g1 rest where "next_random_key rng g = (Some key, g1)" "keys = key # rest" "next_keys rng n g1 = Some (rest, g')"
    by (auto split: prod.splits option.splits)
  then show ?case using key_prefix[of rng g key g1] key_length[of rng g key g1] Suc.IH[of g1 rest] by simp
qed simp

lemma request_mines:
  assumes "generate_keys rng (wk_key_prefix wk) n = Some keys"
  shows "mines wk (mine_request deps facts turn keys (wk_salt_hex wk) difficulty w)"
  using generate_keys_length[OF assms] next_keys_prefix[of rng n "key_generator_new (wk_key_prefix wk) KEY_LENGTH" keys] assms
  by (auto simp: mines_def mine_request_def batch_request_new_def generate_keys_def key_generator_new_def KEY_LENGTH_def)

definition on_schedule :: "mining_identity \<Rightarrow> batch_request list \<Rightarrow> bool" where
  "on_schedule ident trace \<longleftrightarrow> (\<forall>k < length trace. mines (fee_schedule ident ! (k mod 1000)) (trace ! k))"

lemma on_schedule_snoc:
  "on_schedule ident trace \<Longrightarrow> mines (fee_schedule ident ! (length trace mod 1000)) request \<Longrightarrow> on_schedule ident (trace @ [request])"
  by (auto simp: on_schedule_def nth_append less_Suc_eq)

lemma step_on_schedule:
  assumes "current_identity deps turn = ident" "us_backend s = (b, trace)" "on_schedule ident trace"
    and "us_batch_index s = int (length trace mod 1000)" "mine_step sk deps (logged be) turn s = (e, s')"
  shows "\<exists>b' trace'. us_backend s' = (b', trace') \<and> on_schedule ident trace' \<and> (e = None \<longrightarrow> us_batch_index s' = int (length trace' mod 1000))"
proof -
  let ?wk = "select_work ident (us_batch_index s)"
  have wk: "?wk = fee_schedule ident ! (length trace mod 1000)" using assms(4) select_work_schedule[of "length trace mod 1000"] by simp
  have index: "(if DEVFEE_CYCLE \<le> us_batch_index s + 1 then 0 else us_batch_index s + 1) = int (length (trace @ [request]) mod 1000)" for request :: batch_request
    using assms(4) by (auto simp: DEVFEE_CYCLE_def mod_Suc)
  have m: "on_schedule ident (trace @ [mine_request deps facts turn keys (wk_salt_hex ?wk) difficulty w])"
    if "generate_keys (rd_rng turn) (wk_key_prefix ?wk) n = Some keys" for keys facts difficulty w n
    using on_schedule_snoc[OF assms(3)] request_mines[OF that] wk by metis
  show ?thesis
  proof (cases "s' = s")
    case True
    then show ?thesis using assms(2-4) by auto
  next
    case False
    then obtain keys a b' where k: "generate_keys (rd_rng turn) (wk_key_prefix ?wk) (mu_batch_size (us_unit s)) = Some keys"
      "mb_run be (mine_request deps (mb_device be) turn keys (wk_salt_hex ?wk) (mu_difficulty (us_unit s)) (us_world s)) b = (a, b')"
      "us_backend s' = (b', trace @ [mine_request deps (mb_device be) turn keys (wk_salt_hex ?wk) (mu_difficulty (us_unit s)) (us_world s)])"
      "e = None \<longrightarrow> us_batch_index s' = (if DEVFEE_CYCLE \<le> us_batch_index s + 1 then 0 else us_batch_index s + 1)"
      using assms(5) unfolding assms(1)[symmetric]
      by (auto simp: mine_step_def Let_def assms(2) split: if_splits option.splits prod.splits batch_answer.splits)
    have "e = None \<longrightarrow> us_batch_index s' = int (length (trace @ [request]) mod 1000)" for request :: batch_request
      using k(4) index[of request] by metis
    then show ?thesis using m[OF k(1)] k(3) by metis
  qed
qed

lemma loop_on_schedule:
  assumes "\<forall>turn\<in>set turns. current_identity deps turn = ident" "us_backend s = (b, trace)" "on_schedule ident trace"
    and "us_batch_index s = int (length trace mod 1000)" "mine_loop sk deps (logged be) turns s = (e, s')"
  shows "on_schedule ident (snd (us_backend s'))"
  using assms
proof (induction turns arbitrary: s b trace)
  case (Cons turn turns)
  let ?s = "s\<lparr> us_world := rd_others turn (us_world s) \<rparr>"
  obtain e1 s1 where st: "mine_step sk deps (logged be) turn ?s = (e1, s1)" by fastforce
  obtain b' trace' where one: "us_backend s1 = (b', trace')" "on_schedule ident trace'"
    "e1 = None \<longrightarrow> us_batch_index s1 = int (length trace' mod 1000)"
    using step_on_schedule[of deps turn ident ?s b trace sk be e1 s1] Cons.prems st by auto
  show ?case
  proof (cases e1)
    case None
    then show ?thesis using Cons.IH[of s1 b' trace'] Cons.prems(1,5) one st by simp
  next
    case (Some x)
    then show ?thesis using Cons.prems(5) st one by simp
  qed
qed simp

text \<open>C29.  The fee schedule.  The requests a unit hands to its backend follow one schedule of a thousand
  batches over and over, as long as the mining identity stays the same: request \<open>k\<close> has the salt of entry
  \<open>k mod 1000\<close>, and its keys begin with the entry's prefix (lower-cased by the key generator).  With permillage \<open>p\<close> the first \<open>1000 - p\<close> batches of the schedule
  mine for the user, and of the last \<open>p\<close> the second half, rounded down, for the ecosystem address when
  one is configured and the rest for the developers; with a self-mining prefix every batch mines for
  the user under that prefix.  Keeping the list of requests changes nothing else of the unit.\<close>

theorem fee_cycle:
  assumes "\<forall>turn\<in>set turns. current_identity deps turn = ident"
    and "unit_run sk deps (logged be) now turns u (b, []) w = (e, s')"
  shows "map (\<lambda>i. select_work ident (int i)) [0..<1000] = fee_schedule ident
    \<and> unit_run sk deps be now turns u b w = (e, unlog s')
    \<and> (\<forall>k < length (snd (us_backend s')). mines (fee_schedule ident ! (k mod 1000)) (snd (us_backend s') ! k))"
proof (intro conjI)
  show "map (\<lambda>i. select_work ident (int i)) [0..<1000] = fee_schedule ident"
    by (rule nth_equalityI) (simp_all add: length_fee_schedule select_work_schedule)
  show "unit_run sk deps be now turns u b w = (e, unlog s')" using unlog_run[of sk deps be now turns u b w "[]"] assms(2) by simp
  have "on_schedule ident (snd (us_backend s'))"
  proof (cases "snd (us_backend s') = []")
    case False
    then obtain b1 u1 where "mine_loop sk deps (logged be) turns \<lparr> us_unit = u1, us_batch_index = 0, us_backend = (b1, []), us_world = w \<rparr> = (e, s')"
      using assms(2) by (auto simp: unit_run_def Let_def split: prod.splits sum.splits if_splits)
    from loop_on_schedule[OF assms(1) _ _ _ this] show ?thesis by (simp add: on_schedule_def)
  qed (simp add: on_schedule_def)
  then show "\<forall>k < length (snd (us_backend s')). mines (fee_schedule ident ! (k mod 1000)) (snd (us_backend s') ! k)"
    by (simp add: on_schedule_def)
qed


subsection \<open>The finds of a round\<close>

lemma hits_finds_match: "hit \<in> set (hits_finds u salt_hex hits n a) \<Longrightarrow> \<exists>m\<in>set hits. \<exists>att. hit = match_find u salt_hex att m"
  by (induction u salt_hex hits n a rule: hits_finds.induct) (auto split: if_splits)

lemma hits_finds_all: "map (\<lambda>hit. (fd_key hit, fd_digest hit)) (hits_finds u salt_hex hits n a) = map (\<lambda>m. (gm_key m, gm_hash m)) hits"
  by (induction u salt_hex hits n a rule: hits_finds.induct) (simp_all add: match_find_def)

lemma spec_match:
  assumes "m \<in> set (bo_matches (batch_spec request salt))"
  shows "\<exists>i < length (br_passwords request). gm_key m = br_passwords request ! i \<and> gm_hash m = job_hash request salt i
    \<and> gm_attempt_index m = i"
  using assms by (fastforce simp: batch_spec_def append_matches_def Let_def split: if_splits)

lemma spec_find_true:
  assumes "hit \<in> set (batch_finds u salt_hex (batch_spec request (hex_bytes salt_hex)))" "br_difficulty request = mu_difficulty u"
  shows "fd_digest hit = true_digest hit \<and> fd_hexsalt hit = salt_hex \<and> fd_memory_cost hit = mu_difficulty u
    \<and> fd_key hit \<in> set (br_passwords request)"
proof -
  obtain m att where m: "m \<in> set (bo_matches (batch_spec request (hex_bytes salt_hex)))" "hit = match_find u salt_hex att m"
    using hits_finds_match assms(1) unfolding batch_finds_def by blast
  then show ?thesis using spec_match[OF m(1)] assms(2) by (auto simp: match_find_def true_digest_def job_hash_def)
qed

lemma matched_not_rejected:
  assumes "record_find sk io hit w = (c, w')" "sk_verifier sk hit = Ver_Match"
  shows "c \<noteq> Cap_Rejected"
  using assms(1)
proof (cases rule: record_find_cases)
  case (persisted p w1)
  from persisted(3) show ?thesis by (cases rule: persist_cases) simp_all
qed (use assms(2) in simp_all)

lemma record_all_matched:
  "\<forall>hit\<in>set hits. sk_verifier sk hit = Ver_Match \<Longrightarrow> Cap_Rejected \<notin> set (fst (record_all sk ios n hits w))"
proof (induction hits arbitrary: n w)
  case (Cons hit hits)
  obtain c w1 where r: "record_find sk (ios n) hit w = (c, w1)" by fastforce
  then have "c \<noteq> Cap_Rejected" using matched_not_rejected Cons.prems by simp
  then show ?case using Cons.IH[of "Suc n" w1] Cons.prems r by (auto split: prod.splits)
qed simp

lemma publish_frame:
  "publish_stats facts now u w = (u', w') \<Longrightarrow> cw_db w' = cw_db w \<and> cw_fs w' = cw_fs w
    \<and> ms_fatal_durability (cw_state w') = ms_fatal_durability (cw_state w) \<and> ms_fatal_reason (cw_state w') = ms_fatal_reason (cw_state w)
    \<and> ms_running (cw_state w') = ms_running (cw_state w)"
  by (auto simp: publish_stats_def Let_def publish_gpu_def add_hashes_def)

lemma submit_matches_world: "snd (submit_matches sk ios salt_hex outcome u w) = snd (record_all sk ios 0 (batch_finds u salt_hex outcome) w)"
  using submit_hits_facts(1)[of sk ios u salt_hex "bo_matches outcome" 0 0 "mu_attempts u" w]
  by (auto simp: submit_matches_def batch_finds_def Let_def split: prod.splits)

subsection \<open>Exact backends\<close>

text \<open>What the loop relies on: a batch that comes back holds the matches of the true digests, and the
  backend stays usable whatever happened.\<close>

locale exact_backend =
  fixes be :: "'b mining_backend" and inv :: "'b \<Rightarrow> bool" and decode :: "string \<Rightarrow> bytes option"
  assumes run_exact: "inv b \<Longrightarrow> mb_run be request b = (Batch_Ok outcome, b') \<Longrightarrow>
      hex_to_bytes decode (br_salt_hex request) = Inr salt \<Longrightarrow> length salt < 2 ^ 32 \<Longrightarrow>
      \<forall>x\<in>set (br_passwords request). length x < 2 ^ 32 \<Longrightarrow> br_difficulty request < 2 ^ 32 \<Longrightarrow> outcome = batch_spec request salt"
    and run_keeps: "inv b \<Longrightarrow> br_difficulty request < 2 ^ 32 \<Longrightarrow> inv (snd (mb_run be request b))"
    and release_keeps: "inv b \<Longrightarrow> inv (mb_release be b)"
    and plan_keeps: "inv b \<Longrightarrow> inv (snd (mb_plan be difficulty limit streams b))"
begin

lemma find_is_true:
  assumes "inv b" "mb_run be (mine_request deps facts turn keys salt_hex (mu_difficulty u) w) b = (Batch_Ok outcome, b')"
    and "hex_crate decode" "is_hex_string salt_hex" "even (length salt_hex)" "length salt_hex < 2 ^ 32"
    and "\<forall>x\<in>set keys. length x < 2 ^ 32" "mu_difficulty u < 2 ^ 32"
  shows "outcome = batch_spec (mine_request deps facts turn keys salt_hex (mu_difficulty u) w) (hex_bytes salt_hex)"
proof -
  have "hex_to_bytes decode salt_hex = Inr (hex_bytes salt_hex)"
    using hex_crate.salt_decodes[OF assms(3) _ assms(4)] assms(5) by (simp add: even_iff_mod_2_eq_zero)
  moreover have "length (hex_bytes salt_hex) < 2 ^ 32" using assms(6) by (simp add: length_hex_bytes)
  ultimately show ?thesis
    using run_exact[OF assms(1,2)] assms(7,8) by (simp add: mine_request_def batch_request_new_def)
qed


text \<open>What a round that hashed did to the world.\<close>

lemma round_exact:
  assumes wk: "wk = select_work (current_identity deps turn) (us_batch_index s)"
    and b: "inv (us_backend s)" and hex: "hex_crate decode" and argon2: "argon2_crate argon2"
    and sk: "sk_verifier sk = cpu_verify decode argon2"
    and salt: "is_hex_string (wk_salt_hex wk)" "even (length (wk_salt_hex wk))"
      "16 \<le> length (wk_salt_hex wk)" "length (wk_salt_hex wk) < 2 ^ 32"
    and m: "8 \<le> mu_difficulty (us_unit s)" "mu_difficulty (us_unit s) < 2 ^ 32"
    and step: "mine_step sk deps be turn s = (None, s')" "\<not> ms_mining_paused (cw_state (us_world s))"
  shows "\<exists>keys. generate_keys (rd_rng turn) (wk_key_prefix wk) (mu_batch_size (us_unit s)) = Some keys
    \<and> (let request = mine_request deps (mb_device be) turn keys (wk_salt_hex wk) (mu_difficulty (us_unit s)) (us_world s);
           hits = batch_finds (us_unit s) (wk_salt_hex wk) (batch_spec request (hex_bytes (wk_salt_hex wk)));
           (cs, w) = record_all sk (rd_finds turn) 0 hits (us_world s)
       in mu_difficulty (us_unit s) = state_effective_difficulty (cw_state (us_world s))
        \<and> (\<forall>hit\<in>set hits. fd_digest hit = true_digest hit \<and> fd_memory_cost hit = mu_difficulty (us_unit s))
        \<and> Cap_Rejected \<notin> set cs \<and> cw_db (us_world s') = cw_db w \<and> cw_fs (us_world s') = cw_fs w)"
proof -
  let ?salt = "wk_salt_hex wk" and ?u = "us_unit s" and ?w = "us_world s"
  have run: "is_running (cw_state ?w)" "state_effective_difficulty (cw_state ?w) = mu_difficulty ?u"
    using step by (auto simp: mine_step_def Let_def split: if_splits)
  obtain keys where k: "generate_keys (rd_rng turn) (wk_key_prefix wk) (mu_batch_size ?u) = Some keys"
    using step run by (auto simp: mine_step_def Let_def wk split: option.splits)
  let ?request = "mine_request deps (mb_device be) turn keys ?salt (mu_difficulty ?u) ?w"
  obtain outcome b' where r: "mb_run be ?request (us_backend s) = (Batch_Ok outcome, b')"
    using step run k by (auto simp: mine_step_def Let_def wk split: prod.splits batch_answer.splits)
  have "\<forall>x\<in>set keys. length x < 2 ^ 32" using generate_keys_length[OF k] by simp
  then have o: "outcome = batch_spec ?request (hex_bytes ?salt)"
    by (rule find_is_true[OF b r hex salt(1,2,4) _ m(2)])
  let ?hits = "batch_finds ?u ?salt outcome"
  obtain u1 w1 u2 w2 where w: "submit_matches sk (rd_finds turn) ?salt outcome ?u ?w = (u1, w1)"
    "publish_stats (mb_device be) (rd_now turn) u1 w1 = (u2, w2)" by fastforce
  have "us_world s' = w2"
    using step run k r w by (auto simp: mine_step_def Let_def wk)
  then have frame: "cw_db (us_world s') = cw_db w1" "cw_fs (us_world s') = cw_fs w1" using publish_frame[OF w(2)] by simp_all
  have w1: "w1 = snd (record_all sk (rd_finds turn) 0 ?hits ?w)" using submit_matches_world w(1) by (metis snd_conv)
  have t: "\<forall>hit\<in>set ?hits. fd_digest hit = true_digest hit \<and> fd_hexsalt hit = ?salt \<and> fd_memory_cost hit = mu_difficulty ?u
      \<and> fd_key hit \<in> set keys"
    using spec_find_true[of _ ?u ?salt ?request] unfolding o by (auto simp: mine_request_def batch_request_new_def)
  then have "\<forall>hit\<in>set ?hits. checkable hit"
    using salt m generate_keys_length[OF k] by (auto simp: checkable_def)
  then have "\<forall>hit\<in>set ?hits. sk_verifier sk hit = Ver_Match"
    using t cpu_verify_exact[OF argon2 hex] by (simp add: sk)
  then have "Cap_Rejected \<notin> set (fst (record_all sk (rd_finds turn) 0 ?hits ?w))" by (rule record_all_matched)
  then show ?thesis using k t frame w1 run(2) unfolding o by (auto simp: Let_def split: prod.splits)
qed

end

lemma gpu_backend_exact:
  assumes "driver_ok d" "argon2_host fill host"
  shows "exact_backend (gpu_mining_backend d decode hw fill host runtime free facts) gpu_ok decode"
proof
  fix b request outcome b' salt
  assume a: "gpu_ok b" "mb_run (gpu_mining_backend d decode hw fill host runtime free facts) request b = (Batch_Ok outcome, b')"
    "hex_to_bytes decode (br_salt_hex request) = Inr salt" "length salt < 2 ^ 32"
    "\<forall>x\<in>set (br_passwords request). length x < 2 ^ 32" "br_difficulty request < 2 ^ 32"
  have "run_batch d decode hw fill host request b = (Inr (Inr outcome), b')"
    using a(2) by (auto simp: gpu_mining_backend_def gpu_run_def split: prod.splits sum.splits)
  then show "outcome = batch_spec request salt"
    using argon2_host.batch_ensures[OF assms(2,1) a(3-6), of hw] a(1) unfolding ensures_def by blast
next
  fix b and request :: batch_request assume "gpu_ok b" "br_difficulty request < 2 ^ 32"
  then show "gpu_ok (snd (mb_run (gpu_mining_backend d decode hw fill host runtime free facts) request b))"
    using argon2_host.batch_keeps[OF assms(2,1), of request decode hw]
    by (auto simp: gpu_mining_backend_def gpu_run_def keeps_def split: prod.splits sum.splits)
qed (auto simp: gpu_mining_backend_def gpu_plan_def plan_batch_size_def release_buffers_def gpu_ok_def Let_def split: sum.splits)


subsection \<open>What mining keeps\<close>

lemma record_find_state:
  assumes "record_find sk io hit w = (c, w')" "fatal_ok (cw_state w)"
  shows "latched (cw_state w) (cw_state w') \<and> fatal_ok (cw_state w')"
proof -
  have same: "latched s t \<and> fatal_ok t"
    if "fatal_ok s" "ms_fatal_durability t = ms_fatal_durability s" "ms_fatal_reason t = ms_fatal_reason s" "ms_running t = ms_running s"
    for s t using that by (simp add: latched_def fatal_ok_def)
  have persist: "latched (cw_state w) (cw_state w1) \<and> fatal_ok (cw_state w1)" if "persist sk io p w = (c1, w1)" for p c1 w1
    using that assms(2) declare_fatal(3,4)[where s = "cw_state w"]
    by (auto simp: persist_def refresh_queue_counts_def set_queued_def Let_def latched_refl
        intro: same[THEN conjunct1] same[THEN conjunct2] split: prod.splits sum.splits bool.splits)
  have acc: "ms_fatal_durability (cw_state (account hit c1 w1)) = ms_fatal_durability (cw_state w1)"
    "ms_fatal_reason (cw_state (account hit c1 w1)) = ms_fatal_reason (cw_state w1)"
    "ms_running (cw_state (account hit c1 w1)) = ms_running (cw_state w1)" for c1 w1 by (simp_all add: account_def)
  show ?thesis
  proof (cases "payload_for sk (ci_now_utc io) hit")
    case (Inr p)
    show ?thesis
    proof (cases "reject_if_unverified sk hit")
      case None
      obtain c1 w1 where p: "persist sk io p w = (c1, w1)" by fastforce
      have "cw_state w' = cw_state (account hit c1 w1)"
        using assms(1) Inr None p by (auto simp: record_find_def Let_def split: capture.splits if_splits)
      then show ?thesis using persist[OF p] acc[of c1 w1] by (simp add: latched_def fatal_ok_def)
    qed (use assms Inr in \<open>simp add: record_find_def latched_refl\<close>)
  qed (use assms in \<open>simp add: record_find_def latched_refl\<close>)
qed

text \<open>What the rest of the program may do to the shared state between two rounds: whatever keeps the
  journal's finds and does not take back a stop or a fatal declaration.\<close>

definition sound_world :: "capture_world \<Rightarrow> bool" where
  "sound_world w \<longleftrightarrow> journal_wf (cw_db w) \<and> fatal_ok (cw_state w)"

definition world_le :: "capture_world \<Rightarrow> capture_world \<Rightarrow> bool" where
  "world_le w w' \<longleftrightarrow> keeps_finds (cw_db w) (cw_db w') \<and> latched (cw_state w) (cw_state w')"

definition calm :: "(capture_world \<Rightarrow> capture_world) \<Rightarrow> bool" where
  "calm f \<longleftrightarrow> (\<forall>w. sound_world w \<longrightarrow> sound_world (f w) \<and> world_le w (f w))"

lemma world_le_refl [simp]: "world_le w w"
  by (simp add: world_le_def latched_refl)

lemma world_le_trans: "world_le a b \<Longrightarrow> world_le b c \<Longrightarrow> world_le a c"
  by (auto simp: world_le_def intro: keeps_finds_trans latched_trans)

lemma record_find_sound:
  assumes "rowid_fresh (sk_new_rowid sk)" "sound_world w" "record_find sk io hit w = (c, w')"
  shows "sound_world w' \<and> world_le w w'"
  using capture_facts[OF _ assms(1,3)] record_find_state[OF assms(3)] assms(2) by (simp add: sound_world_def world_le_def)

lemma record_all_sound:
  assumes "rowid_fresh (sk_new_rowid sk)" "sound_world w"
  shows "sound_world (snd (record_all sk ios n hits w)) \<and> world_le w (snd (record_all sk ios n hits w))"
  using assms(2)
proof (induction hits arbitrary: n w)
  case (Cons hit hits)
  obtain c w1 where r: "record_find sk (ios n) hit w = (c, w1)" by fastforce
  note one = record_find_sound[OF assms(1) Cons.prems r]
  then show ?case using Cons.IH[of w1 "Suc n"] world_le_trans[of w w1] r by (auto split: prod.splits)
qed simp

lemma mine_step_sound:
  assumes "rowid_fresh (sk_new_rowid sk)" "sound_world (us_world s)" "mine_step sk deps be turn s = (e, s')"
  shows "sound_world (us_world s') \<and> world_le (us_world s) (us_world s')
    \<and> (\<not> is_running (cw_state (us_world s)) \<longrightarrow> e = Some (Ended Exit_Stopped) \<and> s' = s)"
proof (cases "is_running (cw_state (us_world s))")
  case False
  then have "e = Some (Ended Exit_Stopped)" "s' = s" using assms(3) by (simp_all add: mine_step_def Let_def)
  then show ?thesis using assms(2) by simp
next
  case running: True
  show ?thesis
  proof (cases "us_world s' = us_world s")
    case True
    then show ?thesis using assms(2) running by simp
  next
    case False
    let ?wk = "select_work (current_identity deps turn) (us_batch_index s)"
    obtain outcome u1 w1 u2 where w: "submit_matches sk (rd_finds turn) (wk_salt_hex ?wk) outcome (us_unit s) (us_world s) = (u1, w1)"
      "publish_stats (mb_device be) (rd_now turn) u1 w1 = (u2, us_world s')"
      using assms(3) False running by (auto simp: mine_step_def Let_def split: if_splits option.splits prod.splits batch_answer.splits)
    have "w1 = snd (record_all sk (rd_finds turn) 0 (batch_finds (us_unit s) (wk_salt_hex ?wk) outcome) (us_world s))"
      using submit_matches_world w(1) by (metis snd_conv)
    then have "sound_world w1 \<and> world_le (us_world s) w1" using record_all_sound[OF assms(1,2)] by simp
    then show ?thesis using publish_frame[OF w(2)] running by (auto simp: sound_world_def world_le_def fatal_ok_def latched_def)
  qed
qed

lemma mine_loop_sound:
  assumes "rowid_fresh (sk_new_rowid sk)" "sound_world (us_world s)" "\<forall>turn\<in>set turns. calm (rd_others turn)"
    and "mine_loop sk deps be turns s = (e, s')"
  shows "sound_world (us_world s') \<and> world_le (us_world s) (us_world s')
    \<and> (\<not> is_running (cw_state (us_world s)) \<longrightarrow> us_backend s' = us_backend s \<and> e \<in> {None, Some (Ended Exit_Stopped)})"
  using assms(2-4)
proof (induction turns arbitrary: s)
  case (Cons turn turns)
  let ?s = "s\<lparr> us_world := rd_others turn (us_world s) \<rparr>"
  have c: "sound_world (us_world ?s)" "world_le (us_world s) (us_world ?s)" using Cons.prems(1,2) by (auto simp: calm_def)
  obtain e1 s1 where st: "mine_step sk deps be turn ?s = (e1, s1)" by fastforce
  note one = mine_step_sound[OF assms(1) c(1) st]
  have stop: "\<not> is_running (cw_state (us_world s)) \<Longrightarrow> \<not> is_running (cw_state (us_world ?s))"
    using c(2) by (simp add: world_le_def latched_def is_running_def)
  show ?case
  proof (cases e1)
    case None
    then have "mine_loop sk deps be turns s1 = (e, s')" using Cons.prems(3) st by simp
    then show ?thesis using Cons.IH[of s1] one None stop Cons.prems(2) world_le_trans[OF world_le_trans[OF c(2)]] by auto
  next
    case (Some x)
    then have "s' = s1" "e = e1" using Cons.prems(3) st by simp_all
    then show ?thesis using one stop world_le_trans[OF c(2)] by auto
  qed
qed simp


lemma unit_run_sound:
  assumes "rowid_fresh (sk_new_rowid sk)" "sound_world w" "\<forall>turn\<in>set turns. calm (rd_others turn)"
    and "unit_run sk deps be now turns u b w = (e, s')"
  shows "sound_world (us_world s') \<and> world_le w (us_world s')"
proof (cases "mb_plan be (mu_difficulty u) (md_max_batch_size deps) (md_streams_per_device deps) (mb_release be b)")
  case (Pair r b1)
  show ?thesis
  proof (cases "us_world s' = w")
    case False
    then obtain s where "mine_loop sk deps be turns s = (e, s')" "us_world s = w"
      using assms(4) Pair by (auto simp: unit_run_def Let_def split: sum.splits if_splits)
    then show ?thesis using mine_loop_sound[OF assms(1) _ assms(3), of s] assms(2) by simp
  qed (use assms(2) in simp)
qed

lemma mine_loop_append:
  "mine_loop sk deps be (turns @ turns') s =
     (case mine_loop sk deps be turns s of (Some e, s) \<Rightarrow> (Some e, s) | (None, s) \<Rightarrow> mine_loop sk deps be turns' s)"
  by (induction turns arbitrary: s) (auto split: prod.splits option.splits)

lemma unit_run_append:
  "unit_run sk deps be now (turns @ turns') u b w =
     (case unit_run sk deps be now turns u b w of (Some e, s) \<Rightarrow> (Some e, s) | (None, s) \<Rightarrow> mine_loop sk deps be turns' s)"
  by (auto simp: unit_run_def Let_def mine_loop_append split: prod.splits sum.splits option.splits)

text \<open>Two runs of the device loop that share their first units and rounds.\<close>

abbreviation calm_unit :: "(capture_world \<Rightarrow> capture_world) \<times> nat \<times> mine_round list \<Rightarrow> bool" where
  "calm_unit unit \<equiv> (case unit of (others, now, turns) \<Rightarrow> calm others \<and> (\<forall>turn\<in>set turns. calm (rd_others turn)))"

lemma fatal_stops: "sound_world w \<Longrightarrow> world_le w w' \<Longrightarrow> ms_fatal_durability (cw_state w) \<Longrightarrow> \<not> is_running (cw_state w')"
  by (auto simp: sound_world_def fatal_ok_def world_le_def latched_def is_running_def)

lemma device_sound:
  assumes "rowid_fresh (sk_new_rowid sk)" "sound_world w" "\<forall>unit\<in>set units. calm_unit unit"
    and "run_mining_on_device sk deps be stream_index units b w = (e, b', w')"
  shows "sound_world w' \<and> world_le w w' \<and> (ms_fatal_durability (cw_state w) \<longrightarrow> b' = b \<and> e = None)"
  using assms(2-4)
proof (induction units arbitrary: b w)
  case (Cons unit units)
  obtain others now turns where unit: "unit = (others, now, turns)" by (metis prod_cases3)
  let ?w = "others w"
  have c: "sound_world ?w" "world_le w ?w" using Cons.prems(1,2) by (auto simp: unit calm_def)
  show ?case
  proof (cases "is_running (cw_state ?w)")
    case False
    then show ?thesis using Cons.prems(3) c by (simp add: unit)
  next
    case True
    then have alive: "\<not> ms_fatal_durability (cw_state w)" using fatal_stops[OF Cons.prems(1) c(2)] by blast
    obtain e1 s where r: "unit_run sk deps be now turns (mine_unit_new (state_effective_difficulty (cw_state ?w)) stream_index now) b ?w = (e1, s)"
      by fastforce
    have "sound_world (us_world s)" "world_le ?w (us_world s)"
      using unit_run_sound[OF assms(1) c(1) _ r] Cons.prems(2) by (auto simp: unit)
    then have one: "sound_world (us_world s)" "world_le w (us_world s)" using world_le_trans[OF c(2)] by blast+
    show ?thesis
    proof (cases "\<exists>x. e1 = Some (Ended x)")
      case True
      then have "run_mining_on_device sk deps be stream_index units (us_backend s) (us_world s) = (e, b', w')"
        using Cons.prems(3) r \<open>is_running (cw_state ?w)\<close> by (auto simp: unit)
      then show ?thesis using Cons.IH[OF one(1), of "us_backend s"] Cons.prems(2) one(2) alive by (auto intro: world_le_trans)
    next
      case False
      then have "w' = us_world s"
        using Cons.prems(3) r \<open>is_running (cw_state ?w)\<close> by (auto simp: unit split: option.splits unit_end.splits)
      then show ?thesis using one alive by simp
    qed
  qed
qed simp

text \<open>What a unit cut short by the end of the list does when it goes on.\<close>

lemma unit_continues:
  assumes fresh: "rowid_fresh (sk_new_rowid sk)" and s: "sound_world (us_world s)"
    and calm: "\<forall>turn\<in>set turns. calm (rd_others turn)" "\<forall>unit\<in>set later. calm_unit unit"
    and loop: "mine_loop sk deps be turns s = (r, s')"
    and run: "(case r of Some (Unwound e) \<Rightarrow> (Some e, us_backend s', us_world s')
        | Some (Ended x) \<Rightarrow> run_mining_on_device sk deps be stream_index later (us_backend s') (us_world s')
        | None \<Rightarrow> (None, us_backend s', us_world s')) = (e2, b2, w2)"
  shows "sound_world w2 \<and> world_le (us_world s) w2 \<and> (ms_fatal_durability (cw_state (us_world s)) \<longrightarrow> b2 = us_backend s \<and> e2 = None)"
proof -
  note one = mine_loop_sound[OF fresh s calm(1) loop]
  have dead: "ms_fatal_durability (cw_state (us_world s)) \<Longrightarrow>
      us_backend s' = us_backend s \<and> r \<in> {None, Some (Ended Exit_Stopped)} \<and> ms_fatal_durability (cw_state (us_world s'))"
    using one fatal_stops[OF s world_le_refl] by (auto simp: world_le_def latched_def)
  show ?thesis
  proof (cases "\<exists>x. r = Some (Ended x)")
    case True
    then have "run_mining_on_device sk deps be stream_index later (us_backend s') (us_world s') = (e2, b2, w2)" using run by auto
    from device_sound[OF fresh _ calm(2) this] show ?thesis using one dead by (auto intro: world_le_trans)
  next
    case False
    then have "b2 = us_backend s'" "w2 = us_world s'" "r = None \<Longrightarrow> e2 = None" using run by (auto split: option.splits unit_end.splits)
    then show ?thesis using one dead False by auto
  qed
qed

text \<open>The unit in which the two runs part.\<close>

lemma last_unit_continues:
  assumes "rowid_fresh (sk_new_rowid sk)" "sound_world w" "\<forall>unit\<in>set ((others, now, turns @ turns') # later). calm_unit unit"
    and "run_mining_on_device sk deps be stream_index [(others, now, turns)] b w = (e1, b1, w1)"
    and "run_mining_on_device sk deps be stream_index ((others, now, turns @ turns') # later) b w = (e2, b2, w2)"
  shows "sound_world w1 \<and> world_le w w1 \<and> sound_world w2 \<and> world_le w1 w2
    \<and> (ms_fatal_durability (cw_state w1) \<longrightarrow> e2 = e1 \<and> b2 = b1)"
proof -
  let ?w = "others w"
  have c: "sound_world ?w" "world_le w ?w" and calm: "\<forall>turn\<in>set turns. calm (rd_others turn)" "\<forall>turn\<in>set turns'. calm (rd_others turn)"
    "\<forall>unit\<in>set later. calm_unit unit" using assms(2,3) by (auto simp: calm_def)
  show ?thesis
  proof (cases "is_running (cw_state ?w)")
    case True
    let ?u = "mine_unit_new (state_effective_difficulty (cw_state ?w)) stream_index now"
    obtain r s where r: "unit_run sk deps be now turns ?u b ?w = (r, s)" by fastforce
    have one: "sound_world (us_world s)" "world_le w (us_world s)"
      using unit_run_sound[OF assms(1) c(1) calm(1) r] world_le_trans[OF c(2)] by blast+
    have first: "b1 = us_backend s" "w1 = us_world s" "e1 = (case r of Some (Unwound e) \<Rightarrow> Some e | _ \<Rightarrow> None)"
      using assms(4) True r by (auto split: option.splits unit_end.splits)
    have "sound_world w2 \<and> world_le w1 w2 \<and> (ms_fatal_durability (cw_state w1) \<longrightarrow> e2 = e1 \<and> b2 = b1)"
    proof (cases r)
      case None
      obtain r' s' where l: "mine_loop sk deps be turns' s = (r', s')" by fastforce
      have run: "(case r' of Some (Unwound e) \<Rightarrow> (Some e, us_backend s', us_world s')
        | Some (Ended x) \<Rightarrow> run_mining_on_device sk deps be stream_index later (us_backend s') (us_world s')
        | None \<Rightarrow> (None, us_backend s', us_world s')) = (e2, b2, w2)"
        using assms(5) True r None l by (auto simp: unit_run_append split: option.splits unit_end.splits)
      show ?thesis using unit_continues[OF assms(1) one(1) calm(2,3) l run] first None by auto
    next
      case (Some x)
      show ?thesis
      proof (cases x)
        case (Ended y)
        then have "run_mining_on_device sk deps be stream_index later (us_backend s) (us_world s) = (e2, b2, w2)"
          using assms(5) True r Some by (auto simp: unit_run_append)
        from device_sound[OF assms(1) one(1) calm(3) this] show ?thesis using first Some Ended by auto
      next
        case (Unwound y)
        then have "e2 = Some y" "b2 = us_backend s" "w2 = us_world s"
          using assms(5) True r Some by (auto simp: unit_run_append)
        then show ?thesis using first Some Unwound one by auto
      qed
    qed
    then show ?thesis using one first by auto
  qed (use assms(4,5) c in auto)
qed

text \<open>A device that answers, mining for one address at difficulty nine.\<close>

definition demo_facts :: device_facts where
  "demo_facts = \<lparr> df_index = 0, df_name = ''gpu'', df_bus_id = 1, df_total_memory_bytes = 1024 \<rparr>"

definition demo_gpu :: "gpu mining_backend" where
  "demo_gpu = gpu_mining_backend demo_driver hex_decode 8 (cpu_fill device_blake2 4 host_new []) (host_finalize device_blake2)
     Hip (\<lambda>_. Inr 0) demo_facts"

definition demo_deps :: mine_deps where
  "demo_deps = \<lparr> md_identity = mining_identity_new ''0xabcdef0123456789ABCDEF012345678900112233'', md_has_source = False,
     md_max_batch_size = 0, md_streams_per_device = 1 \<rparr>"

definition demo_round :: mine_round where
  "demo_round = \<lparr> rd_others = (\<lambda>w. w), rd_source = mining_identity_new [], rd_xuni_open = True, rd_rng = (\<lambda>n. of_nat n), rd_now = 5,
     rd_finds = (\<lambda>_. demo_io) \<rparr>"

definition demo_unit :: "gpu unit_state" where
  "demo_unit = \<lparr> us_unit = (mine_unit_new 9 0 0)\<lparr> mu_batch_size := 2 \<rparr>, us_batch_index = 0,
     us_backend = \<lparr> g_calls = 0, g_runner = None \<rparr>, us_world = demo_world \<rparr>"

interpretation demo_be: exact_backend demo_gpu gpu_ok hex_decode
  unfolding demo_gpu_def by (rule gpu_backend_exact[OF demo_driver_ok(1) demo_host])

lemma demo_world_sound: "sound_world demo_world"
  by (simp add: sound_world_def demo_world_def empty_db_wf fatal_ok_def mining_state_new_def)

lemma demo_work: "select_work (current_identity demo_deps demo_round) 0
    = \<lparr> wk_salt_hex = ''abcdef0123456789ABCDEF012345678900112233'', wk_key_prefix = [] \<rparr>"
  by (simp add: select_work_def current_identity_def demo_deps_def mining_identity_new_def DEVFEE_CYCLE_def user_salt_def without_0x_def Let_def)

lemma demo_salt_hex: "is_hex_string ''abcdef0123456789ABCDEF012345678900112233''"
  by (simp add: is_hex_string_def ascii_simps)

lemma demo_keys: "\<exists>keys. generate_keys rng [] 2 = Some keys \<and> length keys = 2 \<and> (\<forall>x\<in>set keys. length x = 64)"
  using next_keys_ok[of "key_generator_new [] KEY_LENGTH" rng 2]
  by (auto simp: generate_keys_def key_generator_new_def KEY_LENGTH_def is_hex_string_def key_ok_def)

lemma demo_mine_step: "\<exists>s'. mine_step demo_sink demo_deps demo_gpu demo_round demo_unit = (None, s')"
proof -
  let ?salt = "''abcdef0123456789ABCDEF012345678900112233''"
  obtain keys where k: "generate_keys (\<lambda>n. of_nat n) [] 2 = Some keys" "length keys = 2" "\<forall>x\<in>set keys. length x = 64"
    using demo_keys by blast
  define request where "request = mine_request demo_deps demo_facts demo_round keys ?salt 9 demo_world"
  have req: "br_salt_hex request = ?salt" "br_passwords request = keys" "br_difficulty request = 9" "\<not> br_gpu_first_blocks request"
    by (simp_all add: request_def mine_request_def batch_request_new_def gpu_first_blocks_verified_def demo_world_def mining_state_new_def
        DEFAULT_GPU_FIRST_BLOCKS_def)
  have h: "hex_to_bytes hex_decode ?salt = Inr (hex_bytes ?salt)" by (rule hx.salt_decodes[OF _ demo_salt_hex]) simp
  have len: "length (hex_bytes ?salt) = 20" by (simp add: length_hex_bytes del: hex_bytes.simps)
  let ?run = "run_batch demo_driver hex_decode 8 (cpu_fill device_blake2 4 host_new []) (host_finalize device_blake2) request"
  have "succeeds gpu_ok ?run"
    by (rule argon2_host.batch_succeeds[OF demo_host demo_driver_ok, of _ _ "hex_bytes ?salt"])
      (use k len h in \<open>auto simp: req job_bytes_def lane_blocks_def segment_blocks_def shape_for_difficulty_def
        ARGON2_SYNC_POINTS_def ARGON2_BLOCK_SIZE_def simp del: hex_bytes.simps\<close>)
  then obtain v g' where r: "?run \<lparr> g_calls = 0, g_runner = None \<rparr> = (Inr v, g')" using idle_ok unfolding succeeds_def by blast
  have "ensures gpu_ok ?run (\<lambda>v g. v = Inr (batch_spec request (hex_bytes ?salt)))"
    by (rule argon2_host.batch_ensures[OF demo_host demo_driver_ok(1)]) (use h len k in \<open>simp_all add: req del: hex_bytes.simps\<close>)
  then have "v = Inr (batch_spec request (hex_bytes ?salt))" using r idle_ok unfolding ensures_def by blast
  then have "gpu_run demo_driver hex_decode 8 (cpu_fill device_blake2 4 host_new []) (host_finalize device_blake2) request
      \<lparr> g_calls = 0, g_runner = None \<rparr> = (Batch_Ok (batch_spec request (hex_bytes ?salt)), g')" using r by (simp add: gpu_run_def)
  then show ?thesis
    using k demo_work unfolding request_def
    by (auto simp: mine_step_def demo_unit_def demo_gpu_def gpu_mining_backend_def Let_def demo_world_def mining_state_new_def is_running_def
        state_effective_difficulty_def effective_difficulty_def mine_unit_new_def demo_round_def split: prod.splits simp del: hex_bytes.simps)
qed

text \<open>C6.  Mining keeps what was found, and stops when it cannot.  Over any units and rounds of a device,
  any backend and any answers of database, file system and clocks, and whatever sound things the
  other threads do in between, the journal stays well-formed and keeps every find, and stops and fatal
  declarations are never taken back.  The run is looked at twice: after any number of rounds of any
  unit, and after any further rounds and units.  If the miner has been declared broken by the first
  point, the rest of the run ends the loop without calling the backend again, however it goes on.\<close>

theorem mining_keeps_finds:
  assumes "rowid_fresh (sk_new_rowid sk)" "sound_world w"
    and "\<forall>unit\<in>set (units @ (others, now, turns @ turns') # later). calm_unit unit"
    and "run_mining_on_device sk deps be stream_index (units @ [(others, now, turns)]) b w = (e1, b1, w1)"
    and "run_mining_on_device sk deps be stream_index (units @ (others, now, turns @ turns') # later) b w = (e2, b2, w2)"
  shows "sound_world w1 \<and> world_le w w1 \<and> sound_world w2 \<and> world_le w1 w2
    \<and> (ms_fatal_durability (cw_state w1) \<longrightarrow> e2 = e1 \<and> b2 = b1)"
  using assms(2-5)
proof (induction units arbitrary: b w)
  case Nil
  show ?case by (rule last_unit_continues[OF assms(1) Nil[unfolded append_Nil]])
next
  case (Cons unit units)
  obtain others' now' ts where unit: "unit = (others', now', ts)" by (metis prod_cases3)
  let ?w = "others' w"
  have c: "sound_world ?w" "world_le w ?w" and calm: "\<forall>turn\<in>set ts. calm (rd_others turn)"
    using Cons.prems(1,2) by (auto simp: unit calm_def)
  show ?case
  proof (cases "is_running (cw_state ?w)")
    case True
    let ?u = "mine_unit_new (state_effective_difficulty (cw_state ?w)) stream_index now'"
    obtain r s where r: "unit_run sk deps be now' ts ?u b ?w = (r, s)" by fastforce
    have one: "sound_world (us_world s)" "world_le w (us_world s)"
      using unit_run_sound[OF assms(1) c(1) calm r] world_le_trans[OF c(2)] by blast+
    show ?thesis
    proof (cases "\<exists>x. r = Some (Ended x)")
      case True
      then have "run_mining_on_device sk deps be stream_index (units @ [(others, now, turns)]) (us_backend s) (us_world s) = (e1, b1, w1)"
        "run_mining_on_device sk deps be stream_index (units @ (others, now, turns @ turns') # later) (us_backend s) (us_world s) = (e2, b2, w2)"
        using Cons.prems(3,4) r \<open>is_running (cw_state ?w)\<close> by (auto simp: unit)
      from Cons.IH[OF one(1) _ this] show ?thesis using Cons.prems(2) one(2) by (auto intro: world_le_trans)
    next
      case False
      then have "w1 = us_world s" "w2 = us_world s" "b1 = us_backend s" "b2 = us_backend s" "e2 = e1"
        using Cons.prems(3,4) r True by (auto simp: unit split: option.splits unit_end.splits)
      then show ?thesis using one by auto
    qed
  qed (use Cons.prems c in \<open>auto simp: unit\<close>)
qed


text \<open>A backend that counts its batches and answers each with the same matches; a round whose find is lost.\<close>

definition tally_backend :: "gpu_match list \<Rightarrow> nat mining_backend" where
  "tally_backend hits =
     \<lparr> mb_device = demo_facts, mb_release = (\<lambda>n. n),
       mb_plan = (\<lambda>difficulty limit streams n. (Inr \<lparr> memory_limited_batch_size = 2, tuned_batch_size = 0, selected_batch_size = 2,
          explicit_limit_applied = False, tuned_default_applied = False \<rparr>, n)),
       mb_run = (\<lambda>request n. (Batch_Ok \<lparr> bo_attempts = 2, bo_gpu_first_blocks = False, bo_matches = hits, bo_digests = [], bo_hash = None \<rparr>, Suc n)) \<rparr>"

lemma tally_simps [simp]:
  "mb_device (tally_backend hits) = demo_facts" "mb_release (tally_backend hits) n = n"
  "mb_plan (tally_backend hits) difficulty limit streams n = (Inr \<lparr> memory_limited_batch_size = 2, tuned_batch_size = 0, selected_batch_size = 2,
          explicit_limit_applied = False, tuned_default_applied = False \<rparr>, n)"
  "mb_run (tally_backend hits) request n
     = (Batch_Ok \<lparr> bo_attempts = 2, bo_gpu_first_blocks = False, bo_matches = hits, bo_digests = [], bo_hash = None \<rparr>, Suc n)"
  by (simp_all add: tally_backend_def)

definition lossy_io :: capture_io where
  "lossy_io = demo_io\<lparr> ci_sql := (\<lambda>_. Some ''disk full''), ci_sink := working_append\<lparr> ap_create := False \<rparr> \<rparr>"

definition lossy_round :: mine_round where
  "lossy_round = demo_round\<lparr> rd_finds := (\<lambda>_. lossy_io) \<rparr>"

definition lossy_sink :: find_sink where
  "lossy_sink = demo_sink\<lparr> sk_verifier := (\<lambda>_. Ver_Match) \<rparr>"

definition one_hit :: gpu_match where
  "one_hit = \<lparr> gm_key = ''k'', gm_hash = ''XEN11'', gm_matched_pattern = ''XEN11'', gm_attempt_index = 0, gm_is_superblock = False \<rparr>"

lemma lossy_find:
  assumes "fd_hexsalt hit = ''abcdef0123456789ABCDEF012345678900112233''" "cw_fs w = no_sink" "fatal_ok (cw_state w)"
  shows "ms_fatal_durability (cw_state (snd (record_find lossy_sink lossy_io hit w)))"
proof -
  have "hex_to_bytes hex_decode (fd_hexsalt hit) = Inr (hex_bytes (fd_hexsalt hit))"
    unfolding assms(1) by (rule hx.salt_decodes[OF _ demo_salt_hex]) simp
  then obtain p where "payload_for lossy_sink (ci_now_utc lossy_io) hit = Inr p"
    using assms(1) by (auto simp: payload_for_def lossy_sink_def assemble_phc_def simp del: hex_bytes.simps)
  then show ?thesis
    using assms(2,3) declare_fatal
    by (auto simp: record_find_def lossy_sink_def reject_if_unverified_def persist_def lossy_io_def demo_io_def append_find_def sql_call_def
        Let_def sink_append_def open_new_def open_append_def no_sink_def account_def split: sum.splits)
qed


lemma demo_world_state [simp]:
  "is_running (cw_state demo_world)" "state_effective_difficulty (cw_state demo_world) = 9" "\<not> ms_mining_paused (cw_state demo_world)"
  by (simp_all add: is_running_def demo_world_def mining_state_new_def state_effective_difficulty_def effective_difficulty_def)

lemma round_fields [simp]:
  "rd_others demo_round = (\<lambda>w. w)" "rd_rng demo_round = (\<lambda>n. of_nat n)" "rd_now demo_round = 5"
  "rd_others lossy_round = (\<lambda>w. w)" "rd_rng lossy_round = (\<lambda>n. of_nat n)" "rd_now lossy_round = 5" "rd_finds lossy_round = (\<lambda>_. lossy_io)"
  by (simp_all add: demo_round_def lossy_round_def)

lemma lossy_step:
  assumes "us_world s = demo_world" "mu_difficulty (us_unit s) = 9" "mu_batch_size (us_unit s) = 2" "us_batch_index s = 0"
  shows "\<exists>s'. mine_step lossy_sink demo_deps (tally_backend [one_hit]) lossy_round s = (None, s')
    \<and> us_backend s' = Suc (us_backend s) \<and> ms_fatal_durability (cw_state (us_world s'))"
proof -
  let ?salt = "''abcdef0123456789ABCDEF012345678900112233''"
  let ?outcome = "\<lparr> bo_attempts = 2, bo_gpu_first_blocks = False, bo_matches = [one_hit], bo_digests = [], bo_hash = None \<rparr>"
  obtain keys where k: "generate_keys (\<lambda>n. of_nat n) [] 2 = Some keys" using demo_keys by blast
  obtain u1 w1 u2 w2 where w: "submit_matches lossy_sink (\<lambda>_. lossy_io) ?salt ?outcome (us_unit s) demo_world = (u1, w1)"
    "publish_stats demo_facts 5 u1 w1 = (u2, w2)" by fastforce
  have "w1 = snd (record_find lossy_sink lossy_io (match_find (us_unit s) ?salt (mu_attempts (us_unit s) + 1) one_hit) demo_world)"
    using w(1) by (auto simp: submit_matches_def one_hit_def split: prod.splits)
  then have "ms_fatal_durability (cw_state w1)"
    using lossy_find[of "match_find (us_unit s) ?salt (mu_attempts (us_unit s) + 1) one_hit" demo_world] demo_world_sound
    by (simp add: match_find_def demo_world_def sound_world_def)
  then have f: "ms_fatal_durability (cw_state w2)" using publish_frame[OF w(2)] by simp
  have i: "select_work (current_identity demo_deps lossy_round) 0 = \<lparr> wk_salt_hex = ?salt, wk_key_prefix = [] \<rparr>"
    using demo_work by (simp add: current_identity_def demo_deps_def)
  have "mine_step lossy_sink demo_deps (tally_backend [one_hit]) lossy_round s
      = (None, \<lparr> us_unit = u2, us_batch_index = 1, us_backend = Suc (us_backend s), us_world = w2 \<rparr>)"
    using k w by (simp add: mine_step_def i assms Let_def DEVFEE_CYCLE_def)
  then show ?thesis using f by simp
qed

lemma lossy_unit:
  "\<exists>w'. run_mining_on_device lossy_sink demo_deps (tally_backend [one_hit]) 0 [(\<lambda>w. w, 1, [lossy_round])] 0 demo_world = (None, 1, w')
     \<and> ms_fatal_durability (cw_state w')"
proof -
  show ?thesis
    using lossy_step[of "\<lparr> us_unit = (mine_unit_new 9 0 1)\<lparr> mu_batch_size := 2, mu_used_memory_bytes := 2 * 9 * 1024, mu_started_at := 1 \<rparr>,
       us_batch_index = 0, us_backend = 0, us_world = demo_world \<rparr>"]
    by (auto simp: unit_run_def mine_unit_new_def Let_def)
qed

theorem mining_keeps_finds_witness:
  "\<exists>w1 w2. run_mining_on_device lossy_sink demo_deps (tally_backend [one_hit]) 0 [(\<lambda>w. w, 1, [lossy_round])] 0 demo_world = (None, 1, w1)
     \<and> run_mining_on_device lossy_sink demo_deps (tally_backend [one_hit]) 0
         [(\<lambda>w. w, 1, [lossy_round, demo_round, demo_round]), (\<lambda>w. w, 2, [demo_round])] 0 demo_world = (None, 1, w2)
     \<and> sound_world w2 \<and> world_le w1 w2"
proof -
  have calm: "calm (\<lambda>w. w)" "calm (rd_others demo_round)" "calm (rd_others lossy_round)" by (simp_all add: calm_def demo_round_def lossy_round_def)
  obtain w1 where w1: "run_mining_on_device lossy_sink demo_deps (tally_backend [one_hit]) 0 [(\<lambda>w. w, 1, [lossy_round])] 0 demo_world = (None, 1, w1)"
    "ms_fatal_durability (cw_state w1)" using lossy_unit by blast
  obtain e2 b2 w2 where w2: "run_mining_on_device lossy_sink demo_deps (tally_backend [one_hit]) 0
         [(\<lambda>w. w, 1, [lossy_round, demo_round, demo_round]), (\<lambda>w. w, 2, [demo_round])] 0 demo_world = (e2, b2, w2)" by (metis prod_cases3)
  have "rowid_fresh (sk_new_rowid lossy_sink)" using next_rowid_fresh by (simp add: lossy_sink_def)
  from mining_keeps_finds[OF this demo_world_sound, of "[]" "\<lambda>w. w" 1 "[lossy_round]" "[demo_round, demo_round]" "[(\<lambda>w. w, 2, [demo_round])]"
      demo_deps "tally_backend [one_hit]" 0 0] w1 w2 calm
  show ?thesis by auto
qed

text \<open>A unit that finds nothing, over two cycles of a schedule with all three parties.\<close>

definition fee_identity :: mining_identity where
  "fee_identity = (mining_identity_new ''0xab'')\<lparr> id_devfee_address := ''0xcd'', id_eco_devfee_address := ''ef'', id_devfee_permillage := 21 \<rparr>"

definition fee_deps :: mine_deps where
  "fee_deps = demo_deps\<lparr> md_identity := fee_identity \<rparr>"

lemma fee_deps_identity [simp]: "current_identity fee_deps turn = fee_identity"
  by (simp add: current_identity_def fee_deps_def demo_deps_def)

lemma fee_identity_schedule:
  "fee_schedule fee_identity = replicate 979 \<lparr> wk_salt_hex = ''ab'', wk_key_prefix = [] \<rparr>
     @ replicate 11 \<lparr> wk_salt_hex = ''cd'', wk_key_prefix = ''FFFFFFFFab'' \<rparr>
     @ replicate 10 \<lparr> wk_salt_hex = ''ef'', wk_key_prefix = ''EEEEEEEEab'' \<rparr>"
  by (simp add: fee_schedule_def fee_identity_def mining_identity_new_def user_work_def fee_work_def user_salt_def without_0x_def
      DEVFEE_PREFIX_def ECODEVFEE_PREFIX_def Let_def)

lemma fee_identity_prefix: "length (wk_key_prefix (select_work fee_identity i)) \<le> 10"
  "is_hex_string (map to_ascii_lower (wk_key_prefix (select_work fee_identity i)))"
  by (auto simp: select_work_def fee_identity_def mining_identity_new_def user_salt_def without_0x_def
      DEVFEE_PREFIX_def ECODEVFEE_PREFIX_def Let_def is_hex_string_def ascii_simps)

lemma fee_keys: "\<exists>keys. generate_keys rng (wk_key_prefix (select_work fee_identity i)) n = Some keys"
  using next_keys_ok[of "key_generator_new (wk_key_prefix (select_work fee_identity i)) KEY_LENGTH" rng n] fee_identity_prefix[of i]
  by (auto simp: generate_keys_def key_generator_new_def KEY_LENGTH_def)

definition mining_at :: "nat \<Rightarrow> capture_world \<Rightarrow> bool" where
  "mining_at d w \<longleftrightarrow> is_running (cw_state w) \<and> state_effective_difficulty (cw_state w) = d \<and> \<not> ms_mining_paused (cw_state w)"

lemma publish_mining:
  "publish_stats facts now u w = (u', w') \<Longrightarrow> mu_difficulty u' = mu_difficulty u \<and> mining_at d w' = mining_at d w"
  by (auto simp: publish_stats_def mining_at_def publish_gpu_def add_hashes_def is_running_def state_effective_difficulty_def Let_def)

lemma quiet_step:
  assumes "mining_at (mu_difficulty (us_unit s)) (us_world s)"
  shows "\<exists>s'. mine_step demo_sink fee_deps (logged (tally_backend [])) demo_round s = (None, s')
    \<and> mining_at (mu_difficulty (us_unit s')) (us_world s') \<and> length (snd (us_backend s')) = Suc (length (snd (us_backend s)))"
proof -
  obtain keys where k: "generate_keys (\<lambda>n. of_nat n) (wk_key_prefix (select_work fee_identity (us_batch_index s))) (mu_batch_size (us_unit s)) = Some keys"
    using fee_keys by blast
  obtain b trace where b: "us_backend s = (b, trace)" by fastforce
  obtain u2 w2 where p: "publish_stats demo_facts 5 ((us_unit s)\<lparr> mu_attempts := mu_attempts (us_unit s) + 2 \<rparr>) (us_world s) = (u2, w2)" by fastforce
  show ?thesis
    using assms k b p publish_mining[OF p] by (auto simp: mining_at_def mine_step_def Let_def submit_matches_def)
qed

lemma quiet_loop:
  "mining_at (mu_difficulty (us_unit s)) (us_world s) \<Longrightarrow>
   \<exists>s'. mine_loop demo_sink fee_deps (logged (tally_backend [])) (replicate n demo_round) s = (None, s')
    \<and> length (snd (us_backend s')) = length (snd (us_backend s)) + n"
proof (induction n arbitrary: s)
  case (Suc n)
  obtain s1 where s1: "mine_step demo_sink fee_deps (logged (tally_backend [])) demo_round s = (None, s1)"
    "mining_at (mu_difficulty (us_unit s1)) (us_world s1)" "length (snd (us_backend s1)) = Suc (length (snd (us_backend s)))"
    using quiet_step[OF Suc.prems] by blast
  then show ?case using Suc.IH[OF s1(2)] by auto
qed simp

theorem fee_cycle_witness:
  "\<exists>s'. unit_run demo_sink fee_deps (logged (tally_backend [])) 1 (replicate 1980 demo_round) (mine_unit_new 9 0 1) (0, []) demo_world = (None, s')
     \<and> length (snd (us_backend s')) = 1980
     \<and> br_salt_hex (snd (us_backend s') ! 978) = ''ab'' \<and> br_salt_hex (snd (us_backend s') ! 979) = ''cd''
     \<and> br_salt_hex (snd (us_backend s') ! 990) = ''ef'' \<and> br_salt_hex (snd (us_backend s') ! 1000) = ''ab''
     \<and> br_salt_hex (snd (us_backend s') ! 1979) = ''cd''"
proof -
  obtain s' where s': "unit_run demo_sink fee_deps (logged (tally_backend [])) 1 (replicate 1980 demo_round) (mine_unit_new 9 0 1) (0, []) demo_world = (None, s')"
    "length (snd (us_backend s')) = 1980"
    using quiet_loop[of "\<lparr> us_unit = (mine_unit_new 9 0 1)\<lparr> mu_batch_size := 2, mu_used_memory_bytes := 2 * 9 * 1024, mu_started_at := 1 \<rparr>,
       us_batch_index = 0, us_backend = (0, []), us_world = demo_world \<rparr>" 1980]
    by (auto simp: unit_run_def mine_unit_new_def mining_at_def Let_def)
  have n: "(replicate 979 x @ replicate 11 y @ replicate 10 z) ! i = (if i < 979 then x else if i < 990 then y else z)" if "i < 1000" for x y z :: work and i
    using nth_three[of 979 11 10 1000 i x y z] that by simp
  have "br_salt_hex (snd (us_backend s') ! k) = wk_salt_hex (fee_schedule fee_identity ! (k mod 1000))" if "k < 1980" for k
    using fee_cycle[OF _ s'(1), of fee_identity] that s'(2) by (auto simp: mines_def)
  then show ?thesis using s' by (simp add: fee_identity_schedule n)
qed


text \<open>C5.  A round on the GPU captures exactly what it found.  When the loop goes on after a round that
  hashed, the finds handed to the sink are the matches of the true digests of the round's keys; they
  carry the memory cost that was in force and the digest the CPU computes, so none is rejected; and
  the journal and the fallback file are those the captures leave.\<close>

theorem gpu_round_captures:
  fixes d decode hw fill host runtime free facts
  defines "be \<equiv> gpu_mining_backend d decode hw fill host runtime free facts"
  assumes "driver_ok d" "argon2_host fill host" "hex_crate decode" "argon2_crate argon2" "sk_verifier sk = cpu_verify decode argon2"
    and "gpu_ok (us_backend s)" "wk = select_work (current_identity deps turn) (us_batch_index s)"
    and "is_hex_string (wk_salt_hex wk)" "even (length (wk_salt_hex wk))" "16 \<le> length (wk_salt_hex wk)" "length (wk_salt_hex wk) < 2 ^ 32"
    and "8 \<le> mu_difficulty (us_unit s)" "mu_difficulty (us_unit s) < 2 ^ 32"
    and "mine_step sk deps be turn s = (None, s')" "\<not> ms_mining_paused (cw_state (us_world s))"
  shows "\<exists>keys. generate_keys (rd_rng turn) (wk_key_prefix wk) (mu_batch_size (us_unit s)) = Some keys
    \<and> (let request = mine_request deps (mb_device be) turn keys (wk_salt_hex wk) (mu_difficulty (us_unit s)) (us_world s);
           hits = batch_finds (us_unit s) (wk_salt_hex wk) (batch_spec request (hex_bytes (wk_salt_hex wk)));
           (cs, w) = record_all sk (rd_finds turn) 0 hits (us_world s)
       in mu_difficulty (us_unit s) = state_effective_difficulty (cw_state (us_world s))
        \<and> (\<forall>hit\<in>set hits. fd_digest hit = true_digest hit \<and> fd_memory_cost hit = mu_difficulty (us_unit s))
        \<and> Cap_Rejected \<notin> set cs \<and> cw_db (us_world s') = cw_db w \<and> cw_fs (us_world s') = cw_fs w)"
  by (rule exact_backend.round_exact[OF gpu_backend_exact[OF assms(2,3), of decode hw runtime free facts, folded be_def]
        assms(8,7,4,5,6,9-16)])


theorem gpu_round_captures_witness:
  "\<exists>s' keys. mine_step demo_sink demo_deps demo_gpu demo_round demo_unit = (None, s')
    \<and> generate_keys (\<lambda>n. of_nat n) [] 2 = Some keys
    \<and> (let request = mine_request demo_deps demo_facts demo_round keys ''abcdef0123456789ABCDEF012345678900112233'' 9 demo_world;
           hits = batch_finds (us_unit demo_unit) ''abcdef0123456789ABCDEF012345678900112233''
             (batch_spec request (hex_bytes ''abcdef0123456789ABCDEF012345678900112233''));
           (cs, w) = record_all demo_sink (\<lambda>_. demo_io) 0 hits demo_world
       in Cap_Rejected \<notin> set cs \<and> cw_db (us_world s') = cw_db w)"
proof -
  obtain s' where s: "mine_step demo_sink demo_deps demo_gpu demo_round demo_unit = (None, s')" using demo_mine_step by blast
  have u: "mu_difficulty (us_unit demo_unit) = 9" "mu_batch_size (us_unit demo_unit) = 2" "us_batch_index demo_unit = 0"
    "us_world demo_unit = demo_world" "us_backend demo_unit = \<lparr> g_calls = 0, g_runner = None \<rparr>" "\<not> ms_mining_paused (cw_state demo_world)"
    "rd_rng demo_round = (\<lambda>n. of_nat n)" "rd_finds demo_round = (\<lambda>_. demo_io)" "mb_device demo_gpu = demo_facts"
    by (simp_all add: demo_unit_def mine_unit_new_def demo_world_def mining_state_new_def demo_round_def demo_gpu_def gpu_mining_backend_def)
  from gpu_round_captures[of demo_driver "cpu_fill device_blake2 4 host_new []" "host_finalize device_blake2" hex_decode rfc_argon2 demo_sink
      demo_unit "\<lparr> wk_salt_hex = ''abcdef0123456789ABCDEF012345678900112233'', wk_key_prefix = [] \<rparr>" demo_deps demo_round 8 Hip "\<lambda>_. Inr 0" demo_facts s',
      folded demo_gpu_def, OF demo_driver_ok(1) demo_host hx.hex_crate_axioms rfc.argon2_crate_axioms demo_sink_fields(2)]
  show ?thesis using s demo_salt_hex idle_ok demo_work unfolding u by (auto simp: Let_def u simp del: hex_bytes.simps split: prod.splits)
qed

end
