(* ===== verification/Spec2Isabelle.thy ===== *)
theory Spec2Isabelle
  imports Submission_Examples Mine_Unit
begin

text \<open>
  TreeMiner (\<^verbatim>\<open>src/treeminer-rs/crates\<close>) mines for strings whose Argon2id digest contains a
  marker and reports each find to a pool server.  Miner threads append finds to a durable SQLite
  journal; one submission thread drains the journal to the server over HTTP, confirms what the
  server claims to have stored, and paces and interrupts itself; a poller feeds it the network's
  difficulty.  A find must survive crashes, outages, lying answers and difficulty changes.

  \<^bold>\<open>Theories.\<close>
  \<^item> \<open>Prelude\<close>, \<open>F64\<close>, \<open>Transition_Systems\<close>: wrap-around at 32 and 64 bits, texts
    and their order, results; binary64 values as rationals with round-to-nearest-even; runs of a
    component over an event list, and the locales \<open>invariant_system\<close> and
    \<open>functional_refinement\<close> that every stateful component interprets.
  \<^item> \<open>Core_Types\<close>, \<open>Core_Encoding\<close>, \<open>Core_Batch\<close>: crate \<^verbatim>\<open>tm-core\<close>.  Kinds,
    statuses and records; base64, PHC strings, addresses (\<^verbatim>\<open>hex\<close> and \<^verbatim>\<open>tiny-keccak\<close> are parameters);
    the batch size from free memory.
  \<^item> \<open>Journal\<close>: \<^verbatim>\<open>tm-journal/src/journal.rs\<close>.  The tables are a record of row lists, one
    function per operation; \<open>sql_io\<close> says which calls of the engine fail, and a failed
    transaction leaves the tables unchanged (SQLite's documented atomicity); the row id allocator
    is a parameter with the hypothesis \<open>rowid_fresh\<close>.
  \<^item> \<open>Journal_Bridge\<close>: \<^verbatim>\<open>treeminer/src/bridge.rs\<close> and the trait of
    \<^verbatim>\<open>tm-submit/src/journal.rs\<close> as the locale \<open>journal_access\<close>, interpreted on the adapter.
  \<^item> \<open>Classifier\<close>, \<open>Clocktime\<close>, \<open>Breaker\<close>, \<open>Drain\<close>, \<open>Margin\<close>: the modules of the
    same names in \<^verbatim>\<open>tm-submit/src\<close>.
  \<^item> \<open>Submission\<close>: \<^verbatim>\<open>tm-submit/src/manager.rs\<close>.  The manager with all its atomics and mutexed
    blocks is one record; an operation returning \<^verbatim>\<open>Result\<close> is a state-passing function with an error
    value, composed by \<open>mbind\<close>; clocks, jitter, database engine, server and the concurrent miners
    answer through \<open>env\<close>, indexed by a counter of interactions, so that no two answers need agree.
  \<^item> \<open>Submission_Safety\<close>, \<open>Submission_Drain\<close>, \<open>Submission_Examples\<close>: frames, Hoare triples
    and the theorems about the loop, with a concrete manager they are applied to.

  \<^item> \<open>Config\<close>, \<open>Difficulty\<close>: \<^verbatim>\<open>treeminer/src/config.rs\<close> and \<^verbatim>\<open>difficulty.rs\<close>; file-system
    outcomes and HTTP answers are arguments.  The poller keeps a log of what an
    observer would be shown, though none is installed at start-up; the other writers of the shared difficulty (the hint callback of \<^verbatim>\<open>run.rs\<close> and the
    platform client) are not part of it.
  \<^item> \<open>Blake2b\<close>, \<open>First_Blocks\<close>: the hash and the first-blocks kernel of \<^verbatim>\<open>tm-kernel/src/lib.rs\<close>
    against RFC 7693 and RFC 9106, work-items in any order.
  \<^item> \<open>Argon2_Wave\<close>, \<open>Argon2_Fill\<close>: the memory-filling kernel.  A wavefront is a list of 32
    register quadruples run in lock step; shuffles read other lanes; the reference is the block
    chain of RFC 9106.
  \<^item> \<open>Argon2_Host\<close>: \<^verbatim>\<open>tm-argon2/src/host.rs\<close>, the worker pool as steps of a schedule; the
    \<^verbatim>\<open>blake2\<close> crate is the locale \<open>blake2_crate\<close>, interpreted on the device's hasher.
  \<^item> \<open>Gpu_Runner\<close>, \<open>Gpu_Hash\<close>: \<^verbatim>\<open>tm-gpu/src/runner.rs\<close>, \<^verbatim>\<open>backend.rs\<close>, \<^verbatim>\<open>module.rs\<close> and
    \<^verbatim>\<open>hash.rs\<close>.  The driver is a parameter (which call fails, what an allocation contains, in which
    order a launch runs); operations are state passing with an error value; \<open>ensures\<close>,
    \<open>keeps\<close> and \<open>succeeds\<close> are the Hoare-style calculus their lemmas are proved in.  The trait
    \<^verbatim>\<open>Argon2Host\<close> is the locale \<open>argon2_host\<close>, a sublocale of \<open>blake2_crate\<close> through the CPU host.
  \<^item> \<open>Hash_Api\<close>: the request-response interface of \<^verbatim>\<open>tm-argon2\<close> (\<^verbatim>\<open>types.rs\<close>,
    \<^verbatim>\<open>validation.rs\<close>, \<^verbatim>\<open>keygen.rs\<close>, \<^verbatim>\<open>cpu.rs\<close>); the \<^verbatim>\<open>argon2\<close> and \<^verbatim>\<open>hex\<close> crates are the
    locales \<open>argon2_crate\<close> and \<open>hex_crate\<close>.
  \<^item> \<open>Sink_Text\<close>, \<open>Sink_Json\<close>, \<open>Fallback\<close>: \<^verbatim>\<open>tm-journal/src/fallback.rs\<close>, the file finds go
    to when SQLite fails.  \<^verbatim>\<open>serde_json\<close> is the locale \<open>serde_json\<close>, interpreted on a reference
    parser; what it reads back for a number (\<open>reread\<close>) is left open, since without its
    \<^verbatim>\<open>float_roundtrip\<close> feature the crate does not promise the exact value.  File contents, synced
    lengths and the durability of the directory entry are the state; a failed sync of the directory
    does not change the sink's answer, so the theorems say what a power loss may take then.
  \<^item> \<open>Mining_State\<close>, \<open>Find_Capture\<close>, \<open>Mine_Unit\<close>: \<^verbatim>\<open>treeminer/src/state.rs\<close>, \<^verbatim>\<open>find.rs\<close>,
    \<^verbatim>\<open>backend.rs\<close> and \<^verbatim>\<open>mineunit.rs\<close>.  The world of a find is the journal, the sink and the mining
    state together; a mining loop takes the list of its rounds, each with what the other threads did
    before it (not within it).  The trait \<^verbatim>\<open>MiningBackend\<close> is a record of functions with the locale
    \<open>exact_backend\<close>, interpreted on the GPU backend.

  \<^bold>\<open>What is shown.\<close>  No interleaving of the drain loop, the poller and the miners loses or alters a
  captured find or reopens a settled one, and a find is marked acknowledged only on the server's
  own proof; an append is durable field for field; an open breaker lets only probes through and the
  breaker is the documented automaton; fatal errors are reported once and stop the loop; the
  quiesce pauses submissions and cannot stick; backoff, pacing, probe schedule and margin stay in
  their bounds; selection follows the documented policy; timestamps order as texts; verdicts write a
  find off only on conclusive answers; the selected batch fits the device memory; device and host
  compute the first blocks of RFC 9106, in any order of work-items and threads, and the host's pool
  finishes; a GPU batch returns Argon2id of every password and exactly the matches these digests
  contain, from any earlier state of the pool; so does a request to the CPU backend; a find in a
  fallback file of whole lines reaches the journal, or the file stays; a mining round hands over exactly the matches
  of the true digests, none of which the CPU check rejects, and what the capture calls durable is in
  the journal after restarts, under the conditions the theorem names (a sink of whole lines, its
  directory entry on disk, an import that works); a miner declared broken calls its backend no more;
  the batches of a unit follow the fee schedule and attempts add up.

  \<^bold>\<open>Bounds.\<close>  Release builds wrap on overflow; the model wraps where the signed clocks, intervals and
  keys of the source are computed (\<open>wrap_i64\<close>, \<open>wrap_i32\<close>) and on \<open>word\<close> values (the counters of
  the mining state, the kernels), and theorems about arithmetic state the ranges in which nothing wraps.  Plain counters
  that would need some \<open>2\<^sup>6\<^sup>4\<close> events to wrap are unbounded: the attempts carried by a mining unit
  (\<^verbatim>\<open>MineUnit.attempts\<close>, a \<^verbatim>\<open>u64\<close>) and the attempt count of a journal row.  \<open>thread_loop\<close> takes the number
  of steps to look at; the source's loop runs until stopped, and the theorems hold for every number.
  All other functions terminate by structure or by a proved measure.

  \<^bold>\<open>Not modelled.\<close>  GPU bindings, the terminal interface, HTTP itself, logging and thread
  scheduling are I/O; the dashboard and the platform client are the next components.
\<close>

end
